(* ===== verification/Prelude.thy ===== *)
theory Prelude
  imports
    Main
    "HOL-Library.AList"
    "HOL-Library.Char_ord"
    "HOL-Library.List_Lexorder"
    "HOL-Library.Product_Lexorder"
    "HOL-Library.Multiset"
    "HOL-Library.Code_Target_Numeral"
begin

text \<open>
  What the component theories share: Python's exceptions and the result type of code that
  may raise, the dictionaries and string operations the source uses, and generic lemmas
  about them and about sorting by a key.

  Strings are lists of ASCII characters; text outside ASCII is not modelled. Of an exception
  the model keeps the class and the constant part of the message.
\<close>

named_theorems result_simps \<open>when a computation that may raise succeeds\<close>
named_theorems dict_simps \<open>lookup, update, keys and values of dictionaries\<close>


section \<open>Exceptions and results\<close>

datatype exc_class =
    ValueError
  | TypeError
  | KeyError
  | IndexError
  | AssertionError
  | RuntimeError
  | MoneyValidationError
  | CurrencyMismatchError
  | InvalidOperation
  | DivisionByZero
  | Overflow
  | AuditVerificationError
  | UnsupportedAuditVersionError
  | AuditChainConflictError
  | AuditChainTransactionError
  | OverflowError
  | CanonicalSerializationError
  | SnapshotVerificationError
  | UnsupportedSnapshotVersionError
  | SnapshotConflictError
  | LegacySnapshotUnverifiedError
  | IntegrityError

datatype py_error = PyError (exc: exc_class) (msg: string)

type_synonym 'a result = "py_error + 'a"

abbreviation Ok :: "'a \<Rightarrow> 'a result" where
  "Ok \<equiv> Inr"

abbreviation raise :: "exc_class \<Rightarrow> string \<Rightarrow> 'a result" where
  "raise c m \<equiv> Inl (PyError c m)"

text \<open>\<open>except C\<close> also catches the subclasses of \<open>C\<close>; these are the classes that have some.\<close>

fun superclass :: "exc_class \<Rightarrow> exc_class option" where
  "superclass CurrencyMismatchError = Some MoneyValidationError"
| "superclass MoneyValidationError = Some ValueError"
| "superclass UnsupportedAuditVersionError = Some AuditVerificationError"
| "superclass AuditChainConflictError = Some AuditVerificationError"
| "superclass AuditVerificationError = Some ValueError"
| "superclass AuditChainTransactionError = Some RuntimeError"
| "superclass CanonicalSerializationError = Some ValueError"
| "superclass SnapshotVerificationError = Some ValueError"
| "superclass UnsupportedSnapshotVersionError = Some SnapshotVerificationError"
| "superclass SnapshotConflictError = Some SnapshotVerificationError"
| "superclass LegacySnapshotUnverifiedError = Some SnapshotVerificationError"
| "superclass _ = None"

definition isinstance_exc :: "exc_class \<Rightarrow> exc_class \<Rightarrow> bool" where
  "isinstance_exc c d \<longleftrightarrow>
     c = d \<or> superclass c = Some d \<or>
     (case superclass c of None \<Rightarrow> False | Some s \<Rightarrow> superclass s = Some d)"

definition rbind :: "'a result \<Rightarrow> ('a \<Rightarrow> 'b result) \<Rightarrow> 'b result" where
  "rbind m f = (case m of Inl e \<Rightarrow> Inl e | Inr x \<Rightarrow> f x)"

definition ensure :: "bool \<Rightarrow> exc_class \<Rightarrow> string \<Rightarrow> unit result" where
  "ensure b c m = (if b then Ok () else raise c m)"

fun foldM :: "('s \<Rightarrow> 'a \<Rightarrow> 's result) \<Rightarrow> 's \<Rightarrow> 'a list \<Rightarrow> 's result" where
  "foldM f s [] = Ok s"
| "foldM f s (x # xs) = rbind (f s x) (\<lambda>s'. foldM f s' xs)"

fun mapM :: "('a \<Rightarrow> 'b result) \<Rightarrow> 'a list \<Rightarrow> 'b list result" where
  "mapM f [] = Ok []"
| "mapM f (x # xs) = rbind (f x) (\<lambda>y. rbind (mapM f xs) (\<lambda>ys. Ok (y # ys)))"

declare rbind_def [code_unfold]

lemma rbind_simps [simp, code]:
  "rbind (Inl e) f = Inl e"
  "rbind (Inr x) f = f x"
  by (simp_all add: rbind_def)

lemma rbind_Ok_iff [result_simps]:
  "rbind m f = Inr y \<longleftrightarrow> (\<exists>x. m = Inr x \<and> f x = Inr y)"
  by (cases m) auto

lemma ensure_Ok_iff [result_simps]: "ensure b c m = Inr u \<longleftrightarrow> b"
  by (simp add: ensure_def)

lemma ensure_True [simp]: "ensure True c m = Inr ()"
  by (simp add: ensure_def)

lemma ensure_False [simp]: "ensure False c m = raise c m"
  by (simp add: ensure_def)

lemma rbind_cong [fundef_cong]:
  "m = m' \<Longrightarrow> (\<And>x. m' = Inr x \<Longrightarrow> f x = g x) \<Longrightarrow> rbind m f = rbind m' g"
  by (cases m') auto

lemma rbind_assoc: "rbind (rbind m f) g = rbind m (\<lambda>x. rbind (f x) g)"
  by (cases m) auto

lemma foldM_append: "foldM f s (xs @ ys) = rbind (foldM f s xs) (\<lambda>s'. foldM f s' ys)"
  by (induction xs arbitrary: s) (auto simp: rbind_assoc)

lemma foldM_Ok_invariant:
  assumes "foldM f s xs = Inr t" and "P s"
    and "\<And>s x s'. x \<in> set xs \<Longrightarrow> P s \<Longrightarrow> f s x = Inr s' \<Longrightarrow> P s'"
  shows "P t"
  using assms by (induction xs arbitrary: s) (auto simp: result_simps)

lemma mapM_Ok_iff:
  "mapM f xs = Inr ys \<longleftrightarrow> list_all2 (\<lambda>x y. f x = Inr y) xs ys"
  by (induction xs arbitrary: ys) (auto simp: result_simps list_all2_Cons1)

lemma mapM_Ok_length: "mapM f xs = Inr ys \<Longrightarrow> length ys = length xs"
  by (simp add: mapM_Ok_iff list_all2_lengthD)

lemma mapM_eq_map: "(\<And>x. x \<in> set xs \<Longrightarrow> f x = Inr (g x)) \<Longrightarrow> mapM f xs = Inr (map g xs)"
  by (induction xs) auto


lemma mapM_returns: "(\<And>x. x \<in> set xs \<Longrightarrow> \<exists>y. f x = Ok y \<and> P y) \<Longrightarrow> \<exists>ys. mapM f xs = Ok ys \<and> (\<forall>y\<in>set ys. P y)"
  by (induction xs) fastforce+

lemma mapM_related:
  assumes "\<And>x. x \<in> set xs \<Longrightarrow> \<exists>y. f x = Ok y \<and> Q x y"
  obtains ys where "mapM f xs = Ok ys" and "list_all2 Q xs ys"
proof -
  have "\<exists>ys. mapM f xs = Ok ys \<and> list_all2 Q xs ys" using assms by (induction xs) fastforce+
  then show ?thesis using that by blast
qed

lemma list_all2_member: "list_all2 P xs ys \<Longrightarrow> y \<in> set ys \<Longrightarrow> \<exists>x\<in>set xs. P x y"
  by (induction rule: list_all2_induct) auto

lemma find_SomeD: "List.find P xs = Some x \<Longrightarrow> P x \<and> x \<in> set xs"
  by (induction xs) (auto split: if_splits)


section \<open>Dictionaries\<close>

text \<open>
  A Python \<open>dict\<close> keeps insertion order: an association list with distinct keys.
  \<^const>\<open>AList.update\<close> replaces the value of a present key where it stands and appends an
  absent key, which is what \<open>d[k] = v\<close> does.
\<close>

type_synonym ('k, 'v) dict = "('k \<times> 'v) list"

definition dget :: "('k, 'v) dict \<Rightarrow> 'k \<Rightarrow> 'v option" where
  "dget d k = map_of d k"

definition dget_or :: "('k, 'v) dict \<Rightarrow> 'k \<Rightarrow> 'v \<Rightarrow> 'v" where
  "dget_or d k v = (case map_of d k of None \<Rightarrow> v | Some w \<Rightarrow> w)"

text \<open>\<open>d[k]\<close> raises \<open>KeyError\<close> on an absent key.\<close>

definition dlookup :: "('k, 'v) dict \<Rightarrow> 'k \<Rightarrow> 'v result" where
  "dlookup d k = (case map_of d k of None \<Rightarrow> raise KeyError [] | Some v \<Rightarrow> Ok v)"

definition dset :: "('k, 'v) dict \<Rightarrow> 'k \<Rightarrow> 'v \<Rightarrow> ('k, 'v) dict" where
  "dset d k v = AList.update k v d"

definition dkeys :: "('k, 'v) dict \<Rightarrow> 'k list" where
  "dkeys d = map fst d"

definition dvalues :: "('k, 'v) dict \<Rightarrow> 'v list" where
  "dvalues d = map snd d"

definition dhas :: "('k, 'v) dict \<Rightarrow> 'k \<Rightarrow> bool" where
  "dhas d k \<longleftrightarrow> k \<in> set (map fst d)"

abbreviation wf_dict :: "('k, 'v) dict \<Rightarrow> bool" where
  "wf_dict d \<equiv> distinct (map fst d)"

lemma dget_dset [dict_simps]: "dget (dset d k v) k' = (if k = k' then Some v else dget d k')"
  by (simp add: dget_def dset_def update_conv')

lemma dget_or_dset [dict_simps]: "dget_or (dset d k v) k' w = (if k = k' then v else dget_or d k' w)"
  by (simp add: dget_or_def dset_def update_conv')

lemma wf_dict_dset [simp]: "wf_dict d \<Longrightarrow> wf_dict (dset d k v)"
  by (simp add: dset_def distinct_update)

lemma dset_present: "k \<in> set (map fst d) \<Longrightarrow> map fst (dset d k v) = map fst d"
  by (induction d) (auto simp: dset_def)

lemma dkeys_dset_present [dict_simps]: "dhas d k \<Longrightarrow> dkeys (dset d k v) = dkeys d"
  by (simp add: dkeys_def dhas_def dset_present)

lemma dhas_dset [dict_simps]: "dhas (dset d k v) k' \<longleftrightarrow> k' = k \<or> dhas d k'"
  by (induction d) (auto simp: dset_def dhas_def)

lemma dlookup_Ok_iff [result_simps]: "dlookup d k = Inr v \<longleftrightarrow> map_of d k = Some v"
  by (auto simp: dlookup_def split: option.splits)

lemma dhas_iff_dget: "dhas d k \<longleftrightarrow> dget d k \<noteq> None"
  by (simp add: dhas_def dget_def map_of_eq_None_iff)


section \<open>Strings\<close>

definition is_space :: "char \<Rightarrow> bool" where
  "is_space c = (let n = (of_char c :: nat) in (9 \<le> n \<and> n \<le> 13) \<or> (28 \<le> n \<and> n \<le> 32))"

definition py_strip :: "string \<Rightarrow> string" where
  "py_strip s = rev (dropWhile is_space (rev (dropWhile is_space s)))"

definition char_upper :: "char \<Rightarrow> char" where
  "char_upper c = (let n = (of_char c :: nat) in
     if 97 \<le> n \<and> n \<le> 122 then char_of (n - 32) else c)"

definition char_lower :: "char \<Rightarrow> char" where
  "char_lower c = (let n = (of_char c :: nat) in
     if 65 \<le> n \<and> n \<le> 90 then char_of (n + 32) else c)"

definition py_upper :: "string \<Rightarrow> string" where
  "py_upper s = map char_upper s"

definition py_lower :: "string \<Rightarrow> string" where
  "py_lower s = map char_lower s"

definition char_alpha :: "char \<Rightarrow> bool" where
  "char_alpha c = (let n = (of_char c :: nat) in (65 \<le> n \<and> n \<le> 90) \<or> (97 \<le> n \<and> n \<le> 122))"

definition py_isalpha :: "string \<Rightarrow> bool" where
  "py_isalpha s \<longleftrightarrow> s \<noteq> [] \<and> list_all char_alpha s"

definition char_digit :: "char \<Rightarrow> bool" where
  "char_digit c = (let n = (of_char c :: nat) in 48 \<le> n \<and> n \<le> 57)"

definition digit_of_char :: "char \<Rightarrow> nat" where
  "digit_of_char c = of_char c - 48"

definition char_of_digit :: "nat \<Rightarrow> char" where
  "char_of_digit d = char_of (d + 48)"

text \<open>\<open>s.split()\<close>: the maximal runs of non-space characters, in order.\<close>

fun split_words :: "string \<Rightarrow> string \<Rightarrow> string list" where
  "split_words acc [] = (if acc = [] then [] else [rev acc])"
| "split_words acc (c # cs) =
     (if is_space c then (if acc = [] then split_words [] cs else rev acc # split_words [] cs)
      else split_words (c # acc) cs)"

definition py_split :: "string \<Rightarrow> string list" where
  "py_split s = split_words [] s"

lemma of_char_of_nat: "n < 256 \<Longrightarrow> (of_char (char_of n) :: nat) = n"
  by (simp add: of_char_of)

lemma char_of_digit_props [simp]:
  assumes "d < 10"
  shows "char_digit (char_of_digit d)" and "digit_of_char (char_of_digit d) = d"
  using assms by (simp_all add: char_digit_def digit_of_char_def char_of_digit_def of_char_of_nat Let_def)

lemma digit_of_char_less [simp]: "char_digit c \<Longrightarrow> digit_of_char c < 10"
  by (auto simp: char_digit_def digit_of_char_def Let_def)

lemma char_digit_not_space [simp]: "char_digit c \<Longrightarrow> \<not> is_space c"
  by (simp add: char_digit_def is_space_def Let_def)

lemma char_upper_idem [simp]: "char_upper (char_upper c) = char_upper c"
  by (auto simp: char_upper_def Let_def of_char_of_nat)

lemma py_upper_idem [simp]: "py_upper (py_upper s) = py_upper s"
  by (simp add: py_upper_def)

lemma length_py_upper [simp]: "length (py_upper s) = length s"
  by (simp add: py_upper_def)

lemma is_space_char_upper [simp]: "is_space (char_upper c) = is_space c"
  by (auto simp: is_space_def char_upper_def Let_def of_char_of_nat)

lemma py_strip_id:
  assumes "s = [] \<or> \<not> is_space (hd s) \<and> \<not> is_space (last s)"
  shows "py_strip s = s"
proof (cases "s = []")
  case True
  then show ?thesis by (simp add: py_strip_def)
next
  case False
  with assms have h: "dropWhile is_space s = s"
    by (cases s) auto
  from False assms have "dropWhile is_space (rev s) = rev s"
    by (metis dropWhile.simps(2) last_rev list.exhaust_sel rev.simps(1) rev_rev_ident)
  with h show ?thesis by (simp add: py_strip_def)
qed

lemma py_strip_last: "py_strip s \<noteq> [] \<Longrightarrow> \<not> is_space (last (py_strip s))"
  by (simp add: py_strip_def last_rev hd_dropWhile)

lemma dropWhile_rev_prefix: "\<exists>zs. rev (dropWhile P (rev xs)) @ zs = xs"
  by (metis rev_append rev_rev_ident takeWhile_dropWhile_id)

lemma py_strip_hd: "py_strip s \<noteq> [] \<Longrightarrow> \<not> is_space (hd (py_strip s))"
proof -
  assume ne: "py_strip s \<noteq> []"
  let ?t = "dropWhile is_space s"
  obtain zs where zs: "py_strip s @ zs = ?t"
    using dropWhile_rev_prefix [of is_space ?t] by (auto simp: py_strip_def)
  with ne have "hd (py_strip s) = hd ?t" and "?t \<noteq> []"
    by (metis hd_append2, metis append_is_Nil_conv)
  then show ?thesis by (simp add: hd_dropWhile)
qed

lemma py_strip_idem [simp]: "py_strip (py_strip s) = py_strip s"
  by (rule py_strip_id) (auto dest: py_strip_hd py_strip_last)

lemma py_strip_upper: "py_strip (py_upper s) = py_upper (py_strip s)"
  by (simp add: py_strip_def py_upper_def rev_map dropWhile_map comp_def)


section \<open>Sums over dictionaries, sorting by key\<close>


lemma dset_absent [dict_simps]: "k \<notin> set (map fst d) \<Longrightarrow> dset d k v = d @ [(k, v)]"
  by (induction d) (auto simp: dset_def)

lemma map_of_dset [dict_simps]: "map_of (dset d k v) = (map_of d)(k \<mapsto> v)"
  by (simp add: dset_def update_conv')

lemma sum_list_dict:
  fixes f :: "'v \<Rightarrow> 'c :: comm_monoid_add"
  assumes "wf_dict d"
  shows "sum_list (map (\<lambda>kv. f (snd kv)) d) = (\<Sum>k \<in> set (map fst d). f (the (map_of d k)))"
proof -
  have "map (\<lambda>kv. f (snd kv)) d = map (\<lambda>k. f (the (map_of d k))) (map fst d)"
    using assms by (auto simp: map_of_is_SomeI)
  then show ?thesis using assms by (simp only: sum.distinct_set_conv_list)
qed

lemma map_of_map_same: "map_of (map (\<lambda>x. (x, f x)) xs) k = (if k \<in> set xs then Some (f k) else None)"
  by (induction xs) auto

lemma insort_key_decorated:
  "insort_key fst (f x, x) (map (\<lambda>e. (f e, e)) xs) = map (\<lambda>e. (f e, e)) (insort_key f x xs)"
  by (induction xs) auto

text \<open>Sorting decorated entries by the decoration is sorting by the key function.\<close>

lemma sort_key_decorated:
  "map snd (sort_key fst (map (\<lambda>e. (f e, e)) xs)) = sort_key f xs"
proof -
  have "sort_key fst (map (\<lambda>e. (f e, e)) xs) = map (\<lambda>e. (f e, e)) (sort_key f xs)"
    by (induction xs) (simp_all add: insort_key_decorated)
  then show ?thesis by (simp add: comp_def)
qed

end
