(* ===== verification/Py_Decimal.thy ===== *)
theory Py_Decimal
  imports Prelude Complex_Main
begin

text \<open>
  Python's \<open>decimal\<close> module as far as the repository uses it, after the General Decimal
  Arithmetic specification that the module implements: a finite number is a sign, a
  coefficient and an exponent; an operation computes the exact result and rounds it once to
  the precision and exponent range of the active context. The context's rounding mode is
  ROUND_HALF_EVEN, the default, which no code of the repository changes; its precision and
  exponent limits are fields of the record. The default traps are enabled, so an overflow, a
  division by zero and an invalid operation are exceptions.

  \<open>dval\<close> is the rational number a decimal denotes. The lemmas relate every operation to
  \<open>dval\<close>: comparisons are exact, sums and products are exact when the result is
  representable, and \<open>quantize\<close> rounds to the nearest multiple of the target unit.
\<close>

section \<open>Numbers, contexts\<close>

datatype dec = Dec (dsign: bool) (dcoeff: nat) (dexp: int)

text \<open>The constructor's values: a finite number, an infinity, a quiet or signaling NaN.\<close>

datatype py_decimal =
    Finite dec
  | Infinite bool
  | QNaN bool
  | SNaN bool

record dcontext =
  prec :: nat
  Emin :: int
  Emax :: int

definition default_context :: dcontext where
  "default_context = \<lparr>prec = 28, Emin = -999999, Emax = 999999\<rparr>"

text \<open>\<open>Context(prec=p)\<close> takes every other field from the default context.\<close>

definition context_of_prec :: "nat \<Rightarrow> dcontext" where
  "context_of_prec p = default_context\<lparr>prec := p\<rparr>"

definition Etiny :: "dcontext \<Rightarrow> int" where
  "Etiny ctx = Emin ctx - int (prec ctx) + 1"

definition Etop :: "dcontext \<Rightarrow> int" where
  "Etop ctx = Emax ctx - int (prec ctx) + 1"

text \<open>What the monetary code needs of a context: cents and coefficients of full precision exist.\<close>

definition wf_context :: "dcontext \<Rightarrow> bool" where
  "wf_context ctx \<longleftrightarrow> 1 \<le> prec ctx \<and> Etiny ctx \<le> - 2 \<and> int (prec ctx) \<le> Emax ctx"

fun ndigits :: "nat \<Rightarrow> nat" where
  "ndigits n = (if n < 10 then 1 else Suc (ndigits (n div 10)))"

declare ndigits.simps [simp del]

text \<open>The decimal digits of a coefficient, most significant first.\<close>

fun digits :: "nat \<Rightarrow> nat list" where
  "digits n = (if n < 10 then [n] else digits (n div 10) @ [n mod 10])"

declare digits.simps [simp del]

definition adjusted :: "dec \<Rightarrow> int" where
  "adjusted d = dexp d + int (ndigits (dcoeff d)) - 1"

definition dval :: "dec \<Rightarrow> rat" where
  "dval d = (if dsign d then - 1 else 1) * of_nat (dcoeff d) * 10 powi dexp d"

definition is_zero_dec :: "dec \<Rightarrow> bool" where
  "is_zero_dec d \<longleftrightarrow> dcoeff d = 0"


section \<open>Rounding to a context\<close>

datatype rounding = ROUND_HALF_UP | ROUND_HALF_EVEN

text \<open>Drop the last \<open>k\<close> digits of a coefficient.\<close>

definition round_shift :: "rounding \<Rightarrow> nat \<Rightarrow> nat \<Rightarrow> nat" where
  "round_shift r k c =
     (let m = 10 ^ k; q = c div m; t = 2 * (c mod m)
      in if (case r of ROUND_HALF_UP \<Rightarrow> m \<le> t
                     | ROUND_HALF_EVEN \<Rightarrow> m < t \<or> t = m \<and> odd q)
         then q + 1 else q)"

definition dec_fix :: "dcontext \<Rightarrow> dec \<Rightarrow> dec result" where
  "dec_fix ctx d =
     (let s = dsign d; c = dcoeff d; e = dexp d;
          top = int (ndigits c) + e - int (prec ctx)
      in if c = 0 then Ok (Dec s 0 (min (max e (Etiny ctx)) (Emax ctx)))
         else if Etop ctx < top then raise Overflow ''above Emax''
         else let emin = max top (Etiny ctx) in
           if e < emin then
             let c' = round_shift ROUND_HALF_EVEN (nat (emin - e)) c;
                 carry = prec ctx < ndigits c';
                 c'' = (if carry then c' div 10 else c');
                 e'' = (if carry then emin + 1 else emin)
             in if Etop ctx < e'' then raise Overflow ''above Emax'' else Ok (Dec s c'' e'')
           else Ok d)"


section \<open>Comparison and arithmetic\<close>

definition scoeff :: "dec \<Rightarrow> int" where
  "scoeff d = (if dsign d then - int (dcoeff d) else int (dcoeff d))"

text \<open>The signed coefficient of a number written with the exponent \<open>e\<close>, at most its own.\<close>

definition at_exp :: "int \<Rightarrow> dec \<Rightarrow> int" where
  "at_exp e d = scoeff d * 10 ^ nat (dexp d - e)"

definition dec_le :: "dec \<Rightarrow> dec \<Rightarrow> bool" where
  "dec_le a b = (let e = min (dexp a) (dexp b) in at_exp e a \<le> at_exp e b)"

definition dec_lt :: "dec \<Rightarrow> dec \<Rightarrow> bool" where
  "dec_lt a b = (let e = min (dexp a) (dexp b) in at_exp e a < at_exp e b)"

definition dec_eq :: "dec \<Rightarrow> dec \<Rightarrow> bool" where
  "dec_eq a b = (let e = min (dexp a) (dexp b) in at_exp e a = at_exp e b)"

definition dec_add_exact :: "dec \<Rightarrow> dec \<Rightarrow> dec" where
  "dec_add_exact a b =
     (let e = min (dexp a) (dexp b); v = at_exp e a + at_exp e b
      in Dec (if v = 0 then dsign a \<and> dsign b else v < 0) (nat \<bar>v\<bar>) e)"

definition dec_add :: "dcontext \<Rightarrow> dec \<Rightarrow> dec \<Rightarrow> dec result" where
  "dec_add ctx a b = dec_fix ctx (dec_add_exact a b)"

definition copy_negate :: "dec \<Rightarrow> dec" where
  "copy_negate d = Dec (\<not> dsign d) (dcoeff d) (dexp d)"

definition copy_abs :: "dec \<Rightarrow> dec" where
  "copy_abs d = Dec False (dcoeff d) (dexp d)"

definition dec_sub :: "dcontext \<Rightarrow> dec \<Rightarrow> dec \<Rightarrow> dec result" where
  "dec_sub ctx a b = dec_add ctx a (copy_negate b)"

text \<open>\<open>-x\<close> and \<open>abs(x)\<close> round to the context too, and give a positive zero.\<close>

definition dec_neg :: "dcontext \<Rightarrow> dec \<Rightarrow> dec result" where
  "dec_neg ctx d = dec_fix ctx (if dcoeff d = 0 then copy_abs d else copy_negate d)"

definition dec_abs :: "dcontext \<Rightarrow> dec \<Rightarrow> dec result" where
  "dec_abs ctx d = dec_fix ctx (copy_abs d)"

definition dec_mul_exact :: "dec \<Rightarrow> dec \<Rightarrow> dec" where
  "dec_mul_exact a b = Dec (dsign a \<noteq> dsign b) (dcoeff a * dcoeff b) (dexp a + dexp b)"

definition dec_mul :: "dcontext \<Rightarrow> dec \<Rightarrow> dec \<Rightarrow> dec result" where
  "dec_mul ctx a b = dec_fix ctx (dec_mul_exact a b)"

text \<open>
  Division keeps one digit more than the precision, made odd-ended when the remainder is not
  zero so that the rounding that follows is right; an exact quotient is brought as close to
  the ideal exponent as its trailing zeros allow.
\<close>

function strip_to :: "int \<Rightarrow> nat \<Rightarrow> int \<Rightarrow> nat \<times> int" where
  "strip_to ideal c e =
     (if e < ideal \<and> c mod 10 = 0 then strip_to ideal (c div 10) (e + 1) else (c, e))"
  by pat_completeness auto
termination
  by (relation "measure (\<lambda>(ideal, c, e). nat (ideal - e))") auto

declare strip_to.simps [simp del]

definition dec_div :: "dcontext \<Rightarrow> dec \<Rightarrow> dec \<Rightarrow> dec result" where
  "dec_div ctx a b =
     (let s = (dsign a \<noteq> dsign b); ideal = dexp a - dexp b
      in if dcoeff b = 0 then
           (if dcoeff a = 0 then raise InvalidOperation ''0 / 0'' else raise DivisionByZero ''x / 0'')
         else if dcoeff a = 0 then dec_fix ctx (Dec s 0 ideal)
         else
           let shift = int (ndigits (dcoeff b)) - int (ndigits (dcoeff a)) + int (prec ctx) + 1;
               n = dcoeff a * 10 ^ nat shift;
               m = dcoeff b * 10 ^ nat (- shift);
               q = n div m;
               (c, e) = (if n mod m \<noteq> 0 then (if q mod 5 = 0 then q + 1 else q, ideal - shift)
                         else strip_to ideal q (ideal - shift))
           in dec_fix ctx (Dec s c e))"

text \<open>\<open>sum(values, start)\<close>.\<close>

definition dec_sum :: "dcontext \<Rightarrow> dec \<Rightarrow> dec list \<Rightarrow> dec result" where
  "dec_sum ctx start xs = foldM (dec_add ctx) start xs"

text \<open>\<open>x ** n\<close> for the powers of ten the repository raises.\<close>

fun dec_pow :: "dcontext \<Rightarrow> dec \<Rightarrow> nat \<Rightarrow> dec result" where
  "dec_pow ctx d 0 = Ok (Dec False 1 0)"
| "dec_pow ctx d (Suc n) = rbind (dec_pow ctx d n) (\<lambda>p. dec_mul ctx p d)"


section \<open>Quantize, integral values\<close>

definition dec_rescale :: "rounding \<Rightarrow> int \<Rightarrow> dec \<Rightarrow> dec" where
  "dec_rescale r e d =
     (if dcoeff d = 0 then Dec (dsign d) 0 e
      else if e \<le> dexp d then Dec (dsign d) (dcoeff d * 10 ^ nat (dexp d - e)) e
      else Dec (dsign d) (round_shift r (nat (e - dexp d)) (dcoeff d)) e)"

definition dec_quantize :: "dcontext \<Rightarrow> rounding \<Rightarrow> dec \<Rightarrow> dec \<Rightarrow> dec result" where
  "dec_quantize ctx r d q =
     (let e = dexp q in
      if \<not> (Etiny ctx \<le> e \<and> e \<le> Emax ctx) then
        raise InvalidOperation ''target exponent out of bounds in quantize''
      else if dcoeff d = 0 then dec_fix ctx (Dec (dsign d) 0 e)
      else if Emax ctx < adjusted d then
        raise InvalidOperation ''exponent of quantize result too large for current context''
      else if int (prec ctx) < adjusted d - e + 1 then
        raise InvalidOperation ''quantize result has too many digits for current context''
      else
        let y = dec_rescale r e d in
        if Emax ctx < adjusted y then
          raise InvalidOperation ''exponent of quantize result too large for current context''
        else if prec ctx < ndigits (dcoeff y) then
          raise InvalidOperation ''quantize result has too many digits for current context''
        else dec_fix ctx y)"

definition to_integral_value :: "rounding \<Rightarrow> dec \<Rightarrow> dec" where
  "to_integral_value r d = (if 0 \<le> dexp d then d else dec_rescale r 0 d)"

text \<open>\<open>int(d)\<close> truncates towards zero.\<close>

definition dec_to_int :: "dec \<Rightarrow> int" where
  "dec_to_int d =
     (let a = (if 0 \<le> dexp d then dcoeff d * 10 ^ nat (dexp d)
               else dcoeff d div 10 ^ nat (- dexp d))
      in if dsign d then - int a else int a)"

definition dec_of_int :: "int \<Rightarrow> dec" where
  "dec_of_int n = Dec (n < 0) (nat \<bar>n\<bar>) 0"

section \<open>Text\<close>

definition string_of_digits :: "nat list \<Rightarrow> string" where
  "string_of_digits ds = map char_of_digit ds"

definition nat_of_string :: "string \<Rightarrow> nat" where
  "nat_of_string s = foldl (\<lambda>n c. 10 * n + digit_of_char c) 0 s"

definition int_to_string :: "int \<Rightarrow> string" where
  "int_to_string n = (if n < 0 then ''-'' else []) @ string_of_digits (digits (nat \<bar>n\<bar>))"

text \<open>\<open>str(d)\<close>: plain notation, or scientific notation for large and very small exponents.\<close>

definition dec_str :: "dec \<Rightarrow> string" where
  "dec_str d =
     (let ds = string_of_digits (digits (dcoeff d));
          len = int (length ds);
          leftdigits = dexp d + len;
          dotplace = (if dexp d \<le> 0 \<and> -6 < leftdigits then leftdigits else 1);
          body = (if dotplace \<le> 0 then ''0.'' @ replicate (nat (- dotplace)) (CHR ''0'') @ ds
                  else if len \<le> dotplace then ds @ replicate (nat (dotplace - len)) (CHR ''0'')
                  else take (nat dotplace) ds @ ''.'' @ drop (nat dotplace) ds);
          x = leftdigits - dotplace;
          expo = (if x = 0 then [] else ''E'' @ (if 0 \<le> x then ''+'' else []) @ int_to_string x)
      in (if dsign d then ''-'' else []) @ body @ expo)"

definition split_sign :: "string \<Rightarrow> bool \<times> string" where
  "split_sign s =
     (case s of [] \<Rightarrow> (False, [])
      | c # r \<Rightarrow> if c = CHR ''-'' then (True, r) else if c = CHR ''+'' then (False, r) else (False, s))"

text \<open>An optional exponent part that ends the string; no exponent part is 0.\<close>

definition parse_exponent :: "string \<Rightarrow> int option" where
  "parse_exponent s =
     (case s of [] \<Rightarrow> Some 0
      | c # r \<Rightarrow>
          if c = CHR ''e'' \<or> c = CHR ''E'' then
            (let (neg, ds) = split_sign r in
             if ds \<noteq> [] \<and> list_all char_digit ds
             then Some (if neg then - int (nat_of_string ds) else int (nat_of_string ds)) else None)
          else None)"

text \<open>The exponent range in which the constructor converts exactly.\<close>

definition exact_range :: "dec \<Rightarrow> bool" where
  "exact_range d \<longleftrightarrow>
     (if dcoeff d = 0 then dexp d else adjusted d) \<le> 999999999999999999 \<and>
     - 1999999999999999997 \<le> dexp d"

definition parse_number :: "bool \<Rightarrow> string \<Rightarrow> dec option" where
  "parse_number neg s =
     (let ip = takeWhile char_digit s; r = dropWhile char_digit s;
          (fp, r') = (case r of [] \<Rightarrow> ([], [])
                      | c # cs \<Rightarrow> if c = CHR ''.'' then (takeWhile char_digit cs, dropWhile char_digit cs)
                                  else ([], r))
      in if ip = [] \<and> fp = [] then None
         else case parse_exponent r' of None \<Rightarrow> None
              | Some x \<Rightarrow>
                  let d = Dec neg (nat_of_string (ip @ fp)) (x - int (length fp))
                  in if exact_range d then Some d else None)"

definition parse_special :: "bool \<Rightarrow> string \<Rightarrow> py_decimal option" where
  "parse_special neg s =
     (let t = py_lower s in
      if t = ''inf'' \<or> t = ''infinity'' then Some (Infinite neg)
      else if take 3 t = ''nan'' \<and> list_all char_digit (drop 3 t) then Some (QNaN neg)
      else if take 4 t = ''snan'' \<and> list_all char_digit (drop 4 t) then Some (SNaN neg)
      else None)"

text \<open>\<open>Decimal(s)\<close>; \<open>None\<close> is the InvalidOperation it raises. Underscores are ignored.\<close>

definition decimal_of_string :: "string \<Rightarrow> py_decimal option" where
  "decimal_of_string s =
     (let (neg, t) = split_sign (filter (\<lambda>c. c \<noteq> CHR ''_'') (py_strip s))
      in case parse_number neg t of Some d \<Rightarrow> Some (Finite d) | None \<Rightarrow> parse_special neg t)"

section \<open>Digit counts\<close>

lemma ndigits_small [simp]: "n < 10 \<Longrightarrow> ndigits n = 1"
  by (simp add: ndigits.simps)

lemma ndigits_big: "10 \<le> n \<Longrightarrow> ndigits n = Suc (ndigits (n div 10))"
  by (subst ndigits.simps) simp

lemma ndigits_pos [simp]: "0 < ndigits n"
  by (subst ndigits.simps) simp

lemma ndigits_less: "n < 10 ^ ndigits n"
proof (induction n rule: ndigits.induct)
  case (1 n)
  show ?case
  proof (cases "n < 10")
    case False
    with 1 have "n div 10 < 10 ^ ndigits (n div 10)" by simp
    then have "n < 10 * 10 ^ ndigits (n div 10)" by linarith
    with False show ?thesis by (simp add: ndigits_big)
  qed simp
qed

lemma ndigits_ge: "0 < n \<Longrightarrow> 10 ^ (ndigits n - 1) \<le> n"
proof (induction n rule: ndigits.induct)
  case (1 n)
  show ?case
  proof (cases "n < 10")
    case True
    with 1 show ?thesis by simp
  next
    case False
    with 1 have "10 ^ (ndigits (n div 10) - 1) \<le> n div 10" by simp
    then have "10 * 10 ^ (ndigits (n div 10) - 1) \<le> n" by linarith
    with False show ?thesis by (simp add: ndigits_big flip: power_Suc)
  qed
qed

lemma ndigits_le_iff: "0 < k \<Longrightarrow> ndigits n \<le> k \<longleftrightarrow> n < 10 ^ k"
proof
  assume "ndigits n \<le> k"
  then have "(10::nat) ^ ndigits n \<le> 10 ^ k" by (simp add: power_increasing)
  with ndigits_less [of n] show "n < 10 ^ k" by linarith
next
  assume k: "0 < k" and n: "n < 10 ^ k"
  show "ndigits n \<le> k"
  proof (cases "n = 0")
    case False
    then have "10 ^ (ndigits n - 1) < (10::nat) ^ k"
      using ndigits_ge [of n] n by linarith
    then have "ndigits n - 1 < k" by (simp add: power_strict_increasing_iff)
    then show ?thesis by linarith
  qed (use k in simp)
qed

lemma ndigits_eqI: "10 ^ k \<le> n \<Longrightarrow> n < 10 ^ Suc k \<Longrightarrow> ndigits n = Suc k"
proof -
  assume lo: "10 ^ k \<le> n" and hi: "n < 10 ^ Suc k"
  have "ndigits n \<le> Suc k" using hi by (simp add: ndigits_le_iff)
  moreover have "\<not> ndigits n \<le> k"
  proof (cases "k = 0")
    case False
    with lo show ?thesis by (simp add: ndigits_le_iff)
  qed simp
  ultimately show ?thesis by linarith
qed

lemma ndigits_mult_power: "0 < n \<Longrightarrow> ndigits (n * 10 ^ k) = ndigits n + k"
proof -
  assume n: "0 < n"
  obtain j where j: "ndigits n = Suc j" using ndigits_pos [of n] by (cases "ndigits n") auto
  have "10 ^ j \<le> n" and "n < 10 ^ Suc j"
    using ndigits_ge [OF n] ndigits_less [of n] j by simp_all
  then have "10 ^ (j + k) \<le> n * 10 ^ k" and "n * 10 ^ k < 10 ^ Suc (j + k)"
    by (simp_all add: power_add)
  then show ?thesis using j by (simp add: ndigits_eqI)
qed

lemma length_digits [simp]: "length (digits n) = ndigits n"
proof (induction n rule: digits.induct)
  case (1 n)
  then show ?case by (cases "n < 10") (simp_all add: digits.simps [of n] ndigits_big)
qed

lemma digits_less: "d \<in> set (digits n) \<Longrightarrow> d < 10"
proof (induction n rule: digits.induct)
  case (1 n)
  then show ?case by (cases "n < 10") (auto simp: digits.simps [of n])
qed


section \<open>Values\<close>

lemma ten_powi_pos [simp]: "0 < (10::rat) powi e"
  by (simp add: zero_less_power_int)

lemma ten_powi_add: "(10::rat) powi (a + b) = 10 powi a * 10 powi b"
  by (simp add: power_int_add)

lemma ten_powi_split: "e \<le> f \<Longrightarrow> (10::rat) powi f = 10 ^ nat (f - e) * 10 powi e"
proof -
  assume "e \<le> f"
  then have "(10::rat) powi f = 10 powi (int (nat (f - e)) + e)" by simp
  then show ?thesis by (simp only: ten_powi_add power_int_of_nat)
qed

lemma dval_scoeff: "dval d = of_int (scoeff d) * 10 powi dexp d"
  by (simp add: dval_def scoeff_def)

lemma dval_at_exp: "e \<le> dexp d \<Longrightarrow> dval d = of_int (at_exp e d) * 10 powi e"
  by (simp add: dval_scoeff at_exp_def ten_powi_split [of e "dexp d"])

lemma dec_le_iff: "dec_le a b \<longleftrightarrow> dval a \<le> dval b"
  and dec_lt_iff: "dec_lt a b \<longleftrightarrow> dval a < dval b"
  and dec_eq_iff: "dec_eq a b \<longleftrightarrow> dval a = dval b"
proof -
  let ?e = "min (dexp a) (dexp b)"
  have v: "dval a = of_int (at_exp ?e a) * 10 powi ?e" "dval b = of_int (at_exp ?e b) * 10 powi ?e"
    by (simp_all add: dval_at_exp)
  show "dec_le a b \<longleftrightarrow> dval a \<le> dval b" unfolding v by (simp add: dec_le_def Let_def)
  show "dec_lt a b \<longleftrightarrow> dval a < dval b" unfolding v by (simp add: dec_lt_def Let_def)
  show "dec_eq a b \<longleftrightarrow> dval a = dval b" unfolding v by (simp add: dec_eq_def Let_def)
qed

lemma dval_Dec: "dval (Dec s c e) = (if s then - 1 else 1) * of_nat c * 10 powi e"
  by (simp add: dval_def)

lemma dval_eq_0_iff [simp]: "dval d = 0 \<longleftrightarrow> dcoeff d = 0"
  by (simp add: dval_def)

lemma dval_copy [simp]:
  "dval (copy_negate d) = - dval d"
  "dval (copy_abs d) = \<bar>dval d\<bar>"
  by (simp_all add: dval_def copy_negate_def copy_abs_def abs_mult)

lemma dval_add_exact [simp]: "dval (dec_add_exact a b) = dval a + dval b"
proof -
  let ?e = "min (dexp a) (dexp b)"
  let ?v = "at_exp ?e a + at_exp ?e b"
  have "dval (dec_add_exact a b) = of_int ?v * 10 powi ?e"
    by (auto simp: dec_add_exact_def Let_def dval_Dec)
  also have "\<dots> = of_int (at_exp ?e a) * 10 powi ?e + of_int (at_exp ?e b) * 10 powi ?e"
    by (simp add: algebra_simps)
  also have "\<dots> = dval a + dval b" by (simp flip: dval_at_exp)
  finally show ?thesis .
qed

lemma dval_mul_exact [simp]: "dval (dec_mul_exact a b) = dval a * dval b"
  by (simp add: dec_mul_exact_def dval_def ten_powi_add)

lemma dval_of_int [simp]: "dval (dec_of_int n) = of_int n"
  by (simp add: dec_of_int_def dval_def)

lemma abs_dval: "\<bar>dval d\<bar> = of_nat (dcoeff d) * 10 powi dexp d"
  by (simp add: dval_def abs_mult)

lemma abs_dval_bounds:
  assumes "dcoeff d \<noteq> 0"
  shows "10 powi adjusted d \<le> \<bar>dval d\<bar>" and "\<bar>dval d\<bar> < 10 powi (adjusted d + 1)"
proof -
  let ?n = "ndigits (dcoeff d)"
  have "10 ^ (?n - 1) \<le> dcoeff d" "dcoeff d < 10 ^ ?n"
    using ndigits_ge [of "dcoeff d"] ndigits_less [of "dcoeff d"] assms by simp_all
  then have lo: "(10::rat) ^ (?n - 1) \<le> of_nat (dcoeff d)" and hi: "of_nat (dcoeff d) < (10::rat) ^ ?n"
    by (metis of_nat_le_iff of_nat_numeral of_nat_power, metis of_nat_less_iff of_nat_numeral of_nat_power)
  have "(10::rat) powi adjusted d = 10 ^ (?n - 1) * 10 powi dexp d"
    using ten_powi_split [of "dexp d" "adjusted d"] ndigits_pos [of "dcoeff d"]
    by (simp add: adjusted_def nat_diff_distrib)
  with lo show "10 powi adjusted d \<le> \<bar>dval d\<bar>" by (simp add: abs_dval)
  have "(10::rat) powi (adjusted d + 1) = 10 ^ ?n * 10 powi dexp d"
    using ten_powi_split [of "dexp d" "adjusted d + 1"] by (simp add: adjusted_def)
  with hi show "\<bar>dval d\<bar> < 10 powi (adjusted d + 1)" by (simp add: abs_dval)
qed

section \<open>Rounding\<close>

lemma round_shift_exact: "10 ^ k dvd c \<Longrightarrow> round_shift r k c = c div 10 ^ k"
  by (cases r) (simp_all add: round_shift_def Let_def)

lemma round_shift_0 [simp]: "round_shift r 0 c = c"
  by (simp add: round_shift_exact)

lemma shift_fraction:
  fixes c k :: nat
  defines "f \<equiv> (of_nat (c mod 10 ^ k) / of_nat (10 ^ k) :: rat)"
  shows "of_nat c / 10 ^ k = of_nat (c div 10 ^ k) + f" and "0 \<le> f" and "f < 1"
    and "10 ^ k \<le> 2 * (c mod 10 ^ k) \<longleftrightarrow> 1 / 2 \<le> f"
    and "2 * (c mod 10 ^ k) \<le> 10 ^ k \<longleftrightarrow> f \<le> 1 / 2"
proof -
  let ?m = "10 ^ k :: nat"
  have m: "(0::rat) < of_nat ?m" by simp
  have "(of_nat c :: rat) = of_nat (c div ?m) * of_nat ?m + of_nat (c mod ?m)"
    by (metis div_mult_mod_eq of_nat_add of_nat_mult)
  then have "of_nat c / (of_nat ?m :: rat) = of_nat (c div ?m) + f"
    using m by (simp add: f_def field_simps)
  then show "of_nat c / 10 ^ k = of_nat (c div 10 ^ k) + f" by simp
  show "0 \<le> f" by (simp add: f_def)
  have "(of_nat (c mod ?m) :: rat) < of_nat ?m" by (simp only: of_nat_less_iff) simp
  then show "f < 1" using m by (simp add: f_def)
  have "10 ^ k \<le> 2 * (c mod 10 ^ k) \<longleftrightarrow> (of_nat ?m :: rat) \<le> of_nat (2 * (c mod ?m))"
    by (simp only: of_nat_le_iff)
  then show "10 ^ k \<le> 2 * (c mod 10 ^ k) \<longleftrightarrow> 1 / 2 \<le> f"
    using m by (simp add: f_def field_simps)
  have "2 * (c mod 10 ^ k) \<le> 10 ^ k \<longleftrightarrow> of_nat (2 * (c mod ?m)) \<le> (of_nat ?m :: rat)"
    by (simp only: of_nat_le_iff)
  then show "2 * (c mod 10 ^ k) \<le> 10 ^ k \<longleftrightarrow> f \<le> 1 / 2"
    using m by (simp add: f_def field_simps)
qed

lemma round_shift_error:
  "\<bar>of_nat (round_shift r k c) - (of_nat c / 10 ^ k :: rat)\<bar> \<le> 1 / 2"
proof -
  define f :: rat where "f = of_nat (c mod 10 ^ k) / of_nat (10 ^ k)"
  note f = shift_fraction [where c = c and k = k, folded f_def]
  have "round_shift r k c = c div 10 ^ k + 1 \<and> 10 ^ k \<le> 2 * (c mod 10 ^ k)
      \<or> round_shift r k c = c div 10 ^ k \<and> 2 * (c mod 10 ^ k) \<le> 10 ^ k"
    by (cases r) (auto simp: round_shift_def Let_def)
  then have "round_shift r k c = c div 10 ^ k + 1 \<and> 1 / 2 \<le> f
      \<or> round_shift r k c = c div 10 ^ k \<and> f \<le> 1 / 2"
    by (simp only: f(4,5))
  then show ?thesis unfolding f(1) using f(2,3) by auto
qed

lemma round_shift_half_up:
  "int (round_shift ROUND_HALF_UP k c) = \<lfloor>of_nat c / 10 ^ k + (1 / 2 :: rat)\<rfloor>"
proof (rule floor_unique [symmetric])
  have r: "round_shift ROUND_HALF_UP k c =
      (if 10 ^ k \<le> 2 * (c mod 10 ^ k) then c div 10 ^ k + 1 else c div 10 ^ k)"
    by (simp add: round_shift_def Let_def)
  define f :: rat where "f = of_nat (c mod 10 ^ k) / of_nat (10 ^ k)"
  note f = shift_fraction [where c = c and k = k, folded f_def]
  show "of_int (int (round_shift ROUND_HALF_UP k c)) \<le> of_nat c / 10 ^ k + (1 / 2 :: rat)"
    and "of_nat c / 10 ^ k + (1 / 2 :: rat) < of_int (int (round_shift ROUND_HALF_UP k c)) + 1"
    unfolding r f(1) f(4) using f(2,3) by auto
qed

lemma round_shift_le: "c < 10 ^ (k + p) \<Longrightarrow> round_shift r k c \<le> 10 ^ p"
proof -
  assume "c < 10 ^ (k + p)"
  then have "c div 10 ^ k < 10 ^ p" by (simp add: power_add less_mult_imp_div_less mult.commute)
  then show ?thesis by (cases r) (auto simp: round_shift_def Let_def)
qed

section \<open>Representable values\<close>

text \<open>The values a context can hold without rounding.\<close>

definition representable :: "dcontext \<Rightarrow> rat \<Rightarrow> bool" where
  "representable ctx x \<longleftrightarrow>
     (\<exists>n e. x = of_int n * 10 powi e \<and> \<bar>n\<bar> < 10 ^ prec ctx \<and> Etiny ctx \<le> e \<and>
            \<bar>x\<bar> < 10 powi (Emax ctx + 1))"

lemma representable_minusI: "representable ctx x \<Longrightarrow> representable ctx (- x)"
  unfolding representable_def
proof (elim exE conjE)
  fix n e
  assume "x = of_int n * 10 powi e" "\<bar>n\<bar> < 10 ^ prec ctx" "Etiny ctx \<le> e" "\<bar>x\<bar> < 10 powi (Emax ctx + 1)"
  then show "\<exists>n e. - x = of_int n * 10 powi e \<and> \<bar>n\<bar> < 10 ^ prec ctx \<and> Etiny ctx \<le> e \<and>
      \<bar>- x\<bar> < 10 powi (Emax ctx + 1)"
    by (intro exI [of _ "- n"] exI [of _ e]) simp
qed

lemma representable_minus [simp]: "representable ctx (- x) \<longleftrightarrow> representable ctx x"
  using representable_minusI [of ctx x] representable_minusI [of ctx "- x"] by auto

lemma representable_abs [simp]: "representable ctx \<bar>x\<bar> \<longleftrightarrow> representable ctx x"
  by (cases "0 \<le> x") simp_all

lemma ten_powi_less_iff: "(10::rat) powi a < 10 powi b \<longleftrightarrow> a < b"
  using power_int_strict_increasing [of a b "10::rat"] power_int_increasing [of b a "10::rat"]
  by (cases "a < b") (simp_all add: not_less)

lemma ten_powi_le_iff: "(10::rat) powi a \<le> 10 powi b \<longleftrightarrow> a \<le> b"
  using ten_powi_less_iff [of b a] by (simp add: linorder_not_less [symmetric] del: linorder_not_less)

lemma dec_fix_zero: "dcoeff d = 0 \<Longrightarrow> dec_fix ctx d = Ok (Dec (dsign d) 0 (min (max (dexp d) (Etiny ctx)) (Emax ctx)))"
  by (simp add: dec_fix_def Let_def)

text \<open>
  The trailing digits that rounding to a context drops are zeros when the value is
  representable.
\<close>

lemma representable_dvd:
  assumes rep: "representable ctx (dval d)" and nz: "dcoeff d \<noteq> 0"
    and k: "dexp d < emin"
    and emin: "emin = max (int (ndigits (dcoeff d)) + dexp d - int (prec ctx)) (Etiny ctx)"
  shows "10 ^ nat (emin - dexp d) dvd dcoeff d"
proof -
  obtain n e where v: "dval d = of_int n * 10 powi e" and n: "\<bar>n\<bar> < 10 ^ prec ctx" and e: "Etiny ctx \<le> e"
    using rep by (auto simp: representable_def)
  have eq: "of_nat (dcoeff d) * 10 powi dexp d = of_int \<bar>n\<bar> * (10::rat) powi e"
    using v abs_dval [of d] by (simp add: abs_mult)
  have "10 powi adjusted d \<le> of_int \<bar>n\<bar> * (10::rat) powi e"
    using abs_dval_bounds(1) [OF nz] abs_dval [of d] eq by simp
  also have "\<dots> < 10 powi int (prec ctx) * 10 powi e"
    using n by (simp del: of_int_abs)
  also have "\<dots> = 10 powi (int (prec ctx) + e)" by (simp only: ten_powi_add)
  finally have "adjusted d < int (prec ctx) + e" by (simp add: ten_powi_less_iff)
  then have ge: "emin \<le> e" using e unfolding emin adjusted_def by linarith
  have "of_nat (dcoeff d) = of_int \<bar>n\<bar> * (10::rat) ^ nat (e - dexp d)"
    using eq ten_powi_split [of "dexp d" e] k ge by simp
  then have "(of_int (int (dcoeff d)) :: rat) = of_int (\<bar>n\<bar> * 10 ^ nat (e - dexp d))" by simp
  then have "int (dcoeff d) = \<bar>n\<bar> * 10 ^ nat (e - dexp d)" by (simp only: of_int_eq_iff)
  moreover have "nat (e - dexp d) = nat (emin - dexp d) + nat (e - emin)"
    using k ge by linarith
  ultimately have "(10::int) ^ nat (emin - dexp d) dvd int (dcoeff d)"
    by (simp add: power_add)
  then show ?thesis by (metis int_dvd_int_iff of_nat_numeral of_nat_power)
qed

lemma representable_adjusted:
  assumes "representable ctx (dval d)" and "dcoeff d \<noteq> 0"
  shows "adjusted d \<le> Emax ctx"
proof -
  have "10 powi adjusted d < (10::rat) powi (Emax ctx + 1)"
    using abs_dval_bounds(1) [OF assms(2)] assms(1) by (auto simp: representable_def)
  then show ?thesis by (simp add: ten_powi_less_iff)
qed

lemma dec_fix_representable:
  assumes rep: "representable ctx (dval d)" and wf: "wf_context ctx"
  shows "\<exists>d'. dec_fix ctx d = Ok d' \<and> dval d' = dval d \<and> dsign d' = dsign d"
proof (cases "dcoeff d = 0")
  case True
  then show ?thesis by (simp add: dec_fix_zero dval_def)
next
  case False
  let ?top = "int (ndigits (dcoeff d)) + dexp d - int (prec ctx)"
  let ?emin = "max ?top (Etiny ctx)"
  have top: "?top \<le> Etop ctx"
    using representable_adjusted [OF rep False] by (simp add: adjusted_def Etop_def)
  show ?thesis
  proof (cases "dexp d < ?emin")
    case False
    with top \<open>dcoeff d \<noteq> 0\<close> show ?thesis by (simp add: dec_fix_def Let_def)
  next
    case True
    let ?k = "nat (?emin - dexp d)"
    let ?c = "dcoeff d div 10 ^ ?k"
    have dvd: "10 ^ ?k dvd dcoeff d"
      using representable_dvd [OF rep False True] by simp
    then have c: "dcoeff d = ?c * 10 ^ ?k" by simp
    then have cpos: "0 < ?c" using False by (metis gr0I mult_0)
    have nd: "ndigits (dcoeff d) = ndigits ?c + ?k"
      using ndigits_mult_power [OF cpos, of ?k] c by simp
    have fit: "ndigits ?c \<le> prec ctx" using nd True by linarith
    have le: "?emin \<le> Etop ctx"
      using top wf ndigits_pos [of ?c] by (auto simp: wf_context_def Etop_def)
    have fix_eq: "dec_fix ctx d = Ok (Dec (dsign d) ?c ?emin)"
      using False True top fit le dvd
      by (simp add: dec_fix_def Let_def round_shift_exact not_less)
    have "dval (Dec (dsign d) ?c ?emin) = dval d"
      using True ten_powi_split [of "dexp d" ?emin] arg_cong [OF c, of "of_nat :: nat \<Rightarrow> rat"]
      by (simp add: dval_def)
    with fix_eq show ?thesis by simp
  qed
qed

lemma representableI:
  assumes "\<bar>n\<bar> < 10 ^ prec ctx" and "Etiny ctx \<le> e" and "e \<le> Etop ctx"
  shows "representable ctx (of_int n * 10 powi e)"
proof -
  have "of_int \<bar>n\<bar> < (10::rat) powi int (prec ctx)"
    using assms(1) by (simp del: of_int_abs)
  then have "\<bar>of_int n * (10::rat) powi e\<bar> < 10 powi int (prec ctx) * 10 powi e"
    by (simp add: abs_mult)
  also have "\<dots> = 10 powi (int (prec ctx) + e)" by (simp only: ten_powi_add)
  also have "\<dots> \<le> 10 powi (Emax ctx + 1)" using assms(3) by (simp add: ten_powi_le_iff Etop_def)
  finally show ?thesis using assms unfolding representable_def by blast
qed

lemma representable_0 [simp]: "wf_context ctx \<Longrightarrow> representable ctx 0"
  using representableI [of 0 ctx "- 2"] by (simp add: wf_context_def Etop_def)

lemma coeff_less: "ndigits c \<le> p \<Longrightarrow> c < 10 ^ p"
  by (metis le_zero_eq ndigits_le_iff ndigits_pos not_gr_zero)

lemma representable_dec:
  assumes "ndigits (dcoeff d) \<le> prec ctx" "Etiny ctx \<le> dexp d" "dexp d \<le> Etop ctx"
  shows "representable ctx (dval d)"
proof -
  have "int (dcoeff d) < 10 ^ prec ctx"
    using coeff_less [OF assms(1)] by (metis of_nat_less_iff of_nat_numeral of_nat_power)
  then have "\<bar>scoeff d\<bar> < 10 ^ prec ctx" by (simp add: scoeff_def)
  then show ?thesis using representableI [of "scoeff d" ctx "dexp d"] assms by (simp add: dval_scoeff)
qed

text \<open>A coefficient that fits may stand under any exponent the largest value allows.\<close>

lemma representable_fit:
  assumes "ndigits (dcoeff d) \<le> prec ctx" "Etiny ctx \<le> dexp d"
    and top: "int (ndigits (dcoeff d)) + dexp d - int (prec ctx) \<le> Etop ctx"
    and nz: "dcoeff d \<noteq> 0" and wf: "wf_context ctx"
  shows "representable ctx (dval d)"
proof (cases "dexp d \<le> Etop ctx")
  case True
  with assms show ?thesis by (intro representable_dec) auto
next
  case big: False
  let ?k = "nat (dexp d - Etop ctx)"
  let ?d = "Dec (dsign d) (dcoeff d * 10 ^ ?k) (Etop ctx)"
  have "ndigits (dcoeff ?d) \<le> prec ctx"
    using nz top big by (simp add: ndigits_mult_power)
  moreover have "dval ?d = dval d"
    using big ten_powi_split [of "Etop ctx" "dexp d"] by (simp add: dval_def)
  moreover have "Etiny ctx \<le> Etop ctx" using wf by (simp add: wf_context_def Etop_def)
  ultimately show ?thesis using representable_dec [of ?d ctx] by simp
qed

lemma round_shift_ndigits:
  assumes "ndigits c \<le> k + p" and "0 < p" and "p < ndigits (round_shift r k c)"
  shows "round_shift r k c = 10 ^ p"
proof -
  have "c < 10 ^ (k + p)" using assms(1,2) by (simp add: ndigits_le_iff)
  then have "round_shift r k c \<le> 10 ^ p" by (rule round_shift_le)
  moreover have "\<not> round_shift r k c < 10 ^ p" using assms(2,3) by (metis leD ndigits_le_iff)
  ultimately show ?thesis by linarith
qed

lemma round_shift_scaled_error:
  assumes "e \<le> f"
  shows "\<bar>of_nat (round_shift r (nat (f - e)) c) * 10 powi f - of_nat c * (10::rat) powi e\<bar> \<le> 10 powi f / 2"
proof -
  let ?k = "nat (f - e)"
  have eq: "of_nat c * (10::rat) powi e = of_nat c / 10 ^ ?k * 10 powi f"
    using assms ten_powi_split [of e f] by simp
  have "\<bar>of_nat (round_shift r ?k c) * 10 powi f - of_nat c * (10::rat) powi e\<bar>
      = \<bar>(of_nat (round_shift r ?k c) - of_nat c / 10 ^ ?k) * 10 powi f\<bar>"
    unfolding eq by (simp only: left_diff_distrib)
  also have "\<dots> = \<bar>of_nat (round_shift r ?k c) - of_nat c / 10 ^ ?k\<bar> * 10 powi f"
    by (simp add: abs_mult)
  also have "\<dots> \<le> 1 / 2 * 10 powi f"
    using round_shift_error by (intro mult_right_mono) auto
  finally show ?thesis by simp
qed

text \<open>
  The number \<open>_fix\<close> returns when it drops digits: the rounded coefficient at the least
  exponent, or one digit less when the rounding carried over.
\<close>

lemma dec_fix_rounded:
  assumes fx: "dec_fix ctx d = Ok d'" and nz: "dcoeff d \<noteq> 0" and p: "0 < prec ctx"
    and emin: "emin = max (int (ndigits (dcoeff d)) + dexp d - int (prec ctx)) (Etiny ctx)"
    and low: "dexp d < emin"
  shows "dsign d' = dsign d \<and> ndigits (dcoeff d') \<le> prec ctx \<and> Etiny ctx \<le> dexp d' \<and> dexp d' \<le> Etop ctx \<and>
    of_nat (dcoeff d') * (10::rat) powi dexp d' =
      of_nat (round_shift ROUND_HALF_EVEN (nat (emin - dexp d)) (dcoeff d)) * 10 powi emin"
proof -
  let ?c = "round_shift ROUND_HALF_EVEN (nat (emin - dexp d)) (dcoeff d)"
  have len: "ndigits (dcoeff d) \<le> nat (emin - dexp d) + prec ctx" using low emin by linarith
  have tiny: "Etiny ctx \<le> emin" using emin by simp
  show ?thesis
  proof (cases "prec ctx < ndigits ?c")
    case carry: True
    from round_shift_ndigits [OF len p carry] have c: "?c = 10 ^ prec ctx" .
    have d': "d' = Dec (dsign d) (?c div 10) (emin + 1)" and "emin + 1 \<le> Etop ctx"
      using fx nz low carry by (auto simp: dec_fix_def Let_def emin split: if_splits)
    moreover have "of_nat (?c div 10) * (10::rat) powi (emin + 1) = of_nat ?c * 10 powi emin"
      using p unfolding c by (cases "prec ctx") (simp_all add: ten_powi_add)
    moreover have "?c div 10 < 10 ^ prec ctx" using p unfolding c by (cases "prec ctx") simp_all
    then have "ndigits (?c div 10) \<le> prec ctx" using p by (simp add: ndigits_le_iff)
    ultimately show ?thesis using tiny by simp
  next
    case False
    then have "d' = Dec (dsign d) ?c emin" and "emin \<le> Etop ctx"
      using fx nz low by (auto simp: dec_fix_def Let_def emin split: if_splits)
    with False show ?thesis using tiny by simp
  qed
qed

lemma dec_fix_kept:
  assumes fx: "dec_fix ctx d = Ok d'" and nz: "dcoeff d \<noteq> 0"
    and "\<not> dexp d < max (int (ndigits (dcoeff d)) + dexp d - int (prec ctx)) (Etiny ctx)"
  shows "d' = d"
  using assms by (auto simp: dec_fix_def Let_def split: if_splits)

lemma dec_fix_top:
  assumes "dec_fix ctx d = Ok d'" and "dcoeff d \<noteq> 0"
  shows "int (ndigits (dcoeff d)) + dexp d - int (prec ctx) \<le> Etop ctx"
  using assms by (auto simp: dec_fix_def Let_def split: if_splits)

lemma dval_sign_coeff: "dval d = (if dsign d then - 1 else 1) * (of_nat (dcoeff d) * 10 powi dexp d)"
  by (simp add: dval_def)

text \<open>Whatever \<open>_fix\<close> returns is representable and within half a unit of its last place.\<close>

lemma dec_fix_Ok:
  assumes fx: "dec_fix ctx d = Ok d'" and wf: "wf_context ctx"
  shows "dsign d' = dsign d \<and> representable ctx (dval d') \<and>
    \<bar>dval d' - dval d\<bar> \<le> 10 powi max (int (ndigits (dcoeff d)) + dexp d - int (prec ctx)) (Etiny ctx) / 2"
proof (cases "dcoeff d = 0")
  case True
  with fx have "d' = Dec (dsign d) 0 (min (max (dexp d) (Etiny ctx)) (Emax ctx))"
    by (simp add: dec_fix_zero)
  with True wf show ?thesis by (simp add: dval_def)
next
  case nz: False
  define emin where "emin = max (int (ndigits (dcoeff d)) + dexp d - int (prec ctx)) (Etiny ctx)"
  have p: "0 < prec ctx" using wf by (simp add: wf_context_def)
  show ?thesis
  proof (cases "dexp d < emin")
    case False
    with fx nz have "d' = d" by (auto simp: emin_def dest: dec_fix_kept)
    moreover have "representable ctx (dval d)"
      using False dec_fix_top [OF fx nz] nz wf by (intro representable_fit) (auto simp: emin_def)
    ultimately show ?thesis by simp
  next
    case True
    note r = dec_fix_rounded [OF fx nz p emin_def True]
    let ?c = "round_shift ROUND_HALF_EVEN (nat (emin - dexp d)) (dcoeff d)"
    have "dval d' - dval d = (if dsign d then - 1 else 1) *
        (of_nat ?c * 10 powi emin - of_nat (dcoeff d) * 10 powi dexp d)"
      using r by (simp add: dval_sign_coeff algebra_simps)
    then have "\<bar>dval d' - dval d\<bar> \<le> 10 powi emin / 2"
      using round_shift_scaled_error [of "dexp d" emin ROUND_HALF_EVEN "dcoeff d"] True
      by (simp add: abs_mult)
    moreover have "representable ctx (dval d')" using r by (intro representable_dec) auto
    ultimately show ?thesis using r by (simp add: emin_def)
  qed
qed

section \<open>Operations on representable values\<close>

lemma dec_add_exactly:
  assumes "representable ctx (dval a + dval b)" and "wf_context ctx"
  shows "\<exists>d. dec_add ctx a b = Ok d \<and> dval d = dval a + dval b"
  using dec_fix_representable [of ctx "dec_add_exact a b"] assms by (auto simp: dec_add_def)

lemma dec_sub_exactly:
  assumes "representable ctx (dval a - dval b)" and "wf_context ctx"
  shows "\<exists>d. dec_sub ctx a b = Ok d \<and> dval d = dval a - dval b"
  using dec_add_exactly [of ctx a "copy_negate b"] assms by (simp add: dec_sub_def)

lemma dec_mul_exactly:
  assumes "representable ctx (dval a * dval b)" and "wf_context ctx"
  shows "\<exists>d. dec_mul ctx a b = Ok d \<and> dval d = dval a * dval b"
  using dec_fix_representable [of ctx "dec_mul_exact a b"] assms by (auto simp: dec_mul_def)

lemma dec_neg_exactly:
  assumes "representable ctx (dval a)" and "wf_context ctx"
  shows "\<exists>d. dec_neg ctx a = Ok d \<and> dval d = - dval a"
proof (cases "dcoeff a = 0")
  case True
  then have "\<bar>dval a\<bar> = - dval a" by (simp add: dval_def)
  with True show ?thesis
    using dec_fix_representable [of ctx "copy_abs a"] assms by (auto simp: dec_neg_def)
next
  case False
  then show ?thesis
    using dec_fix_representable [of ctx "copy_negate a"] assms by (auto simp: dec_neg_def)
qed

lemma dec_abs_exactly:
  assumes "representable ctx (dval a)" and "wf_context ctx"
  shows "\<exists>d. dec_abs ctx a = Ok d \<and> dval d = \<bar>dval a\<bar>"
  using dec_fix_representable [of ctx "copy_abs a"] assms by (auto simp: dec_abs_def)

lemma dec_ops_representable:
  assumes "wf_context ctx"
  shows "dec_add ctx a b = Ok d \<Longrightarrow> representable ctx (dval d)"
    and "dec_sub ctx a b = Ok d \<Longrightarrow> representable ctx (dval d)"
    and "dec_mul ctx a b = Ok d \<Longrightarrow> representable ctx (dval d)"
    and "dec_neg ctx a = Ok d \<Longrightarrow> representable ctx (dval d)"
    and "dec_abs ctx a = Ok d \<Longrightarrow> representable ctx (dval d)"
  using assms dec_fix_Ok
  by (auto simp: dec_add_def dec_sub_def dec_mul_def dec_neg_def dec_abs_def)


section \<open>The money grid\<close>

text \<open>
  The amounts with at most \<open>u\<close> decimal places: the integer multiples of \<open>10\<^sup>-\<^sup>u\<close>.
  \<open>grid_fits\<close> adds that the number of units fits the context's precision.
\<close>

definition on_grid :: "nat \<Rightarrow> rat \<Rightarrow> bool" where
  "on_grid u x \<longleftrightarrow> (\<exists>n::int. x = of_int n / 10 ^ u)"

definition units_of :: "nat \<Rightarrow> rat \<Rightarrow> int" where
  "units_of u x = \<lfloor>x * 10 ^ u\<rfloor>"

definition grid_fits :: "dcontext \<Rightarrow> nat \<Rightarrow> rat \<Rightarrow> bool" where
  "grid_fits ctx u x \<longleftrightarrow> on_grid u x \<and> \<bar>x\<bar> * 10 ^ u < 10 ^ prec ctx"

lemma on_grid_units: "on_grid u x \<Longrightarrow> x = of_int (units_of u x) / 10 ^ u"
  by (auto simp: on_grid_def units_of_def)

lemma on_grid_of_int [simp, intro]: "on_grid u (of_int n / 10 ^ u)"
  by (auto simp: on_grid_def)

lemma units_of_grid [simp]: "units_of u (of_int n / 10 ^ u) = n"
  by (simp add: units_of_def)

lemma on_grid_0 [simp]: "on_grid u 0"
  using on_grid_of_int [of u 0] by simp

lemma units_of_0 [simp]: "units_of u 0 = 0"
  by (simp add: units_of_def)

lemma on_grid_add: "on_grid u x \<Longrightarrow> on_grid u y \<Longrightarrow> on_grid u (x + y)"
  by (metis add_divide_distrib of_int_add on_grid_of_int on_grid_units)

lemma on_grid_minus [simp]: "on_grid u (- x) \<longleftrightarrow> on_grid u x"
  by (metis minus_divide_left minus_minus of_int_minus on_grid_of_int on_grid_units)

lemma on_grid_diff: "on_grid u x \<Longrightarrow> on_grid u y \<Longrightarrow> on_grid u (x - y)"
  by (metis on_grid_add on_grid_minus uminus_add_conv_diff add.commute)

lemma on_grid_sum_list: "(\<And>x. x \<in> set xs \<Longrightarrow> on_grid u x) \<Longrightarrow> on_grid u (sum_list xs)"
  by (induction xs) (auto intro: on_grid_add)

lemma ten_powi_neg: "(10::rat) powi (- int u) = 1 / 10 ^ u"
  by (simp add: power_int_minus divide_inverse)

lemma grid_fits_representable:
  assumes "grid_fits ctx u x" and "u \<le> 2" and "wf_context ctx"
  shows "representable ctx x"
proof -
  let ?n = "units_of u x"
  have x: "x = of_int ?n * 10 powi (- int u)"
    using assms(1) on_grid_units [of u x] by (simp add: grid_fits_def ten_powi_neg)
  have "\<bar>x\<bar> * 10 ^ u = \<bar>of_int ?n\<bar>" by (subst x) (simp add: ten_powi_neg abs_mult)
  then have "\<bar>of_int ?n\<bar> < (10::rat) ^ prec ctx" using assms(1) by (simp add: grid_fits_def)
  then have "\<bar>?n\<bar> < 10 ^ prec ctx" by (simp flip: of_int_abs)
  then show ?thesis
    using representableI [of ?n ctx "- int u"] assms(2,3)
    by (subst x) (auto simp: wf_context_def Etop_def)
qed

lemma grid_fits_minus [simp]: "grid_fits ctx u (- x) \<longleftrightarrow> grid_fits ctx u x"
  by (simp add: grid_fits_def)

lemma grid_fits_0 [simp]: "grid_fits ctx u 0"
  by (simp add: grid_fits_def)

lemma grid_fits_smaller:
  assumes "grid_fits ctx u y" and "on_grid u x" and "\<bar>x\<bar> \<le> \<bar>y\<bar>"
  shows "grid_fits ctx u x"
  using assms by (simp add: grid_fits_def) (metis order_le_less_trans mult_right_mono zero_le_numeral zero_le_power)


section \<open>Quantize\<close>

lemma dec_fix_id:
  assumes "Etiny ctx \<le> dexp d" and "ndigits (dcoeff d) \<le> prec ctx" and "adjusted d \<le> Emax ctx"
  shows "dec_fix ctx d = Ok d"
proof (cases "dcoeff d = 0")
  case True
  with assms show ?thesis by (cases d) (simp add: dec_fix_zero adjusted_def)
next
  case False
  have "\<not> Etop ctx < int (ndigits (dcoeff d)) + dexp d - int (prec ctx)"
    and "\<not> dexp d < max (int (ndigits (dcoeff d)) + dexp d - int (prec ctx)) (Etiny ctx)"
    using assms by (auto simp: Etop_def adjusted_def)
  with False show ?thesis by (simp add: dec_fix_def Let_def)
qed

lemma dexp_rescale [simp]: "dexp (dec_rescale r e d) = e" and dsign_rescale [simp]: "dsign (dec_rescale r e d) = dsign d"
  by (simp_all add: dec_rescale_def)

text \<open>A successful \<open>quantize\<close> is exactly the rescaled number, and fits the context.\<close>

lemma dec_quantize_Ok_iff:
  assumes "wf_context ctx"
  shows "dec_quantize ctx r d q = Ok y \<longleftrightarrow>
    y = dec_rescale r (dexp q) d \<and> Etiny ctx \<le> dexp q \<and> dexp q \<le> Emax ctx \<and>
    (dcoeff d = 0 \<or> adjusted d \<le> Emax ctx \<and> adjusted d - dexp q + 1 \<le> int (prec ctx) \<and>
       adjusted y \<le> Emax ctx \<and> ndigits (dcoeff y) \<le> prec ctx)"
proof (cases "dcoeff d = 0")
  case True
  have "1 \<le> prec ctx" using assms by (simp add: wf_context_def)
  with True show ?thesis
    by (auto simp: dec_quantize_def Let_def dec_rescale_def dec_fix_zero)
next
  case False
  let ?y = "dec_rescale r (dexp q) d"
  have "Etiny ctx \<le> dexp q \<Longrightarrow> ndigits (dcoeff ?y) \<le> prec ctx \<Longrightarrow> adjusted ?y \<le> Emax ctx \<Longrightarrow>
      dec_fix ctx ?y = Ok ?y"
    by (rule dec_fix_id) simp_all
  with False show ?thesis
    by (auto simp: dec_quantize_def Let_def)
qed

lemma dval_rescale_error: "\<bar>dval (dec_rescale r e d) - dval d\<bar> \<le> 10 powi e / 2"
proof (cases "dcoeff d = 0 \<or> e \<le> dexp d")
  case True
  then have "dval (dec_rescale r e d) = dval d"
    using ten_powi_split [of e "dexp d"] by (auto simp: dec_rescale_def dval_def)
  then show ?thesis by simp
next
  case False
  then have "dval (dec_rescale r e d) - dval d = (if dsign d then - 1 else 1) *
      (of_nat (round_shift r (nat (e - dexp d)) (dcoeff d)) * 10 powi e - of_nat (dcoeff d) * 10 powi dexp d)"
    by (simp add: dec_rescale_def dval_sign_coeff algebra_simps)
  then show ?thesis
    using round_shift_scaled_error [of "dexp d" e r "dcoeff d"] False by (simp add: abs_mult)
qed

lemma dval_rescale_grid: "\<exists>n::int. dval (dec_rescale r e d) = of_int n * 10 powi e"
  by (intro exI [of _ "scoeff (dec_rescale r e d)"]) (simp add: dval_scoeff)

text \<open>Rounding to a unit keeps the multiples of that unit.\<close>

lemma dval_rescale_exact:
  assumes "dval d = of_int n * 10 powi e"
  shows "dval (dec_rescale r e d) = dval d"
proof -
  obtain m :: int where m: "dval (dec_rescale r e d) = of_int m * 10 powi e"
    using dval_rescale_grid by blast
  have "\<bar>of_int m - of_int n\<bar> * (10::rat) powi e \<le> 1 / 2 * 10 powi e"
    using dval_rescale_error [of r e d] unfolding m assms
    by (simp add: abs_mult flip: left_diff_distrib)
  then have "\<bar>of_int m - of_int n\<bar> \<le> (1 / 2 :: rat)" by simp
  then have "of_int \<bar>m - n\<bar> < (1 :: rat)" by simp
  then have "\<bar>m - n\<bar> < 1" by (simp only: of_int_less_1_iff)
  then show ?thesis using m assms by simp
qed

lemma grid_fits_units: "grid_fits ctx u (of_int n / 10 ^ u) \<longleftrightarrow> \<bar>n\<bar> < 10 ^ prec ctx"
  by (simp add: grid_fits_def abs_mult flip: of_int_abs)

lemma ten_powi_not_le_0 [simp]: "\<not> (10::rat) powi e \<le> 0"
  using ten_powi_pos [of e] by linarith

lemma ten_powi_not_less_0 [simp]: "\<not> (10::rat) powi e < 0"
  using ten_powi_pos [of e] by linarith

lemma dval_less_0_iff: "dval d < 0 \<longleftrightarrow> dsign d \<and> dcoeff d \<noteq> 0"
  by (auto simp: dval_def mult_less_0_iff)

lemma dval_nonneg_iff: "0 \<le> dval d \<longleftrightarrow> \<not> dsign d \<or> dcoeff d = 0"
  using dval_less_0_iff [of d] by linarith

lemma floor_half [simp]: "\<lfloor>1 / 2 :: rat\<rfloor> = 0"
  by (rule floor_unique) simp_all

lemma quantize_grid:
  assumes wf: "wf_context ctx" and u: "u \<le> 2" and fits: "grid_fits ctx u (dval d)"
    and q: "dexp q = - int u"
  shows "\<exists>y. dec_quantize ctx r d q = Ok y \<and> dval y = dval d \<and> dexp y = - int u"
proof -
  let ?y = "dec_rescale r (- int u) d"
  obtain n where n: "dval d = of_int n * 10 powi (- int u)" and lt: "\<bar>n\<bar> < 10 ^ prec ctx"
    using fits on_grid_units [of u "dval d"] grid_fits_units [of ctx u "units_of u (dval d)"]
    by (auto simp: grid_fits_def ten_powi_neg)
  have y: "dval ?y = dval d" using n by (rule dval_rescale_exact)
  have bound: "adjusted x + 1 \<le> int (prec ctx) - int u" if "dval x = dval d" "dcoeff x \<noteq> 0" for x
  proof -
    have "10 powi adjusted x \<le> \<bar>dval d\<bar>" using abs_dval_bounds(1) [OF that(2)] that(1) by simp
    also have "\<dots> = of_int \<bar>n\<bar> * 10 powi (- int u)" by (simp add: n abs_mult)
    also have "\<dots> < 10 powi int (prec ctx) * 10 powi (- int u)"
      using lt by (simp del: of_int_abs)
    also have "\<dots> = 10 powi (int (prec ctx) - int u)" using ten_powi_add [of "int (prec ctx)" "- int u"] by simp
    finally show ?thesis by (simp add: ten_powi_less_iff)
  qed
  have "dec_quantize ctx r d q = Ok ?y"
  proof (cases "dcoeff d = 0")
    case True
    then show ?thesis using wf u q by (simp add: dec_quantize_Ok_iff wf_context_def)
  next
    case False
    then have nz: "dcoeff ?y \<noteq> 0" using y by (metis dval_eq_0_iff)
    have "ndigits (dcoeff ?y) \<le> prec ctx"
      using bound [OF y nz] by (simp add: adjusted_def)
    then show ?thesis
      using wf u q bound [OF y nz] bound [OF refl False]
      by (simp add: dec_quantize_Ok_iff wf_context_def)
  qed
  with y show ?thesis by simp
qed

lemma quantize_Ok_grid:
  assumes wf: "wf_context ctx" and q: "dexp q = - int u" and ok: "dec_quantize ctx r d q = Ok y"
  shows "grid_fits ctx u (dval y)" and "\<bar>dval y - dval d\<bar> \<le> 1 / (2 * 10 ^ u)"
    and "dexp y = - int u" and "on_grid u (dval d) \<Longrightarrow> dval y = dval d"
proof -
  have y: "y = dec_rescale r (- int u) d"
    and fit: "dcoeff d = 0 \<or> ndigits (dcoeff y) \<le> prec ctx"
    using ok q by (auto simp: dec_quantize_Ok_iff [OF wf])
  have "ndigits (dcoeff y) \<le> prec ctx"
    using fit wf y by (auto simp: dec_rescale_def wf_context_def)
  then have "dcoeff y < 10 ^ prec ctx" by (rule coeff_less)
  then have "\<bar>scoeff y\<bar> < 10 ^ prec ctx"
    by (simp add: scoeff_def)
  moreover have "dval y = of_int (scoeff y) / 10 ^ u" by (simp add: dval_scoeff y ten_powi_neg)
  ultimately show "grid_fits ctx u (dval y)" by (simp add: grid_fits_units)
  show "\<bar>dval y - dval d\<bar> \<le> 1 / (2 * 10 ^ u)"
    using dval_rescale_error [of r "- int u" d] by (simp add: y ten_powi_neg)
  show "dexp y = - int u" by (simp add: y)
  show "dval y = dval d" if "on_grid u (dval d)"
    unfolding y using on_grid_units [OF that] by (intro dval_rescale_exact) (simp add: ten_powi_neg)
qed

text \<open>ROUND_HALF_UP of a number that is not negative.\<close>

lemma quantize_half_up:
  assumes wf: "wf_context ctx" and q: "dexp q = - int u"
    and ok: "dec_quantize ctx ROUND_HALF_UP d q = Ok y" and pos: "0 \<le> dval d"
  shows "dval y = of_int \<lfloor>dval d * 10 ^ u + 1 / 2\<rfloor> / 10 ^ u"
proof -
  have y: "y = dec_rescale ROUND_HALF_UP (- int u) d"
    using ok q by (auto simp: dec_quantize_Ok_iff [OF wf])
  consider "dcoeff d = 0" | "dcoeff d \<noteq> 0" "- int u \<le> dexp d" | "dcoeff d \<noteq> 0" "dexp d < - int u"
    by linarith
  then show ?thesis
  proof cases
    case 1
    then have "dval d = 0" by (simp only: dval_eq_0_iff)
    then show ?thesis by (simp add: y dval_def dec_rescale_def 1)
  next
    case 2
    then have "dval d = of_int (at_exp (- int u) d) / 10 ^ u" by (simp add: dval_at_exp ten_powi_neg)
    moreover have "dval y = dval d"
      using calculation unfolding y by (intro dval_rescale_exact) (simp add: ten_powi_neg)
    ultimately show ?thesis by (simp add: floor_unique)
  next
    case 3
    let ?k = "nat (- int u - dexp d)"
    have s: "\<not> dsign d" using pos 3(1) by (simp add: dval_nonneg_iff)
    have "(10::rat) powi dexp d * 10 ^ u = 1 / 10 ^ ?k"
      using 3(2) ten_powi_split [of "dexp d" "- int u"] by (simp add: ten_powi_neg field_simps)
    then have "dval d * 10 ^ u = of_nat (dcoeff d) / 10 ^ ?k" using s by (simp add: dval_def mult.assoc)
    moreover have "dval y = of_nat (round_shift ROUND_HALF_UP ?k (dcoeff d)) / 10 ^ u"
      using 3 s by (simp add: y dec_rescale_def dval_def ten_powi_neg)
    ultimately show ?thesis
      using arg_cong [OF round_shift_half_up [of ?k "dcoeff d"], of "of_int :: int \<Rightarrow> rat"] by simp
  qed
qed


section \<open>Division\<close>

lemma strip_to_val:
  "strip_to ideal c e = (c', e') \<Longrightarrow> of_nat c' * (10::rat) powi e' = of_nat c * 10 powi e"
proof (induction ideal c e rule: strip_to.induct)
  case (1 ideal c e)
  show ?case
  proof (cases "e < ideal \<and> c mod 10 = 0")
    case True
    then have "(of_nat c :: rat) = of_nat (c div 10) * 10"
      by (metis dvd_eq_mod_eq_0 dvd_div_mult_self of_nat_mult of_nat_numeral)
    moreover have "of_nat c' * (10::rat) powi e' = of_nat (c div 10) * 10 powi (e + 1)"
      using 1 True by (simp add: strip_to.simps [of ideal c e])
    ultimately show ?thesis by (simp add: ten_powi_add)
  next
    case False
    then have "strip_to ideal c e = (c, e)" by (subst strip_to.simps) auto
    with 1(2) show ?thesis by simp
  qed
qed

text \<open>
  The scaled numerator and denominator of a division: their quotient is the quotient of the
  values at the working exponent, and has more digits than the precision.
\<close>

lemma div_scaled:
  fixes p :: nat
  assumes a: "dcoeff a \<noteq> 0" and b: "dcoeff b \<noteq> 0"
    and shift: "shift = int (ndigits (dcoeff b)) - int (ndigits (dcoeff a)) + int p + 1"
    and n: "n = dcoeff a * 10 ^ nat shift" and m: "m = dcoeff b * 10 ^ nat (- shift)"
  shows "of_nat n / of_nat m * 10 powi (dexp a - dexp b - shift) = \<bar>dval a / dval b\<bar>"
    and "10 ^ p < (of_nat n / of_nat m :: rat)" and "0 < m"
proof -
  have sh: "(10::rat) ^ nat shift / 10 ^ nat (- shift) = 10 powi shift"
    by (cases "0 \<le> shift") (simp_all add: power_int_def inverse_eq_divide power_one_over)
  have q: "of_nat n / of_nat m = of_nat (dcoeff a) / of_nat (dcoeff b) * (10::rat) powi shift"
    unfolding n m by (simp flip: sh)
  have "(10::rat) powi shift * 10 powi (dexp a - dexp b - shift) = 10 powi (dexp a - dexp b)"
    by (simp flip: ten_powi_add)
  also have "\<dots> = 10 powi dexp a / 10 powi dexp b" by (simp add: power_int_diff)
  finally have P: "(10::rat) powi shift * 10 powi (dexp a - dexp b - shift) = 10 powi dexp a / 10 powi dexp b" .
  show "of_nat n / of_nat m * 10 powi (dexp a - dexp b - shift) = \<bar>dval a / dval b\<bar>"
    by (simp only: q abs_divide abs_dval mult.assoc P times_divide_times_eq)
  show "0 < m" using b by (simp add: m)
  have "10 ^ (ndigits (dcoeff a) - 1) \<le> dcoeff a" and "dcoeff b < 10 ^ ndigits (dcoeff b)"
    using ndigits_ge [of "dcoeff a"] ndigits_less a by auto
  then have lo: "(10::rat) ^ (ndigits (dcoeff a) - 1) \<le> of_nat (dcoeff a)"
    and hi: "of_nat (dcoeff b) < (10::rat) ^ ndigits (dcoeff b)"
    by (metis of_nat_le_iff of_nat_numeral of_nat_power, metis of_nat_less_iff of_nat_numeral of_nat_power)
  have "(10::rat) ^ p * 10 ^ ndigits (dcoeff b) = 10 ^ (ndigits (dcoeff a) - 1) * 10 powi shift"
  proof -
    have "int (ndigits (dcoeff a) - 1) + shift = int (p + ndigits (dcoeff b))"
      using ndigits_pos [of "dcoeff a"] shift by linarith
    then have "(10::rat) powi (int (ndigits (dcoeff a) - 1)) * 10 powi shift = 10 powi int (p + ndigits (dcoeff b))"
      by (simp only: flip: ten_powi_add)
    then show ?thesis by (simp only: power_int_of_nat power_add)
  qed
  also have "\<dots> \<le> of_nat (dcoeff a) * 10 powi shift" using lo by simp
  finally have "10 ^ p * (10::rat) ^ ndigits (dcoeff b) \<le> of_nat (dcoeff a) * 10 powi shift" .
  moreover have "10 ^ p * of_nat (dcoeff b) < 10 ^ p * (10::rat) ^ ndigits (dcoeff b)" using hi by simp
  ultimately have "10 ^ p * of_nat (dcoeff b) < of_nat (dcoeff a) * (10::rat) powi shift" by linarith
  then show "10 ^ p < (of_nat n / of_nat m :: rat)" unfolding q using b by (simp add: field_simps)
qed

lemma integer_quotient:
  fixes n m p :: nat
  assumes eq: "of_nat n / of_nat m = of_int k * (10::rat) powi f" and "0 < m"
    and big: "10 ^ p < (of_nat n / of_nat m :: rat)" and small: "\<bar>k\<bar> < 10 ^ p"
  shows "m dvd n"
proof -
  have "(of_int k :: rat) < 10 ^ p" using small by (simp flip: of_int_abs)
  then have less: "of_int k < of_int k * (10::rat) powi f" using big eq by linarith
  have "0 < of_int k * (10::rat) powi f" using big eq by (metis order_less_trans zero_less_numeral zero_less_power)
  then have "0 < k" by (simp add: zero_less_mult_iff)
  with less have "(10::rat) powi 0 < 10 powi f" by simp
  then have "0 \<le> f" by (simp only: ten_powi_less_iff)
  then have "(10::rat) powi f = of_int (10 ^ nat f)" by (simp add: power_int_def)
  with eq \<open>0 < m\<close> have "(of_int (int n) :: rat) = of_int (k * 10 ^ nat f * int m)"
    by (simp add: field_simps)
  then have "int n = k * 10 ^ nat f * int m" by (simp only: of_int_eq_iff)
  then show ?thesis by (metis dvd_triv_right int_dvd_int_iff)
qed

lemma ten_powi_cancel: "x * 10 powi f = y * 10 powi e \<Longrightarrow> x = y * (10::rat) powi (e - f)"
  by (simp add: power_int_diff field_simps)

lemma dec_div_exactly:
  assumes b: "dcoeff b \<noteq> 0" and rep: "representable ctx (dval a / dval b)" and wf: "wf_context ctx"
  shows "\<exists>d. dec_div ctx a b = Ok d \<and> dval d = dval a / dval b"
proof (cases "dcoeff a = 0")
  case True
  then have "dval a = 0" by (simp only: dval_eq_0_iff)
  then show ?thesis
    using True b by (auto simp: dec_div_def Let_def dec_fix_zero dval_def)
next
  case a: False
  define shift where "shift = int (ndigits (dcoeff b)) - int (ndigits (dcoeff a)) + int (prec ctx) + 1"
  define n where "n = dcoeff a * 10 ^ nat shift"
  define m where "m = dcoeff b * 10 ^ nat (- shift)"
  let ?s = "dsign a \<noteq> dsign b" and ?ideal = "dexp a - dexp b"
  note q = div_scaled [OF a b shift_def n_def m_def]
  have "representable ctx \<bar>dval a / dval b\<bar>" using rep by (simp only: representable_abs)
  then obtain k e where k: "\<bar>dval a / dval b\<bar> = of_int k * 10 powi e" "\<bar>k\<bar> < 10 ^ prec ctx"
    unfolding representable_def by blast
  have "of_nat n / of_nat m = of_int k * (10::rat) powi (e - (?ideal - shift))"
    by (rule ten_powi_cancel) (simp only: q(1) k(1))
  then have dvd: "m dvd n" using q(3,2) k(2) by (rule integer_quotient)
  then have quot: "(of_nat (n div m) :: rat) = of_nat n / of_nat m"
    using q(3) by (auto elim!: dvdE)
  obtain c e' where st: "strip_to ?ideal (n div m) (?ideal - shift) = (c, e')" by fastforce
  have div_eq: "dec_div ctx a b = dec_fix ctx (Dec ?s c e')"
    using a b dvd st
    by (simp add: dec_div_def Let_def shift_def [symmetric] n_def [symmetric] m_def [symmetric])
  have "of_nat c * (10::rat) powi e' = \<bar>dval a / dval b\<bar>"
    using strip_to_val [OF st] q(1) quot by simp
  then have "dval (Dec ?s c e') = dval a / dval b"
    by (simp add: dval_sign_coeff abs_mult abs_divide split: if_splits)
  then show ?thesis using dec_fix_representable [of ctx "Dec ?s c e'"] rep wf div_eq by auto
qed

lemma dec_div_representable:
  "wf_context ctx \<Longrightarrow> dec_div ctx a b = Ok d \<Longrightarrow> representable ctx (dval d)"
  using dec_fix_Ok by (fastforce simp: dec_div_def Let_def split: if_splits prod.splits)


section \<open>Integer parts\<close>

lemma dec_to_int_floor:
  assumes "0 \<le> dval d"
  shows "dec_to_int d = \<lfloor>dval d\<rfloor>"
proof (cases "dcoeff d = 0")
  case True
  then show ?thesis by (simp add: dec_to_int_def dval_def)
next
  case False
  then have s: "\<not> dsign d" using assms dval_nonneg_iff [of d] by auto
  show ?thesis
  proof (cases "0 \<le> dexp d")
    case True
    then have "dval d = of_int (int (dcoeff d * 10 ^ nat (dexp d)))" using s by (simp add: dval_def power_int_def)
    then show ?thesis using True s by (simp only: floor_of_int) (simp add: dec_to_int_def)
  next
    case neg: False
    let ?k = "nat (- dexp d)"
    have "dexp d = - int ?k" using neg by simp
    then have "dval d = of_nat (dcoeff d) / of_nat (10 ^ ?k)"
      using s ten_powi_neg [of ?k] by (simp add: dval_def)
    moreover have "\<lfloor>of_nat (dcoeff d) / (of_nat (10 ^ ?k) :: rat)\<rfloor> = int (dcoeff d div 10 ^ ?k)"
      by (rule floor_divide_of_nat_eq)
    ultimately show ?thesis using neg s by (simp add: dec_to_int_def)
  qed
qed

lemma floor_int_half: "\<lfloor>of_int n + (1 / 2 :: rat)\<rfloor> = n"
  by (rule floor_unique) simp_all

lemma dec_to_int_integral:
  assumes "0 \<le> dval d"
  shows "dec_to_int (to_integral_value ROUND_HALF_UP d) = \<lfloor>dval d + 1 / 2\<rfloor>"
proof (cases "0 \<le> dexp d")
  case True
  have "dval d = of_int (scoeff d * 10 ^ nat (dexp d))" using True by (simp add: dval_scoeff power_int_def)
  then have "\<lfloor>dval d + 1 / 2\<rfloor> = \<lfloor>dval d\<rfloor>" by (simp only: floor_of_int floor_int_half)
  then show ?thesis using True assms by (simp add: to_integral_value_def dec_to_int_floor)
next
  case False
  let ?k = "nat (- dexp d)"
  have "dexp d = - int ?k" using False by simp
  then have v: "dcoeff d \<noteq> 0 \<Longrightarrow> dval d = of_nat (dcoeff d) / 10 ^ ?k"
    using assms dval_nonneg_iff [of d] ten_powi_neg [of ?k] by (auto simp: dval_def)
  show ?thesis
    using False assms dval_nonneg_iff [of d] v round_shift_half_up [of ?k "dcoeff d"]
    by (cases "dcoeff d = 0") (auto simp: to_integral_value_def dec_rescale_def dec_to_int_def dval_def)
qed


section \<open>Evaluation\<close>

text \<open>Trailing zeros are dropped several at a time when \<^const>\<open>strip_to\<close> is evaluated.\<close>

lemma strip_to_chunk:
  assumes "e + int k \<le> ideal" and "10 ^ k dvd c"
  shows "strip_to ideal c e = strip_to ideal (c div 10 ^ k) (e + int k)"
  using assms
proof (induction k arbitrary: c e)
  case (Suc k)
  then have d: "10 dvd c" using dvd_trans [of 10 "10 ^ Suc k" c] by simp
  then have "strip_to ideal c e = strip_to ideal (c div 10) (e + 1)"
    using Suc.prems by (subst strip_to.simps) auto
  also have "10 ^ k dvd c div 10" using Suc.prems(2) d by (auto simp: dvd_div_iff_mult mult.commute)
  then have "strip_to ideal (c div 10) (e + 1) = strip_to ideal (c div 10 div 10 ^ k) (e + 1 + int k)"
    using Suc.prems by (intro Suc.IH) auto
  finally show ?case by (simp add: div_mult2_eq ac_simps)
qed simp

lemma strip_to_code [code]:
  "strip_to ideal c e =
     (if e + 16 \<le> ideal \<and> c mod 10000000000000000 = 0 then strip_to ideal (c div 10000000000000000) (e + 16)
      else if e + 4 \<le> ideal \<and> c mod 10000 = 0 then strip_to ideal (c div 10000) (e + 4)
      else if e < ideal \<and> c mod 10 = 0 then strip_to ideal (c div 10) (e + 1) else (c, e))"
  using strip_to_chunk [of e 16 ideal c] strip_to_chunk [of e 4 ideal c] strip_to.simps [of ideal c e]
  by (simp add: mod_eq_0_iff_dvd)

text \<open>Counting digits by comparison with the powers of ten, for evaluation.\<close>

function ndigits_from :: "nat \<Rightarrow> nat \<Rightarrow> nat \<Rightarrow> nat" where
  "ndigits_from k b n = (if n < b \<or> b = 0 then k else ndigits_from (k + 1) (10 * b) n)"
  by pat_completeness auto

termination ndigits_from
  by (relation "measure (\<lambda>(k, b, n). n + 1 - b)") auto

declare ndigits_from.simps [simp del]

lemma ndigits_from_power: "0 < k \<Longrightarrow> k \<le> ndigits n \<Longrightarrow> ndigits_from k (10 ^ k) n = ndigits n"
proof (induction "ndigits n - k" arbitrary: k)
  case 0
  then have "n < 10 ^ k" using ndigits_less [of n] by simp
  then show ?case using 0 by (simp add: ndigits_from.simps)
next
  case (Suc j)
  then have "\<not> n < 10 ^ k" by (simp flip: ndigits_le_iff)
  moreover have "ndigits_from (k + 1) (10 ^ (k + 1)) n = ndigits n" using Suc by (intro Suc.hyps(1)) auto
  ultimately show ?case by (simp add: ndigits_from.simps [of k])
qed

lemma ndigits_code [code]: "ndigits n = ndigits_from 1 10 n"
  using ndigits_from_power [of 1 n] ndigits_pos [of n] by (simp add: Suc_le_eq)

end
