(* ===== verification/Money.thy ===== *)
theory Money
  imports Py_Decimal
begin

text \<open>
  The money contract, \<open>finance_core/money.py\<close>: currency normalization and the currency
  registry, the conversion of dynamic values to finite decimals, the check of an amount
  against its currency's scale, explicit quantization, sign policies, canonical text, and the
  \<open>Money\<close> value object. Every operation that computes with decimals takes the active
  decimal context as its first argument.
\<close>

section \<open>Dynamic values\<close>

text \<open>
  The objects the monetary entry points distinguish. A float is refused whatever its value,
  and so is an object of any other type.
\<close>

datatype py_value =
    PyNone
  | PyBool bool
  | PyInt int
  | PyFloat
  | PyStr string
  | PyDec py_decimal
  | PyOther

definition MONEY_QUANTUM :: dec where
  "MONEY_QUANTUM = Dec False 1 (- 2)"

definition ZERO :: dec where
  "ZERO = Dec False 0 (- 2)"


section \<open>Currencies\<close>

definition supported_currency_minor_units :: "(string, nat) dict" where
  "supported_currency_minor_units =
     [(''SGD'', 2), (''USD'', 2), (''EUR'', 2), (''GBP'', 2),
      (''AUD'', 2), (''CNY'', 2), (''HKD'', 2), (''JPY'', 0)]"

definition SUPPORTED_CURRENCIES :: "string list" where
  "SUPPORTED_CURRENCIES = dkeys supported_currency_minor_units"

definition normalize_currency :: "py_value \<Rightarrow> string result" where
  "normalize_currency raw =
     (case raw of
        PyStr s \<Rightarrow>
          let normalized = py_upper (py_strip s) in
          if normalized = [] then
            raise MoneyValidationError ''Currency code must not be empty''
          else if length normalized \<noteq> 3 then
            raise MoneyValidationError ''Currency code must be 3 characters''
          else if \<not> py_isalpha normalized then
            raise MoneyValidationError ''Currency code must contain only letters''
          else if normalized \<notin> set SUPPORTED_CURRENCIES then
            raise MoneyValidationError ''Unsupported currency''
          else Ok normalized
      | _ \<Rightarrow> raise MoneyValidationError ''Currency must be a string'')"

definition minor_units :: "string \<Rightarrow> nat result" where
  "minor_units currency =
     rbind (normalize_currency (PyStr currency)) (\<lambda>normalized.
       dlookup supported_currency_minor_units normalized)"


section \<open>Decimal conversion\<close>

text \<open>A match of \<open>\d[eE][+-]?\d\<close> at the head of the string, and anywhere in it.\<close>

fun scientific_at :: "string \<Rightarrow> bool" where
  "scientific_at (a # b # c # cs) =
     (char_digit a \<and> (b = CHR ''e'' \<or> b = CHR ''E'') \<and>
      (char_digit c \<or>
       (c = CHR ''+'' \<or> c = CHR ''-'') \<and> (case cs of [] \<Rightarrow> False | d # _ \<Rightarrow> char_digit d)))"
| "scientific_at _ = False"

fun looks_like_scientific :: "string \<Rightarrow> bool" where
  "looks_like_scientific [] = False"
| "looks_like_scientific (c # cs) = (scientific_at (c # cs) \<or> looks_like_scientific cs)"

definition require_finite :: "py_decimal \<Rightarrow> dec result" where
  "require_finite x =
     (case x of Finite d \<Rightarrow> Ok d | _ \<Rightarrow> raise MoneyValidationError ''must be a finite Decimal'')"

definition money_decimal :: "py_value \<Rightarrow> dec result" where
  "money_decimal value =
     (case value of
        PyBool _ \<Rightarrow> raise MoneyValidationError ''must not be a boolean''
      | PyFloat \<Rightarrow> raise MoneyValidationError ''monetary values must not be floats''
      | PyNone \<Rightarrow> raise MoneyValidationError ''is required, got None''
      | PyDec x \<Rightarrow> require_finite x
      | PyInt n \<Rightarrow> require_finite (Finite (dec_of_int n))
      | PyStr s \<Rightarrow>
          let stripped = py_strip s in
          if stripped = [] then raise MoneyValidationError ''must not be an empty string''
          else if looks_like_scientific stripped then
            raise MoneyValidationError ''appears to use scientific notation''
          else (case decimal_of_string stripped of
                  None \<Rightarrow> raise MoneyValidationError ''is not a valid Decimal string''
                | Some x \<Rightarrow> require_finite x)
      | PyOther \<Rightarrow> raise MoneyValidationError ''must be Decimal, int, or canonical string'')"


section \<open>Scale and quantization\<close>

text \<open>\<open>quantize\<close> and the order comparisons on all decimals, NaNs and infinities included.\<close>

definition py_quantize :: "dcontext \<Rightarrow> rounding \<Rightarrow> py_decimal \<Rightarrow> dec \<Rightarrow> py_decimal result" where
  "py_quantize ctx r x q =
     (case x of
        Finite d \<Rightarrow> rbind (dec_quantize ctx r d q) (\<lambda>y. Ok (Finite y))
      | Infinite _ \<Rightarrow> raise InvalidOperation ''quantize with one INF''
      | QNaN s \<Rightarrow> Ok (QNaN s)
      | SNaN _ \<Rightarrow> raise InvalidOperation ''sNaN'')"

definition py_less :: "py_decimal \<Rightarrow> dec \<Rightarrow> bool result" where
  "py_less x d =
     (case x of Finite a \<Rightarrow> Ok (dec_lt a d) | Infinite s \<Rightarrow> Ok s
      | _ \<Rightarrow> raise InvalidOperation ''comparison involving NaN'')"

definition py_less_eq :: "py_decimal \<Rightarrow> dec \<Rightarrow> bool result" where
  "py_less_eq x d =
     (case x of Finite a \<Rightarrow> Ok (dec_le a d) | Infinite s \<Rightarrow> Ok s
      | _ \<Rightarrow> raise InvalidOperation ''comparison involving NaN'')"

text \<open>\<open>a == b\<close>: a NaN equals nothing; here one side is the other's \<open>quantize\<close>.\<close>

definition py_eq :: "py_decimal \<Rightarrow> py_decimal \<Rightarrow> bool" where
  "py_eq x y =
     (case (x, y) of (Finite a, Finite b) \<Rightarrow> dec_eq a b
      | (Infinite s, Infinite t) \<Rightarrow> s = t | _ \<Rightarrow> False)"

text \<open>\<open>Decimal("0.1")\<close>, and the power of it that is one minor unit.\<close>

definition TENTH :: dec where
  "TENTH = Dec False 1 (- 1)"

definition grid_unit :: "nat \<Rightarrow> dec" where
  "grid_unit u = Dec False 1 (- int u)"

definition quantum_for_units :: "dcontext \<Rightarrow> nat \<Rightarrow> dec result" where
  "quantum_for_units ctx units = dec_pow ctx TENTH units"

definition validate_amount_for_currency ::
  "dcontext \<Rightarrow> py_decimal \<Rightarrow> string \<Rightarrow> py_decimal result" where
  "validate_amount_for_currency ctx amount currency =
     rbind (minor_units currency) (\<lambda>units.
     rbind (dec_pow ctx TENTH units) (\<lambda>quantum.
     rbind (py_quantize ctx ROUND_HALF_EVEN amount quantum) (\<lambda>y.
       if py_eq amount y then Ok amount
       else raise MoneyValidationError ''sub-minor-unit precision is not accepted'')))"

definition quantize_for_currency ::
  "dcontext \<Rightarrow> rounding \<Rightarrow> py_decimal \<Rightarrow> string \<Rightarrow> py_decimal result" where
  "quantize_for_currency ctx rounding amount currency =
     rbind (minor_units currency) (\<lambda>units.
     rbind (quantum_for_units ctx units) (\<lambda>quantum.
       py_quantize ctx rounding amount quantum))"

definition quantum_for_currency :: "dcontext \<Rightarrow> string \<Rightarrow> dec result" where
  "quantum_for_currency ctx currency =
     rbind (minor_units currency) (quantum_for_units ctx)"


section \<open>Sign policies, currency agreement\<close>

datatype sign_policy = ANY | NON_NEGATIVE | STRICTLY_POSITIVE

fun enforce :: "sign_policy \<Rightarrow> py_decimal \<Rightarrow> py_decimal result" where
  "enforce ANY amount = Ok amount"
| "enforce NON_NEGATIVE amount =
     rbind (py_less amount ZERO) (\<lambda>b.
       if b then raise MoneyValidationError ''must be non-negative'' else Ok amount)"
| "enforce STRICTLY_POSITIVE amount =
     rbind (py_less_eq amount ZERO) (\<lambda>b.
       if b then raise MoneyValidationError ''must be strictly positive'' else Ok amount)"

definition require_same_currency :: "py_value \<Rightarrow> py_value \<Rightarrow> unit result" where
  "require_same_currency currency_a currency_b =
     rbind (normalize_currency currency_a) (\<lambda>a.
     rbind (normalize_currency currency_b) (\<lambda>b.
       if a \<noteq> b then
         raise CurrencyMismatchError ''cross-currency operations are not supported''
       else Ok ()))"


section \<open>Canonical text\<close>

definition MAX_CANONICAL_DECIMAL_CHARS :: int where
  "MAX_CANONICAL_DECIMAL_CHARS = 1048576"

definition canonical_decimal_str :: "py_decimal \<Rightarrow> string result" where
  "canonical_decimal_str amount =
     (case amount of
        Finite d \<Rightarrow>
          let ds = digits (dcoeff d) in
          if list_all (\<lambda>x. x = 0) ds then Ok ''0''
          else
            let trailing_zeros = length (takeWhile (\<lambda>x. x = 0) (rev ds));
                ds' = (if trailing_zeros \<noteq> 0 then take (length ds - trailing_zeros) ds else ds);
                expo = dexp d + int trailing_zeros;
                sign = (if dsign d then 1 else 0 :: int);
                len = int (length ds');
                output_length = (if 0 \<le> expo then sign + len + expo
                                 else if len \<le> - expo then sign + 2 - expo
                                 else sign + len + 1);
                body = string_of_digits ds';
                plain = (if 0 < expo then body @ replicate (nat expo) (CHR ''0'')
                         else if expo < 0 then
                           (if len \<le> - expo
                            then ''0.'' @ replicate (nat (- expo - len)) (CHR ''0'') @ body
                            else take (nat (len + expo)) body @ ''.'' @ drop (nat (len + expo)) body)
                         else body)
            in if MAX_CANONICAL_DECIMAL_CHARS < output_length then
                 raise MoneyValidationError ''canonical_decimal_str exceeds maximum plain-decimal length''
               else Ok (if dsign d then ''-'' @ plain else plain)
      | _ \<Rightarrow> raise MoneyValidationError ''canonical_decimal_str requires a finite Decimal'')"

definition canonical_money_str :: "dcontext \<Rightarrow> py_decimal \<Rightarrow> string \<Rightarrow> string result" where
  "canonical_money_str ctx amount currency =
     (case amount of
        Finite d \<Rightarrow>
          rbind (quantize_for_currency ctx ROUND_HALF_UP amount currency) (\<lambda>q.
            case q of Finite y \<Rightarrow> Ok (dec_str y) | _ \<Rightarrow> raise MoneyValidationError ''unreachable'')
      | _ \<Rightarrow> raise MoneyValidationError ''canonical_money_str requires a finite Decimal'')"


section \<open>The Money value object\<close>

record money =
  amount :: dec
  currency :: string

definition make_money :: "dcontext \<Rightarrow> py_value \<Rightarrow> py_value \<Rightarrow> money result" where
  "make_money ctx amt cur =
     rbind (money_decimal amt) (\<lambda>d.
     rbind (normalize_currency cur) (\<lambda>c.
     rbind (validate_amount_for_currency ctx (Finite d) c) (\<lambda>_.
       Ok \<lparr>amount = d, currency = c\<rparr>)))"

definition money_from_string :: "dcontext \<Rightarrow> string \<Rightarrow> py_value \<Rightarrow> money result" where
  "money_from_string ctx amount_str cur =
     rbind (money_decimal (PyStr amount_str)) (\<lambda>d. make_money ctx (PyDec (Finite d)) cur)"

definition money_zero :: "dcontext \<Rightarrow> py_value \<Rightarrow> money result" where
  "money_zero ctx cur = make_money ctx (PyDec (Finite ZERO)) cur"

definition money_eq :: "money \<Rightarrow> money \<Rightarrow> bool" where
  "money_eq a b \<longleftrightarrow> dec_eq (amount a) (amount b) \<and> currency a = currency b"

definition money_same_currency :: "money \<Rightarrow> money \<Rightarrow> unit result" where
  "money_same_currency a b =
     ensure (currency a = currency b) CurrencyMismatchError ''cross-currency operations are not supported''"

definition money_lt :: "money \<Rightarrow> money \<Rightarrow> bool result" where
  "money_lt a b = rbind (money_same_currency a b) (\<lambda>_. Ok (dec_lt (amount a) (amount b)))"

definition money_le :: "money \<Rightarrow> money \<Rightarrow> bool result" where
  "money_le a b = rbind (money_same_currency a b) (\<lambda>_. Ok (dec_le (amount a) (amount b)))"

definition money_add :: "dcontext \<Rightarrow> money \<Rightarrow> money \<Rightarrow> money result" where
  "money_add ctx a b =
     rbind (money_same_currency a b) (\<lambda>_.
     rbind (dec_add ctx (amount a) (amount b)) (\<lambda>s.
       make_money ctx (PyDec (Finite s)) (PyStr (currency a))))"

definition money_sub :: "dcontext \<Rightarrow> money \<Rightarrow> money \<Rightarrow> money result" where
  "money_sub ctx a b =
     rbind (money_same_currency a b) (\<lambda>_.
     rbind (dec_sub ctx (amount a) (amount b)) (\<lambda>s.
       make_money ctx (PyDec (Finite s)) (PyStr (currency a))))"

definition money_neg :: "dcontext \<Rightarrow> money \<Rightarrow> money result" where
  "money_neg ctx a =
     rbind (dec_neg ctx (amount a)) (\<lambda>s. make_money ctx (PyDec (Finite s)) (PyStr (currency a)))"

definition money_abs :: "dcontext \<Rightarrow> money \<Rightarrow> money result" where
  "money_abs ctx a =
     rbind (dec_abs ctx (amount a)) (\<lambda>s. make_money ctx (PyDec (Finite s)) (PyStr (currency a)))"

text \<open>The product of a finite amount with any decimal.\<close>

definition py_mul :: "dcontext \<Rightarrow> dec \<Rightarrow> py_decimal \<Rightarrow> py_decimal result" where
  "py_mul ctx a x =
     (case x of
        Finite b \<Rightarrow> rbind (dec_mul ctx a b) (\<lambda>p. Ok (Finite p))
      | Infinite s \<Rightarrow> if dcoeff a = 0 then raise InvalidOperation ''0 * (+-)INF''
                      else Ok (Infinite (dsign a \<noteq> s))
      | QNaN s \<Rightarrow> Ok (QNaN s)
      | SNaN _ \<Rightarrow> raise InvalidOperation ''sNaN'')"

definition money_mul :: "dcontext \<Rightarrow> money \<Rightarrow> py_value \<Rightarrow> money result" where
  "money_mul ctx a scalar =
     (let by_decimal = (\<lambda>x. rbind (py_mul ctx (amount a) x) (\<lambda>p.
                               make_money ctx (PyDec p) (PyStr (currency a))))
      in case scalar of
           PyInt n \<Rightarrow> by_decimal (Finite (dec_of_int n))
         | PyBool b \<Rightarrow> by_decimal (Finite (dec_of_int (if b then 1 else 0)))
         | PyDec x \<Rightarrow> by_decimal x
         | _ \<Rightarrow> raise TypeError ''unsupported operand'')"

definition money_is_zero :: "money \<Rightarrow> bool" where
  "money_is_zero a = dec_eq (amount a) ZERO"

definition money_is_positive :: "money \<Rightarrow> bool" where
  "money_is_positive a = dec_lt ZERO (amount a)"

definition money_is_negative :: "money \<Rightarrow> bool" where
  "money_is_negative a = dec_lt (amount a) ZERO"

definition money_canonical_str :: "money \<Rightarrow> string result" where
  "money_canonical_str a = canonical_decimal_str (Finite (amount a))"

section \<open>Currencies: normal forms and scales\<close>

lemma dval_ZERO [simp]: "dval ZERO = 0"
  by (simp add: ZERO_def dval_def)

lemma supported_upper: "c \<in> set SUPPORTED_CURRENCIES \<Longrightarrow> py_upper (py_strip c) = c \<and> length c = 3 \<and> py_isalpha c"
  by (auto simp: SUPPORTED_CURRENCIES_def supported_currency_minor_units_def dkeys_def) (code_simp)+

lemma normalize_currency_Ok_iff:
  "normalize_currency v = Ok c \<longleftrightarrow>
     (\<exists>s. v = PyStr s \<and> c = py_upper (py_strip s) \<and> c \<in> set SUPPORTED_CURRENCIES)"
  using supported_upper
  by (fastforce simp: normalize_currency_def Let_def py_isalpha_def split: py_value.splits if_splits)

lemma normalize_currency_error:
  "normalize_currency v = Inl e \<Longrightarrow> exc e = MoneyValidationError"
  by (auto simp: normalize_currency_def Let_def split: py_value.splits if_splits)

lemma normalize_supported: "c \<in> set SUPPORTED_CURRENCIES \<Longrightarrow> normalize_currency (PyStr c) = Ok c"
  using supported_upper [of c] by (simp add: normalize_currency_Ok_iff)

lemma normalize_currency_idem:
  "normalize_currency v = Ok c \<Longrightarrow> normalize_currency (PyStr c) = Ok c"
  by (metis normalize_currency_Ok_iff normalize_supported)

lemma minor_units_le: "minor_units c = Ok u \<Longrightarrow> u \<le> 2"
  by (auto simp: minor_units_def result_simps supported_currency_minor_units_def split: if_splits)

lemma minor_units_supported:
  "c \<in> set SUPPORTED_CURRENCIES \<Longrightarrow> \<exists>u. minor_units c = Ok u"
  by (simp add: minor_units_def normalize_supported SUPPORTED_CURRENCIES_def dkeys_def result_simps
      flip: not_None_eq) (metis map_of_eq_None_iff not_None_eq list.set_map)

lemma minor_units_Ok_normalize: "minor_units c = Ok u \<Longrightarrow> \<exists>n. normalize_currency (PyStr c) = Ok n"
  by (auto simp: minor_units_def result_simps)

lemma minor_units_normalized:
  assumes "normalize_currency (PyStr c) = Ok n"
  shows "minor_units n = minor_units c"
  using assms normalize_currency_idem [OF assms] by (simp add: minor_units_def)

lemma dexp_grid_unit [simp]: "dexp (grid_unit u) = - int u"
  by (simp add: grid_unit_def)

lemma quantum_for_units_Ok:
  assumes "wf_context ctx" and "u \<le> 2"
  shows "dec_pow ctx TENTH u = Ok (grid_unit u)"
proof -
  have fx: "dec_fix ctx (grid_unit n) = Ok (grid_unit n)" if "n \<le> 2" for n
    using assms(1) that by (intro dec_fix_id) (auto simp: wf_context_def adjusted_def grid_unit_def)
  have "dec_pow ctx TENTH n = Ok (grid_unit n)" if "n \<le> 2" for n
    using that
  proof (induction n)
    case (Suc n)
    have "dec_mul_exact (grid_unit n) TENTH = grid_unit (Suc n)"
      by (simp add: dec_mul_exact_def grid_unit_def TENTH_def)
    with Suc show ?case by (simp add: dec_mul_def fx)
  qed (simp add: grid_unit_def)
  with assms(2) show ?thesis by blast
qed

lemma quantum_for_currency_Ok:
  "wf_context ctx \<Longrightarrow> minor_units c = Ok u \<Longrightarrow> quantum_for_currency ctx c = Ok (grid_unit u)"
  by (simp add: quantum_for_currency_def quantum_for_units_def quantum_for_units_Ok minor_units_le)


section \<open>Validation and quantization on the grid\<close>

text \<open>
  An amount passes validation exactly when it is a whole number of minor units that fits the
  context's precision.
\<close>

lemma validate_amount_finite:
  assumes "wf_context ctx" and "minor_units cur = Ok u"
  shows "validate_amount_for_currency ctx (Finite d) cur =
    rbind (dec_quantize ctx ROUND_HALF_EVEN d (grid_unit u)) (\<lambda>y.
      if dec_eq d y then Ok (Finite d)
      else raise MoneyValidationError ''sub-minor-unit precision is not accepted'')"
  using assms
  by (simp add: validate_amount_for_currency_def quantum_for_units_Ok minor_units_le py_quantize_def rbind_assoc py_eq_def)

lemma validate_amount_Ok_iff:
  assumes wf: "wf_context ctx"
  shows "validate_amount_for_currency ctx (Finite d) cur = Ok x \<longleftrightarrow>
    x = Finite d \<and> (\<exists>u. minor_units cur = Ok u \<and> grid_fits ctx u (dval d))"
proof (cases "minor_units cur")
  case (Inl e)
  then show ?thesis by (simp add: validate_amount_for_currency_def)
next
  case u: (Inr u)
  let ?q = "grid_unit u"
  have le: "u \<le> 2" using u by (rule minor_units_le)
  show ?thesis
  proof (cases "grid_fits ctx u (dval d)")
    case True
    then obtain y where "dec_quantize ctx ROUND_HALF_EVEN d ?q = Ok y" and "dval y = dval d"
      using quantize_grid [OF wf le, of d ?q] by auto
    with True u show ?thesis by (auto simp: validate_amount_finite [OF wf u] dec_eq_iff)
  next
    case False
    then have "\<not> (dec_quantize ctx ROUND_HALF_EVEN d ?q = Ok y \<and> dval d = dval y)" for y
      using quantize_Ok_grid(1) [OF wf, of ?q u ROUND_HALF_EVEN d y] by auto
    with False u show ?thesis
      by (auto simp: validate_amount_finite [OF wf u] result_simps dec_eq_iff split: if_splits)
  qed
qed

lemma quantize_for_currency_finite:
  assumes "wf_context ctx" and "minor_units cur = Ok u"
  shows "quantize_for_currency ctx r (Finite d) cur =
    rbind (dec_quantize ctx r d (grid_unit u)) (\<lambda>y. Ok (Finite y))"
  using assms
  by (simp add: quantize_for_currency_def quantum_for_units_def quantum_for_units_Ok minor_units_le py_quantize_def)


section \<open>The currency-rounding interface\<close>

text \<open>
  What the calculators rely on when they round to a currency: amounts already on the
  currency's grid are kept, every result is on the grid and within half a minor unit, and a
  tie goes away from zero.
\<close>

locale currency_rounding =
  fixes rnd :: "dcontext \<Rightarrow> dec \<Rightarrow> string \<Rightarrow> dec result"
  assumes rnd_grid:
      "wf_context ctx \<Longrightarrow> minor_units cur = Ok u \<Longrightarrow> grid_fits ctx u (dval d) \<Longrightarrow>
       \<exists>y. rnd ctx d cur = Ok y \<and> dval y = dval d"
    and rnd_fits:
      "wf_context ctx \<Longrightarrow> minor_units cur = Ok u \<Longrightarrow> rnd ctx d cur = Ok y \<Longrightarrow> grid_fits ctx u (dval y)"
    and rnd_error:
      "wf_context ctx \<Longrightarrow> minor_units cur = Ok u \<Longrightarrow> rnd ctx d cur = Ok y \<Longrightarrow>
       \<bar>dval y - dval d\<bar> \<le> 1 / (2 * 10 ^ u)"
    and rnd_half_up:
      "wf_context ctx \<Longrightarrow> minor_units cur = Ok u \<Longrightarrow> rnd ctx d cur = Ok y \<Longrightarrow> 0 \<le> dval d \<Longrightarrow>
       dval y = of_int \<lfloor>dval d * 10 ^ u + 1 / 2\<rfloor> / 10 ^ u"
begin

lemma rnd_keeps:
  assumes "wf_context ctx" "minor_units cur = Ok u" "on_grid u (dval d)" "rnd ctx d cur = Ok y"
  shows "dval y = dval d"
proof -
  have "on_grid u (dval y)" using rnd_fits assms by (auto simp: grid_fits_def)
  then obtain m n :: int where m: "dval y = of_int m / 10 ^ u" and n: "dval d = of_int n / 10 ^ u"
    using assms(3) by (auto simp: on_grid_def)
  have "\<bar>of_int m - of_int n\<bar> / (10::rat) ^ u \<le> 1 / 2 / 10 ^ u"
    using rnd_error [OF assms(1,2,4)] unfolding m n by (simp flip: diff_divide_distrib)
  then have "of_int \<bar>m - n\<bar> \<le> (1 / 2 :: rat)" by (simp only: divide_le_cancel) simp
  then have "of_int \<bar>m - n\<bar> < (1 :: rat)" by linarith
  then have "\<bar>m - n\<bar> < 1" by (simp only: of_int_less_1_iff)
  then show ?thesis using m n by simp
qed

text \<open>Subtracting one amount of the grid from a larger one and rounding is exact.\<close>

lemma sub_round:
  assumes wf: "wf_context ctx" and u: "minor_units cur = Ok u"
    and fits: "grid_fits ctx u (dval x)" "on_grid u (dval y)" and le: "0 \<le> dval y" "dval y \<le> dval x"
  obtains z w where "dec_sub ctx x y = Ok z" and "rnd ctx z cur = Ok w" and "dval w = dval x - dval y"
proof -
  have "on_grid u (dval x - dval y)" using fits by (simp add: grid_fits_def on_grid_diff)
  then have g: "grid_fits ctx u (dval x - dval y)" using le by (intro grid_fits_smaller [OF fits(1)]) auto
  then obtain z where z: "dec_sub ctx x y = Ok z" "dval z = dval x - dval y"
    using dec_sub_exactly [OF grid_fits_representable [OF g minor_units_le [OF u] wf] wf] by blast
  obtain w where "rnd ctx z cur = Ok w" "dval w = dval z" using rnd_grid [OF wf u, of z] g z(2) by auto
  then show thesis using that z by simp
qed

end

section \<open>Digits and text\<close>

definition dig_val :: "nat list \<Rightarrow> nat" where
  "dig_val ds = foldl (\<lambda>n d. 10 * n + d) 0 ds"

lemma dig_val_snoc [simp]: "dig_val (ds @ [d]) = 10 * dig_val ds + d"
  by (simp add: dig_val_def)

lemma dig_val_Nil [simp]: "dig_val [] = 0"
  by (simp add: dig_val_def)

lemma dig_val_append: "dig_val (xs @ ys) = dig_val xs * 10 ^ length ys + dig_val ys"
proof (induction ys rule: rev_induct)
  case (snoc y ys)
  then show ?case by (simp add: algebra_simps flip: append_assoc)
qed simp

lemma dig_val_zeros [simp]: "dig_val (replicate k 0) = 0"
  by (induction k) (simp_all add: dig_val_def)

lemma dig_val_digits [simp]: "dig_val (digits n) = n"
proof (induction n rule: digits.induct)
  case (1 n)
  then show ?case by (cases "n < 10") (simp_all add: digits.simps [of n] dig_val_def)
qed

lemma digits_not_Nil [simp]: "digits n \<noteq> []"
  by (subst digits.simps) simp

lemma last_digits: "last (digits n) = n mod 10"
  by (subst digits.simps) simp

lemma butlast_digits: "10 \<le> n \<Longrightarrow> butlast (digits n) = digits (n div 10)"
  by (subst digits.simps) simp

lemma digits_all_zero_iff: "list_all (\<lambda>x. x = 0) (digits c) \<longleftrightarrow> c = 0"
proof
  assume "list_all (\<lambda>x. x = 0) (digits c)"
  then have "digits c = replicate (length (digits c)) 0"
    by (intro replicate_eqI) (auto simp: list_all_iff)
  then have "dig_val (digits c) = dig_val (replicate (length (digits c)) 0)" by (rule arg_cong)
  then show "c = 0" by simp
qed (simp add: digits.simps)

lemma nat_of_string_digits:
  assumes "\<forall>d \<in> set ds. d < 10"
  shows "nat_of_string (string_of_digits ds) = dig_val ds"
  using assms
proof (induction ds rule: rev_induct)
  case (snoc d ds)
  then show ?case by (simp add: nat_of_string_def string_of_digits_def)
qed (simp add: nat_of_string_def string_of_digits_def)

lemma string_of_digits_props [simp]:
  "string_of_digits (xs @ ys) = string_of_digits xs @ string_of_digits ys"
  "length (string_of_digits ds) = length ds"
  "string_of_digits [] = []"
  "string_of_digits ds = [] \<longleftrightarrow> ds = []"
  by (simp_all add: string_of_digits_def)

lemma string_of_zeros: "replicate k (CHR ''0'') = string_of_digits (replicate k 0)"
  by (simp add: string_of_digits_def char_of_digit_def) code_simp

lemma string_of_digits_all:
  "\<forall>d \<in> set ds. d < 10 \<Longrightarrow> list_all char_digit (string_of_digits ds)"
  by (simp add: string_of_digits_def list_all_iff)

lemma take_string_of_digits:
  "take k (string_of_digits ds) = string_of_digits (take k ds)"
  "drop k (string_of_digits ds) = string_of_digits (drop k ds)"
  by (simp_all add: string_of_digits_def take_map drop_map)


section \<open>The normal form of a decimal\<close>

text \<open>A positive coefficient without its trailing zeros, and how many there are.\<close>

definition tz_count :: "nat \<Rightarrow> nat" where
  "tz_count c = length (takeWhile (\<lambda>x. x = 0) (rev (digits c)))"

lemma tz_count_step:
  assumes "0 < c"
  shows "tz_count c = (if c mod 10 = 0 then Suc (tz_count (c div 10)) else 0)"
proof (cases "c < 10")
  case True
  then show ?thesis using assms by (simp add: tz_count_def digits.simps [of c])
next
  case False
  then show ?thesis by (simp add: tz_count_def digits.simps [of c])
qed

lemma tz_count_props:
  assumes "0 < c"
  shows "10 ^ tz_count c dvd c \<and> c div 10 ^ tz_count c mod 10 \<noteq> 0 \<and>
    take (length (digits c) - tz_count c) (digits c) = digits (c div 10 ^ tz_count c)"
  using assms
proof (induction c rule: less_induct)
  case (less c)
  show ?case
  proof (cases "c mod 10 = 0")
    case False
    then show ?thesis using less.prems by (simp add: tz_count_step)
  next
    case True
    let ?c = "c div 10"
    from True less.prems have c: "c = 10 * ?c" and pos: "0 < ?c" and ge: "10 \<le> c" by auto
    have tz: "tz_count c = Suc (tz_count ?c)" using True less.prems by (simp add: tz_count_step)
    have IH: "10 ^ tz_count ?c dvd ?c" "?c div 10 ^ tz_count ?c mod 10 \<noteq> 0"
      "take (length (digits ?c) - tz_count ?c) (digits ?c) = digits (?c div 10 ^ tz_count ?c)"
      using less.IH [of ?c] less.prems pos by auto
    have dv: "c div 10 ^ tz_count c = ?c div 10 ^ tz_count ?c"
      using tz by (simp add: div_mult2_eq)
    have "10 ^ tz_count c dvd c" unfolding tz using IH(1) c by (metis dvd_triv_left mult_dvd_mono power_Suc dvd_refl)
    moreover have "digits c = digits ?c @ [0]" using ge True by (subst digits.simps) simp
    ultimately show ?thesis using IH dv tz by simp
  qed
qed

text \<open>A value has one normal form: a coefficient not divisible by ten, and its exponent.\<close>

lemma normal_form_unique:
  fixes c c' :: nat
  assumes "of_nat c * (10::rat) powi e = of_nat c' * 10 powi e'"
    and "c mod 10 \<noteq> 0" and "c' mod 10 \<noteq> 0"
  shows "c = c' \<and> e = e'"
proof -
  have wlog: "c = c' \<and> e = e'"
    if eq: "of_nat c * (10::rat) powi e = of_nat c' * 10 powi e'" and le: "e \<le> e'" and nd: "c mod 10 \<noteq> 0"
    for c c' :: nat and e e'
  proof -
    have "of_nat c * (10::rat) powi e = of_nat (c' * 10 ^ nat (e' - e)) * 10 powi e"
      using eq ten_powi_split [OF le] by simp
    then have "(of_nat c :: rat) = of_nat (c' * 10 ^ nat (e' - e))" by simp
    then have c: "c = c' * 10 ^ nat (e' - e)" by (simp only: of_nat_eq_iff)
    then have "nat (e' - e) = 0" using nd by (cases "nat (e' - e)") auto
    with c le show ?thesis by simp
  qed
  show ?thesis using wlog [of c e c' e'] wlog [of c' e' c e] assms by (cases "e \<le> e'") auto
qed

text \<open>The plain text of a coefficient and an exponent, as the canonical serializer lays it out.\<close>

definition plain_text :: "nat \<Rightarrow> int \<Rightarrow> string" where
  "plain_text c e =
     (let body = string_of_digits (digits c); len = int (ndigits c) in
      if 0 < e then body @ replicate (nat e) (CHR ''0'')
      else if e < 0 then
        (if len \<le> - e then ''0.'' @ replicate (nat (- e - len)) (CHR ''0'') @ body
         else take (nat (len + e)) body @ ''.'' @ drop (nat (len + e)) body)
      else body)"

definition plain_length :: "bool \<Rightarrow> nat \<Rightarrow> int \<Rightarrow> int" where
  "plain_length s c e =
     (let sign = (if s then 1 else 0); len = int (ndigits c) in
      if 0 \<le> e then sign + len + e else if len \<le> - e then sign + 2 - e else sign + len + 1)"

lemma canonical_decimal_str_normal:
  assumes nz: "dcoeff d \<noteq> 0"
  obtains c e where "c mod 10 \<noteq> 0" and "of_nat c * 10 powi e = \<bar>dval d\<bar>"
    and "canonical_decimal_str (Finite d) =
      (if MAX_CANONICAL_DECIMAL_CHARS < plain_length (dsign d) c e
       then raise MoneyValidationError ''canonical_decimal_str exceeds maximum plain-decimal length''
       else Ok ((if dsign d then ''-'' else []) @ plain_text c e))"
proof
  let ?tz = "tz_count (dcoeff d)"
  let ?c = "dcoeff d div 10 ^ ?tz" and ?e = "dexp d + int ?tz"
  note tz = tz_count_props [of "dcoeff d", OF neq0_conv [THEN iffD1, OF nz]]
  show "?c mod 10 \<noteq> 0" using tz by blast
  have "(of_nat (dcoeff d) :: rat) = of_nat (?c * 10 ^ ?tz)" using tz by simp
  then show "of_nat ?c * 10 powi ?e = \<bar>dval d\<bar>"
    by (simp add: abs_dval ten_powi_add)
  have ds: "(if ?tz \<noteq> 0 then take (length (digits (dcoeff d)) - ?tz) (digits (dcoeff d)) else digits (dcoeff d))
      = digits ?c" using tz by auto
  have "\<not> list_all (\<lambda>x. x = 0) (digits (dcoeff d))"
    using nz by (simp only: digits_all_zero_iff not_False_eq_True)
  then show "canonical_decimal_str (Finite d) =
      (if MAX_CANONICAL_DECIMAL_CHARS < plain_length (dsign d) ?c ?e
       then raise MoneyValidationError ''canonical_decimal_str exceeds maximum plain-decimal length''
       else Ok ((if dsign d then ''-'' else []) @ plain_text ?c ?e))"
    unfolding canonical_decimal_str_def tz_count_def [symmetric] py_decimal.case Let_def ds
    by (simp add: plain_text_def plain_length_def Let_def)
qed

section \<open>Reading canonical text back\<close>

lemma not_digit_chars [simp]:
  "\<not> char_digit (CHR ''.'')" "\<not> char_digit (CHR ''-'')" "\<not> char_digit (CHR ''+'')"
  "\<not> char_digit (CHR ''_'')" "\<not> char_digit (CHR ''e'')" "\<not> char_digit (CHR ''E'')"
  "\<not> is_space (CHR ''-'')" "\<not> is_space (CHR ''.'')" "char_digit (CHR ''0'')"
  by code_simp+

lemma takeWhile_all: "list_all P xs \<Longrightarrow> takeWhile P (xs @ ys) = xs @ takeWhile P ys"
  and dropWhile_all: "list_all P xs \<Longrightarrow> dropWhile P (xs @ ys) = dropWhile P ys"
  by (induction xs) auto

lemma string_of_digits_while:
  assumes "\<forall>d\<in>set ds. d < 10"
  shows "takeWhile char_digit (string_of_digits ds) = string_of_digits ds"
    and "dropWhile char_digit (string_of_digits ds) = []"
  using string_of_digits_all [OF assms] by (auto simp: list_all_iff takeWhile_eq_all_conv)

lemma parse_number_integer:
  assumes "\<forall>d \<in> set ip. d < 10" and "ip \<noteq> []" and "exact_range (Dec neg (dig_val ip) 0)"
  shows "parse_number neg (string_of_digits ip) = Some (Dec neg (dig_val ip) 0)"
  using assms by (simp add: parse_number_def Let_def parse_exponent_def nat_of_string_digits
      string_of_digits_while)

lemma parse_number_fraction:
  assumes "\<forall>d \<in> set ip. d < 10" "\<forall>d \<in> set fp. d < 10" and "ip \<noteq> []"
    and "exact_range (Dec neg (dig_val (ip @ fp)) (- int (length fp)))"
  shows "parse_number neg (string_of_digits ip @ ''.'' @ string_of_digits fp)
    = Some (Dec neg (dig_val (ip @ fp)) (- int (length fp)))"
proof -
  have "nat_of_string (string_of_digits ip @ string_of_digits fp) = dig_val (ip @ fp)"
    using assms(1,2) nat_of_string_digits [of "ip @ fp"] by auto
  moreover have "takeWhile char_digit (string_of_digits ip @ ''.'' @ string_of_digits fp) = string_of_digits ip"
    and "dropWhile char_digit (string_of_digits ip @ ''.'' @ string_of_digits fp) = ''.'' @ string_of_digits fp"
    using string_of_digits_all [OF assms(1)] by (simp_all add: takeWhile_all dropWhile_all)
  ultimately show ?thesis
    using assms by (simp add: parse_number_def Let_def parse_exponent_def string_of_digits_while)
qed

text \<open>The text starts and ends with a digit and holds only digits and at most one point.\<close>

definition plain_chars :: "string \<Rightarrow> bool" where
  "plain_chars s \<longleftrightarrow> s \<noteq> [] \<and> char_digit (hd s) \<and> char_digit (last s) \<and>
     (\<forall>x \<in> set s. char_digit x \<or> x = CHR ''.'')"

lemma digits_string [simp]:
  "\<forall>x \<in> set (string_of_digits (digits c)). char_digit x"
  using string_of_digits_all [of "digits c"] digits_less by (auto simp: list_all_iff)

lemma plain_text_chars: "plain_chars (plain_text c e)"
proof -
  let ?b = "string_of_digits (digits c)"
  have ne: "?b \<noteq> []" by simp
  have all: "\<forall>x \<in> set ?b. char_digit x" by simp
  have hl: "char_digit (hd ?b)" "char_digit (last ?b)" using all ne hd_in_set last_in_set by blast+
  have mid: "char_digit (hd (take k ?b))" if "0 < k" for k using that hl(1) ne by (simp add: hd_take)
  have lst: "drop k ?b \<noteq> [] \<Longrightarrow> char_digit (last (drop k ?b))" for k using hl(2) by simp
  show ?thesis
    using ne all hl mid lst
    by (auto simp: plain_chars_def plain_text_def Let_def hd_append last_append dest: in_set_takeD in_set_dropD)
qed

text \<open>Reading the plain text back gives the number it was printed from.\<close>

lemma plain_text_parse:
  assumes c: "0 < c" and len: "plain_length neg c e \<le> MAX_CANONICAL_DECIMAL_CHARS"
  shows "\<exists>d. parse_number neg (plain_text c e) = Some d \<and> dsign d = neg
    \<and> of_nat (dcoeff d) * (10::rat) powi dexp d = of_nat c * 10 powi e"
proof -
  have lt: "\<forall>d \<in> set (digits c). d < 10" using digits_less by blast
  have bound: "int (ndigits c) + \<bar>e\<bar> \<le> 3000000"
    using len by (auto simp: plain_length_def MAX_CANONICAL_DECIMAL_CHARS_def Let_def split: if_splits)
  consider (pos) "0 < e" | (zero) "e = 0" | (low) "e < 0" "int (ndigits c) \<le> - e"
    | (mid) "e < 0" "- e < int (ndigits c)" by linarith
  then show ?thesis
  proof cases
    case pos
    let ?ip = "digits c @ replicate (nat e) 0"
    have dv: "dig_val ?ip = c * 10 ^ nat e" by (simp add: dig_val_append)
    have "exact_range (Dec neg (dig_val ?ip) 0)"
      using c pos bound by (simp add: dv exact_range_def adjusted_def ndigits_mult_power)
    then have "parse_number neg (string_of_digits ?ip) = Some (Dec neg (dig_val ?ip) 0)"
      using lt by (intro parse_number_integer) auto
    moreover have "plain_text c e = string_of_digits ?ip"
      using pos by (simp add: plain_text_def string_of_zeros Let_def)
    ultimately show ?thesis using pos dv by (simp add: power_int_def)
  next
    case zero
    have "exact_range (Dec neg (dig_val (digits c)) 0)"
      using c bound by (simp add: exact_range_def adjusted_def)
    then show ?thesis using zero lt
      by (simp add: plain_text_def parse_number_integer [OF lt])
  next
    case low
    let ?fp = "replicate (nat (- e - int (ndigits c))) 0 @ digits c"
    have zero_string: "string_of_digits [0] = ''0''" by code_simp
    have z: "dig_val [0] = 0" by (simp add: dig_val_def)
    have dv: "dig_val ([0] @ ?fp) = c" unfolding dig_val_append by (simp add: z)
    have ln: "int (length ?fp) = - e" using low by simp
    have "exact_range (Dec neg (dig_val ([0] @ ?fp)) (- int (length ?fp)))"
      unfolding dv ln using c low bound by (simp add: exact_range_def adjusted_def)
    then have "parse_number neg (string_of_digits [0] @ ''.'' @ string_of_digits ?fp)
        = Some (Dec neg (dig_val ([0] @ ?fp)) (- int (length ?fp)))"
      using lt by (intro parse_number_fraction) auto
    moreover have "plain_text c e = string_of_digits [0] @ ''.'' @ string_of_digits ?fp"
      using low by (simp add: plain_text_def Let_def string_of_zeros zero_string)
    ultimately show ?thesis unfolding dv ln by simp
  next
    case mid
    let ?k = "nat (int (ndigits c) + e)"
    let ?ip = "take ?k (digits c)" and ?fp = "drop ?k (digits c)"
    have ln: "int (length ?fp) = - e" using mid by simp
    have "exact_range (Dec neg (dig_val (?ip @ ?fp)) (- int (length ?fp)))"
      unfolding ln using c mid bound by (simp add: exact_range_def adjusted_def)
    then have "parse_number neg (string_of_digits ?ip @ ''.'' @ string_of_digits ?fp)
        = Some (Dec neg (dig_val (?ip @ ?fp)) (- int (length ?fp)))"
      using lt mid by (intro parse_number_fraction) (auto dest: in_set_takeD in_set_dropD)
    moreover have "plain_text c e = string_of_digits ?ip @ ''.'' @ string_of_digits ?fp"
      using mid by (simp add: plain_text_def Let_def take_string_of_digits)
    ultimately show ?thesis unfolding ln by simp
  qed
qed

lemma plain_not_scientific:
  assumes "\<forall>x \<in> set s. char_digit x \<or> x = CHR ''.'' \<or> x = CHR ''-''"
  shows "\<not> looks_like_scientific s"
proof -
  have "\<not> scientific_at t" if "\<forall>x \<in> set t. char_digit x \<or> x = CHR ''.'' \<or> x = CHR ''-''" for t
    using that by (cases t rule: scientific_at.cases) (auto simp: not_digit_chars)
  then show ?thesis using assms by (induction s) auto
qed

lemma signed_plain_reads:
  assumes "plain_chars t" and "s = (if neg then ''-'' else []) @ t" and "parse_number neg t = Some d"
  shows "money_decimal (PyStr s) = Ok d"
proof -
  have chars: "\<forall>x \<in> set t. char_digit x \<or> x = CHR ''.''" and ht: "char_digit (hd t)"
    and lt: "char_digit (last t)" and t: "t \<noteq> []" using assms(1) by (auto simp: plain_chars_def)
  have no_space: "\<not> is_space (CHR ''-'')" by code_simp
  have strip: "py_strip s = s"
    using t ht lt no_space char_digit_not_space
    by (intro py_strip_id) (auto simp: assms(2) hd_append split: if_splits)
  have "filter (\<lambda>c. c \<noteq> CHR ''_'') s = s"
    using chars by (auto simp: assms(2) filter_id_conv)
  moreover have "split_sign s = (neg, t)"
    using t ht by (cases t) (auto simp: split_sign_def assms(2))
  moreover have "\<not> looks_like_scientific s"
    using chars by (intro plain_not_scientific) (auto simp: assms(2))
  moreover have "s \<noteq> []" using t by (simp add: assms(2))
  ultimately show ?thesis
    using assms(3) by (simp add: money_decimal_def decimal_of_string_def strip require_finite_def)
qed

lemma canonical_reads_back:
  assumes "canonical_decimal_str (Finite d) = Ok s"
  shows "\<exists>d'. money_decimal (PyStr s) = Ok d' \<and> dval d' = dval d"
proof (cases "dcoeff d = 0")
  case True
  then have "s = ''0''" using assms digits_all_zero_iff [of "dcoeff d"]
    by (simp add: canonical_decimal_str_def Let_def)
  moreover have "money_decimal (PyStr ''0'') = Ok (Dec False 0 0)" by code_simp
  ultimately show ?thesis using True by (simp add: dval_def)
next
  case False
  then obtain c e where c: "c mod 10 \<noteq> 0" "of_nat c * 10 powi e = \<bar>dval d\<bar>"
    and eq: "canonical_decimal_str (Finite d) =
      (if MAX_CANONICAL_DECIMAL_CHARS < plain_length (dsign d) c e
       then raise MoneyValidationError ''canonical_decimal_str exceeds maximum plain-decimal length''
       else Ok ((if dsign d then ''-'' else []) @ plain_text c e))"
    by (rule canonical_decimal_str_normal)
  have s: "s = (if dsign d then ''-'' else []) @ plain_text c e"
    and len: "plain_length (dsign d) c e \<le> MAX_CANONICAL_DECIMAL_CHARS"
    using assms eq by (auto split: if_splits)
  have "0 < c" using c(1) by (cases c) auto
  then obtain d' where d': "parse_number (dsign d) (plain_text c e) = Some d'" "dsign d' = dsign d"
    "of_nat (dcoeff d') * (10::rat) powi dexp d' = of_nat c * 10 powi e"
    using plain_text_parse [OF _ len] by blast
  have "money_decimal (PyStr s) = Ok d'" using signed_plain_reads [OF plain_text_chars s d'(1)] .
  moreover have "\<bar>dval d'\<bar> = \<bar>dval d\<bar>" using d'(3) c(2) by (simp add: abs_dval)
  then have "dval d' = dval d" using d'(2,3) c(2) abs_dval [of d] by (simp add: dval_def)
  ultimately show ?thesis by blast
qed

lemma canonical_decimal_str_cong:
  assumes "dval d = dval d'"
  shows "canonical_decimal_str (Finite d) = canonical_decimal_str (Finite d')"
proof (cases "dcoeff d = 0")
  case True
  then have "dval d = 0" by (simp only: dval_eq_0_iff)
  then have "dcoeff d' = 0" using assms by (metis dval_eq_0_iff)
  with True show ?thesis using digits_all_zero_iff [of 0] by (simp add: canonical_decimal_str_def Let_def)
next
  case False
  then have nz: "dval d \<noteq> 0" by (simp only: dval_eq_0_iff not_False_eq_True)
  then have False': "dcoeff d' \<noteq> 0" using assms by (metis dval_eq_0_iff)
  have sg: "dsign d = dsign d'" using nz assms dval_less_0_iff [of d] dval_less_0_iff [of d'] False False' by auto
  obtain c e where c: "c mod 10 \<noteq> 0" "of_nat c * 10 powi e = \<bar>dval d\<bar>"
    and eq: "canonical_decimal_str (Finite d) =
      (if MAX_CANONICAL_DECIMAL_CHARS < plain_length (dsign d) c e
       then raise MoneyValidationError ''canonical_decimal_str exceeds maximum plain-decimal length''
       else Ok ((if dsign d then ''-'' else []) @ plain_text c e))"
    using False by (rule canonical_decimal_str_normal)
  obtain c' e' where c': "c' mod 10 \<noteq> 0" "of_nat c' * 10 powi e' = \<bar>dval d'\<bar>"
    and eq': "canonical_decimal_str (Finite d') =
      (if MAX_CANONICAL_DECIMAL_CHARS < plain_length (dsign d') c' e'
       then raise MoneyValidationError ''canonical_decimal_str exceeds maximum plain-decimal length''
       else Ok ((if dsign d' then ''-'' else []) @ plain_text c' e'))"
    using False' by (rule canonical_decimal_str_normal)
  have "c = c' \<and> e = e'" using c c' assms by (intro normal_form_unique) simp_all
  then show ?thesis using eq eq' sg by simp
qed

section \<open>Arithmetic of amounts\<close>

text \<open>Rounding to a context never takes a number below its leading power of ten.\<close>

lemma dec_fix_lower:
  assumes fx: "dec_fix ctx d = Ok d'" and nz: "dcoeff d \<noteq> 0" and wf: "wf_context ctx"
    and low: "Etiny ctx \<le> adjusted d"
  shows "10 powi adjusted d \<le> \<bar>dval d'\<bar>"
proof -
  let ?n = "ndigits (dcoeff d)"
  define emin where "emin = max (int ?n + dexp d - int (prec ctx)) (Etiny ctx)"
  show ?thesis
  proof (cases "dexp d < emin")
    case False
    then have "d' = d" using dec_fix_kept [OF fx nz] by (simp add: emin_def)
    then show ?thesis using abs_dval_bounds(1) [OF nz] by simp
  next
    case True
    let ?k = "nat (emin - dexp d)"
    have p: "0 < prec ctx" using wf by (simp add: wf_context_def)
    have k: "?k \<le> ?n - 1" using True p low by (auto simp: emin_def adjusted_def)
    have "10 ^ (?n - 1) \<le> dcoeff d" using ndigits_ge [of "dcoeff d"] nz by simp
    then have "10 ^ (?n - 1 - ?k) * 10 ^ ?k \<le> dcoeff d" 
      by (simp only: le_add_diff_inverse2 [OF k] flip: power_add)
    then have "10 ^ (?n - 1 - ?k) \<le> dcoeff d div 10 ^ ?k" by (simp add: less_eq_div_iff_mult_less_eq)
    then have "10 ^ (?n - 1 - ?k) \<le> round_shift ROUND_HALF_EVEN ?k (dcoeff d)"
      by (simp add: round_shift_def Let_def)
    then have le: "(10::rat) ^ (?n - 1 - ?k) \<le> of_nat (round_shift ROUND_HALF_EVEN ?k (dcoeff d))"
      by (metis of_nat_le_iff of_nat_numeral of_nat_power)
    have "(10::rat) powi adjusted d = 10 ^ (?n - 1 - ?k) * 10 powi emin"
    proof -
      have "adjusted d = int (?n - 1 - ?k) + emin"
        using True k ndigits_pos [of "dcoeff d"] by (simp add: adjusted_def)
      then show ?thesis by (simp add: power_int_add)
    qed
    also have "\<dots> \<le> of_nat (round_shift ROUND_HALF_EVEN ?k (dcoeff d)) * 10 powi emin"
      using le by (intro mult_right_mono) simp_all
    also have "\<dots> = \<bar>dval d'\<bar>"
      using dec_fix_rounded [OF fx nz p emin_def True] by (simp add: abs_dval)
    finally show ?thesis .
  qed
qed

text \<open>Rounding does not bring a number back below the bound of the grid.\<close>

lemma dec_fix_big:
  assumes fx: "dec_fix ctx d = Ok d'" and wf: "wf_context ctx" and u: "u \<le> 2"
    and big: "10 ^ prec ctx \<le> \<bar>dval d\<bar> * 10 ^ u"
  shows "10 ^ prec ctx \<le> \<bar>dval d'\<bar> * 10 ^ u"
proof -
  have eq: "10 ^ prec ctx \<le> x * 10 ^ u \<longleftrightarrow> 10 powi (int (prec ctx) - int u) \<le> x" for x :: rat
    by (simp add: power_int_diff field_simps)
  have "\<bar>dval d\<bar> \<noteq> 0" using big by (metis mult_zero_left not_le zero_less_numeral zero_less_power)
  then have nz: "dcoeff d \<noteq> 0" by (simp only: abs_eq_0 dval_eq_0_iff not_False_eq_True)
  have "10 powi (int (prec ctx) - int u) < (10::rat) powi (adjusted d + 1)"
    using big [unfolded eq] abs_dval_bounds(2) [OF nz] by linarith
  then have adj: "int (prec ctx) - int u \<le> adjusted d" by (simp add: ten_powi_less_iff)
  moreover have "Etiny ctx \<le> - 2" "1 \<le> prec ctx" using wf by (auto simp: wf_context_def)
  ultimately have "10 powi adjusted d \<le> \<bar>dval d'\<bar>"
    using u by (intro dec_fix_lower [OF fx nz wf]) linarith
  moreover have "(10::rat) powi (int (prec ctx) - int u) \<le> 10 powi adjusted d"
    using adj by (simp add: ten_powi_le_iff)
  ultimately show ?thesis unfolding eq by linarith
qed

text \<open>
  A rounded result that lies on the currency grid of the context was not rounded at all, when
  the exact result is on the grid of the minor unit.
\<close>

lemma dec_fix_grid_exact:
  assumes fx: "dec_fix ctx d = Ok d'" and wf: "wf_context ctx" and u: "u \<le> 2"
    and grid: "on_grid u (dval d)" and fits: "grid_fits ctx u (dval d')"
  shows "grid_fits ctx u (dval d) \<and> dval d' = dval d"
proof (cases "grid_fits ctx u (dval d)")
  case True
  then have "representable ctx (dval d)" using u wf by (rule grid_fits_representable)
  then show ?thesis using dec_fix_representable [OF _ wf] fx True by fastforce
next
  case False
  then have "10 ^ prec ctx \<le> \<bar>dval d\<bar> * 10 ^ u" using grid by (simp add: grid_fits_def)
  then have "10 ^ prec ctx \<le> \<bar>dval d'\<bar> * 10 ^ u" by (rule dec_fix_big [OF fx wf u])
  with fits show ?thesis by (simp add: grid_fits_def)
qed

definition wf_money :: "dcontext \<Rightarrow> money \<Rightarrow> bool" where
  "wf_money ctx m \<longleftrightarrow> currency m \<in> set SUPPORTED_CURRENCIES \<and>
     (case minor_units (currency m) of Inl _ \<Rightarrow> False | Inr u \<Rightarrow> grid_fits ctx u (dval (amount m)))"

lemma wf_money_units:
  assumes "wf_money ctx m"
  obtains u where "minor_units (currency m) = Ok u" "u \<le> 2" "grid_fits ctx u (dval (amount m))"
    "currency m \<in> set SUPPORTED_CURRENCIES"
  using assms minor_units_le by (auto simp: wf_money_def split: sum.splits)

lemma make_money_Ok_iff:
  assumes "wf_context ctx"
  shows "make_money ctx amt cur = Ok m \<longleftrightarrow>
    money_decimal amt = Ok (amount m) \<and> normalize_currency cur = Ok (currency m) \<and> wf_money ctx m"
proof -
  have "currency m \<in> set SUPPORTED_CURRENCIES" if "normalize_currency cur = Ok (currency m)"
    using that by (auto simp: normalize_currency_Ok_iff)
  then show ?thesis using assms
    by (cases m) (auto simp: make_money_def rbind_Ok_iff validate_amount_Ok_iff wf_money_def split: sum.splits)
qed

lemma make_money_finite:
  assumes "wf_context ctx" and "c \<in> set SUPPORTED_CURRENCIES" and "minor_units c = Ok u"
  shows "make_money ctx (PyDec (Finite d)) (PyStr c) = Ok m \<longleftrightarrow>
    m = \<lparr>amount = d, currency = c\<rparr> \<and> grid_fits ctx u (dval d)"
  using assms normalize_supported
  by (cases m) (auto simp: make_money_Ok_iff money_decimal_def require_finite_def wf_money_def)

text \<open>
  The arithmetic operations are a context operation whose result is wrapped again. They return
  exactly when the exact result fits the grid, and then they return it.
\<close>

lemma rewrapped:
  assumes wf: "wf_context ctx" and a: "wf_money ctx a" and u: "minor_units (currency a) = Ok u"
    and d: "dval d = v" and grid: "on_grid u v"
    and X: "X = rbind (dec_fix ctx d) (\<lambda>s. make_money ctx (PyDec (Finite s)) (PyStr (currency a)))"
  shows "((\<exists>m. X = Ok m) \<longleftrightarrow> grid_fits ctx u v) \<and>
    (\<forall>m. X = Ok m \<longrightarrow> wf_money ctx m \<and> currency m = currency a \<and> dval (amount m) = v)"
proof -
  have c: "currency a \<in> set SUPPORTED_CURRENCIES" using a by (simp add: wf_money_def)
  have u2: "u \<le> 2" using u by (rule minor_units_le)
  note exact = dec_fix_grid_exact [OF _ wf u2, of d, unfolded d, OF _ grid]
  have X_iff: "X = Ok m \<longleftrightarrow> (\<exists>s. dec_fix ctx d = Ok s \<and> m = \<lparr>amount = s, currency = currency a\<rparr>
      \<and> grid_fits ctx u (dval s))" for m
    by (simp add: X rbind_Ok_iff make_money_finite [OF wf c u])
  have "\<exists>m. X = Ok m" if fits: "grid_fits ctx u v"
    using dec_fix_representable [of ctx d, unfolded d, OF grid_fits_representable [OF fits u2 wf] wf] fits
    by (auto simp: X_iff)
  moreover have "grid_fits ctx u v \<and> wf_money ctx m \<and> currency m = currency a \<and> dval (amount m) = v"
    if "X = Ok m" for m
    using that exact c u by (auto simp: X_iff wf_money_def)
  ultimately show ?thesis by blast
qed

lemma money_add_exact:
  assumes "wf_context ctx" and "wf_money ctx a" and "wf_money ctx b" and "minor_units (currency a) = Ok u"
  shows "((\<exists>m. money_add ctx a b = Ok m) \<longleftrightarrow>
            currency a = currency b \<and> grid_fits ctx u (dval (amount a) + dval (amount b)))
    \<and> (\<forall>m. money_add ctx a b = Ok m \<longrightarrow> wf_money ctx m \<and> currency m = currency a \<and>
            dval (amount m) = dval (amount a) + dval (amount b))"
proof (cases "currency a = currency b")
  case False
  then show ?thesis by (simp add: money_add_def money_same_currency_def ensure_def)
next
  case True
  have grid: "on_grid u (dval (amount a) + dval (amount b))"
    using assms True by (auto simp: wf_money_def grid_fits_def intro: on_grid_add)
  have X: "money_add ctx a b = rbind (dec_fix ctx (dec_add_exact (amount a) (amount b)))
      (\<lambda>s. make_money ctx (PyDec (Finite s)) (PyStr (currency a)))"
    using True by (simp add: money_add_def dec_add_def money_same_currency_def ensure_def)
  from rewrapped [OF assms(1,2,4) dval_add_exact grid X] True show ?thesis by simp
qed

lemma money_sub_exact:
  assumes "wf_context ctx" and "wf_money ctx a" and "wf_money ctx b" and "minor_units (currency a) = Ok u"
  shows "((\<exists>m. money_sub ctx a b = Ok m) \<longleftrightarrow>
            currency a = currency b \<and> grid_fits ctx u (dval (amount a) - dval (amount b)))
    \<and> (\<forall>m. money_sub ctx a b = Ok m \<longrightarrow> wf_money ctx m \<and> currency m = currency a \<and>
            dval (amount m) = dval (amount a) - dval (amount b))"
proof (cases "currency a = currency b")
  case False
  then show ?thesis by (simp add: money_sub_def money_same_currency_def ensure_def)
next
  case True
  have grid: "on_grid u (dval (amount a) - dval (amount b))"
    using assms True by (auto simp: wf_money_def grid_fits_def intro: on_grid_diff)
  have X: "money_sub ctx a b = rbind (dec_fix ctx (dec_add_exact (amount a) (copy_negate (amount b))))
      (\<lambda>s. make_money ctx (PyDec (Finite s)) (PyStr (currency a)))"
    using True by (simp add: money_sub_def dec_sub_def dec_add_def money_same_currency_def ensure_def)
  have d: "dval (dec_add_exact (amount a) (copy_negate (amount b))) = dval (amount a) - dval (amount b)" by simp
  from rewrapped [OF assms(1,2,4) d grid X] True show ?thesis by simp
qed

lemma money_neg_exact:
  assumes "wf_context ctx" and "wf_money ctx a"
  shows "\<exists>m. money_neg ctx a = Ok m \<and> wf_money ctx m \<and> currency m = currency a \<and>
    dval (amount m) = - dval (amount a)"
proof -
  obtain u where u: "minor_units (currency a) = Ok u" "grid_fits ctx u (dval (amount a))"
    using assms(2) by (rule wf_money_units)
  let ?d = "if dcoeff (amount a) = 0 then copy_abs (amount a) else copy_negate (amount a)"
  have d: "dval ?d = - dval (amount a)" by (simp add: dval_def copy_abs_def copy_negate_def)
  have X: "money_neg ctx a = rbind (dec_fix ctx ?d)
      (\<lambda>s. make_money ctx (PyDec (Finite s)) (PyStr (currency a)))"
    by (simp add: money_neg_def dec_neg_def)
  have fits: "grid_fits ctx u (- dval (amount a))" using u(2) by simp
  then have "on_grid u (- dval (amount a))" by (simp add: grid_fits_def)
  from rewrapped [OF assms u(1) d this X] fits show ?thesis by blast
qed

lemma money_abs_exact:
  assumes "wf_context ctx" and "wf_money ctx a"
  shows "\<exists>m. money_abs ctx a = Ok m \<and> wf_money ctx m \<and> currency m = currency a \<and>
    dval (amount m) = \<bar>dval (amount a)\<bar>"
proof -
  obtain u where u: "minor_units (currency a) = Ok u" "grid_fits ctx u (dval (amount a))"
    using assms(2) by (rule wf_money_units)
  have fits: "grid_fits ctx u \<bar>dval (amount a)\<bar>" using u(2) by (cases "0 \<le> dval (amount a)") simp_all
  have d: "dval (copy_abs (amount a)) = \<bar>dval (amount a)\<bar>" by simp
  have X: "money_abs ctx a = rbind (dec_fix ctx (copy_abs (amount a)))
      (\<lambda>s. make_money ctx (PyDec (Finite s)) (PyStr (currency a)))"
    by (simp add: money_abs_def dec_abs_def)
  have "on_grid u \<bar>dval (amount a)\<bar>" using fits by (simp add: grid_fits_def)
  from rewrapped [OF assms u(1) d this X] fits show ?thesis by blast
qed

text \<open>The grid predicate as a computation on fractions, for evaluation.\<close>

lemma on_grid_code [code]: "on_grid u x \<longleftrightarrow> of_int \<lfloor>x * 10 ^ u\<rfloor> = x * 10 ^ u"
proof
  assume "on_grid u x"
  then show "of_int \<lfloor>x * 10 ^ u\<rfloor> = x * 10 ^ u" by (auto simp: on_grid_def)
next
  assume eq: "of_int \<lfloor>x * 10 ^ u\<rfloor> = x * 10 ^ u"
  have "on_grid u (of_int \<lfloor>x * 10 ^ u\<rfloor> / 10 ^ u)" by (rule on_grid_of_int)
  then show "on_grid u x" by (simp only: eq) simp
qed


section \<open>Properties of the money module\<close>

text \<open>
  C1 (canonical text). When \<open>canonical_decimal_str\<close> returns a text for a finite decimal, parsing
  that text with \<open>money_decimal\<close> gives back the same number, and a finite decimal has that text
  exactly when it has the same value: the text is a faithful, representation-independent key.
\<close>

theorem canonical_text_round_trip:
  assumes "canonical_decimal_str (Finite d) = Ok s"
  shows "(\<exists>d'. money_decimal (PyStr s) = Ok d' \<and> dval d' = dval d)
    \<and> (\<forall>d2. canonical_decimal_str (Finite d2) = Ok s \<longleftrightarrow> dval d2 = dval d)"
proof -
  have "dval d2 = dval d" if "canonical_decimal_str (Finite d2) = Ok s" for d2
    using canonical_reads_back [OF assms] canonical_reads_back [OF that] by auto
  moreover have "canonical_decimal_str (Finite d2) = Ok s" if "dval d2 = dval d" for d2
    using canonical_decimal_str_cong [OF that] assms by simp
  ultimately show ?thesis using canonical_reads_back [OF assms] by blast
qed

theorem canonical_text_round_trip_witness:
  "canonical_decimal_str (Finite (Dec True 1250 (- 3))) = Ok ''-1.25'' \<and>
   (\<exists>d'. money_decimal (PyStr ''-1.25'') = Ok d' \<and> dval d' = dval (Dec True 1250 (- 3)))"
proof -
  have "canonical_decimal_str (Finite (Dec True 1250 (- 3))) = Ok ''-1.25''" by code_simp
  with canonical_text_round_trip [OF this] show ?thesis by simp
qed

text \<open>
  C2 (amount validation). For a well-formed context, \<open>validate_amount_for_currency\<close> accepts a
  finite amount exactly when the currency is supported and the amount is a whole number of its
  minor units with no more digits than the context precision, and it returns the amount unchanged.
\<close>

theorem validate_amount_accepts:
  assumes "wf_context ctx"
  shows "validate_amount_for_currency ctx (Finite d) cur = Ok x \<longleftrightarrow>
    x = Finite d \<and> (\<exists>u. minor_units cur = Ok u \<and> grid_fits ctx u (dval d))"
  using assms by (rule validate_amount_Ok_iff)

theorem validate_amount_accepts_witness:
  "validate_amount_for_currency default_context (Finite (Dec False 1050 (- 2))) ''SGD''
     = Ok (Finite (Dec False 1050 (- 2))) \<and>
   (\<exists>u. minor_units ''SGD'' = Ok u \<and> grid_fits default_context u (dval (Dec False 1050 (- 2))))"
proof -
  have wf: "wf_context default_context" by code_simp
  have "validate_amount_for_currency default_context (Finite (Dec False 1050 (- 2))) ''SGD''
     = Ok (Finite (Dec False 1050 (- 2)))" by code_simp
  with validate_amount_accepts [OF wf] show ?thesis by blast
qed

text \<open>
  C3 (exact addition and subtraction). On well-formed \<open>Money\<close> values, \<open>+\<close> and \<open>-\<close> return exactly
  when the currencies agree and the exact result fits the minor-unit grid of the context; the
  result is then well-formed, of the same currency and exactly the sum or difference.
\<close>

theorem money_add_sub_exact:
  assumes "wf_context ctx" and "wf_money ctx a" and "wf_money ctx b" and "minor_units (currency a) = Ok u"
  shows "((\<exists>m. money_add ctx a b = Ok m) \<longleftrightarrow>
            currency a = currency b \<and> grid_fits ctx u (dval (amount a) + dval (amount b)))
    \<and> (\<forall>m. money_add ctx a b = Ok m \<longrightarrow> wf_money ctx m \<and> currency m = currency a \<and>
            dval (amount m) = dval (amount a) + dval (amount b))
    \<and> ((\<exists>m. money_sub ctx a b = Ok m) \<longleftrightarrow>
            currency a = currency b \<and> grid_fits ctx u (dval (amount a) - dval (amount b)))
    \<and> (\<forall>m. money_sub ctx a b = Ok m \<longrightarrow> wf_money ctx m \<and> currency m = currency a \<and>
            dval (amount m) = dval (amount a) - dval (amount b))"
  using money_add_exact [OF assms] money_sub_exact [OF assms] by blast

theorem money_add_sub_exact_witness:
  "\<exists>m. money_add default_context \<lparr>amount = Dec False 1050 (- 2), currency = ''SGD''\<rparr>
      \<lparr>amount = Dec False 25 (- 1), currency = ''SGD''\<rparr> = Ok m \<and> dval (amount m) = 13"
proof -
  let ?a = "\<lparr>amount = Dec False 1050 (- 2), currency = ''SGD''\<rparr>"
  let ?b = "\<lparr>amount = Dec False 25 (- 1), currency = ''SGD''\<rparr>"
  have h: "wf_context default_context" "wf_money default_context ?a" "wf_money default_context ?b"
    "minor_units (currency ?a) = Ok 2" by code_simp+
  have "currency ?a = currency ?b \<and> grid_fits default_context 2 (dval (amount ?a) + dval (amount ?b))"
    by code_simp
  moreover have "dval (amount ?a) + dval (amount ?b) = 13" by code_simp
  ultimately show ?thesis using money_add_sub_exact [OF h] by metis
qed

section \<open>Observed behaviours\<close>

text \<open>A number with an exponent is accepted when no digit stands right before the letter.\<close>

lemma money_decimal_accepts_exponent: "money_decimal (PyStr ''1.e5'') = Ok (Dec False 1 5)"
  by code_simp

text \<open>
  An amount with more minor-unit digits than the context precision is refused with the decimal
  module's own exception, which is not a money validation error.
\<close>

lemma validate_amount_leaks_invalid_operation:
  "\<exists>m. validate_amount_for_currency default_context (Finite (Dec False 1 30)) ''SGD''
     = raise InvalidOperation m \<and> \<not> isinstance_exc InvalidOperation MoneyValidationError"
proof -
  have "validate_amount_for_currency default_context (Finite (Dec False 1 30)) ''SGD''
     = raise InvalidOperation ''quantize result has too many digits for current context''" by code_simp
  moreover have "\<not> isinstance_exc InvalidOperation MoneyValidationError" by code_simp
  ultimately show ?thesis by blast
qed

end
