(* ===== verification/Receipt_Allocation.thy ===== *)
theory Receipt_Allocation
  imports Money
begin

text \<open>
  Stages A and B of the receipt calculator,
  \<open>finance_core/calculators/receipt_split_calculator.py\<close>: the exact reconciliation of unrounded
  shares with the authoritative total, the allocation of minor units with its input checks and
  remainder bounds, the validation of monetary input, and the service charge computed from a
  rate. Participants are strings and a share map is a dictionary from participants to decimals.
\<close>

section \<open>Rounding and ranking\<close>

text \<open>Quantizing a finite decimal gives a finite decimal.\<close>

definition round_for_currency :: "dcontext \<Rightarrow> dec \<Rightarrow> string \<Rightarrow> dec result" where
  "round_for_currency ctx value cur =
     rbind (quantize_for_currency ctx ROUND_HALF_UP (Finite value) cur) require_finite"

text \<open>
  \<open>sorted(..., key=lambda e: (-amount, participant))\<close>. The key's first part is computed by the
  context's unary minus, tuples compare lexicographically and decimals by value; \<^const>\<open>sort_key\<close>
  is stable, as Python's sort is.
\<close>

definition ranked_by_amount :: "dcontext \<Rightarrow> (string \<times> dec) list \<Rightarrow> (string \<times> dec) list result" where
  "ranked_by_amount ctx entries =
     rbind (mapM (\<lambda>(p, amt). rbind (dec_neg ctx amt) (\<lambda>k. Ok ((dval k, p), (p, amt)))) entries)
       (\<lambda>keyed. Ok (map snd (sort_key fst keyed)))"


section \<open>Stage A: exact reconciliation\<close>

definition STAGE_A_EPSILON :: dec where
  "STAGE_A_EPSILON = Dec False 1 (- 18)"

definition validate_exact_reconciliation ::
  "dcontext \<Rightarrow> (string, dec) dict \<Rightarrow> dec \<Rightarrow> unit result" where
  "validate_exact_reconciliation ctx exact_shares exact_total =
     rbind (dec_sum ctx ZERO (dvalues exact_shares)) (\<lambda>exact_sum.
     rbind (dec_sub ctx exact_total exact_sum) (\<lambda>d.
     rbind (dec_abs ctx d) (\<lambda>diff.
       if dec_lt STAGE_A_EPSILON diff then
         raise ValueError ''exact calculated share total does not equal authoritative net paid''
       else Ok ())))"


section \<open>Stage B: minor-unit allocation\<close>

definition to_minor_units :: "dcontext \<Rightarrow> dec \<Rightarrow> int \<Rightarrow> dec result" where
  "to_minor_units ctx value factor = dec_mul ctx value (dec_of_int factor)"

definition require_share :: "py_decimal \<Rightarrow> unit result" where
  "require_share share =
     (case share of
        Finite d \<Rightarrow> if dec_lt d ZERO then raise MoneyValidationError ''Share must be non-negative'' else Ok ()
      | _ \<Rightarrow> raise MoneyValidationError ''Share must be finite'')"

definition validate_allocator_inputs ::
  "dcontext \<Rightarrow> (string, py_decimal) dict \<Rightarrow> py_decimal \<Rightarrow> string \<Rightarrow> string list \<Rightarrow> string
    \<Rightarrow> string option \<Rightarrow> unit result" where
  "validate_allocator_inputs ctx exact_shares exact_total cur participants remainder_policy payer =
     (if participants = [] then raise ValueError ''Allocation requires at least one participant''
      else if \<not> distinct participants then
        raise ValueError ''Duplicate participants are not allowed in allocation''
      else case exact_total of
        Finite tot \<Rightarrow>
          if dec_lt tot ZERO then
            raise MoneyValidationError ''Allocation total must be non-negative''
          else
            rbind (validate_amount_for_currency ctx exact_total cur) (\<lambda>_.
            rbind (mapM (\<lambda>p. require_share (dget_or exact_shares p (Finite ZERO))) participants) (\<lambda>_.
              if remainder_policy \<noteq> ''largest_remainder'' \<and> remainder_policy \<noteq> ''payer'' then
                raise ValueError ''Unsupported remainder_policy''
              else if remainder_policy = ''payer'' then
                (case payer of
                   None \<Rightarrow> raise ValueError ''payer must be provided when remainder_policy is payer''
                 | Some p \<Rightarrow> if p \<in> set participants then Ok ()
                             else raise ValueError ''Payer is not in the participant set'')
              else Ok ()))
      | _ \<Rightarrow> raise MoneyValidationError ''Allocation total must be finite'')"

definition validate_remainder_bounds :: "int \<Rightarrow> nat \<Rightarrow> string \<Rightarrow> unit result" where
  "validate_remainder_bounds remaining participant_count policy =
     (if policy = ''payer'' then
        (if int participant_count < \<bar>remaining\<bar> then
           raise ValueError ''payer remainder exceeds allowed bound''
         else Ok ())
      else if remaining < 0 then raise ValueError ''floor sum exceeds total minor units''
      else if int participant_count < remaining then
        raise ValueError ''remaining units exceeds participant count''
      else Ok ())"

text \<open>
  The loop over the participants: the base allocation in minor units (floor, or half-up for the
  payer policy), its fractional remainder, and the running sum of the bases.
\<close>

definition base_allocation :: "string \<Rightarrow> dec \<Rightarrow> int" where
  "base_allocation remainder_policy share_units =
     (if remainder_policy = ''payer'' then dec_to_int (to_integral_value ROUND_HALF_UP share_units)
      else dec_to_int share_units)"

definition base_step ::
  "dcontext \<Rightarrow> (string, py_decimal) dict \<Rightarrow> int \<Rightarrow> string
    \<Rightarrow> (string, int) dict \<times> (string, dec) dict \<times> int \<Rightarrow> string
    \<Rightarrow> ((string, int) dict \<times> (string, dec) dict \<times> int) result" where
  "base_step ctx exact_shares factor remainder_policy st p =
     (case st of (floors, remainders, sum_floors) \<Rightarrow>
        rbind (require_finite (dget_or exact_shares p (Finite ZERO))) (\<lambda>share.
        rbind (to_minor_units ctx share factor) (\<lambda>share_units.
          let base = base_allocation remainder_policy share_units in
          rbind (dec_sub ctx share_units (dec_of_int base)) (\<lambda>remainder.
            Ok (dset floors p base, dset remainders p remainder, sum_floors + base)))))"

text \<open>One more unit for the \<open>i\<close>-th participant of the ranking.\<close>

definition bump_step ::
  "(string \<times> dec) list \<Rightarrow> (string, int) dict \<Rightarrow> nat \<Rightarrow> (string, int) dict result" where
  "bump_step ranked floors i =
     (if i < length ranked then
        rbind (dlookup floors (fst (ranked ! i))) (\<lambda>n. Ok (dset floors (fst (ranked ! i)) (n + 1)))
      else raise IndexError ''list index out of range'')"

definition distribute_remaining ::
  "dcontext \<Rightarrow> string \<Rightarrow> string option \<Rightarrow> int \<Rightarrow> (string, int) dict \<Rightarrow> (string, dec) dict
    \<Rightarrow> (string, int) dict result" where
  "distribute_remaining ctx remainder_policy payer remaining floors remainders =
     (if remainder_policy = ''payer'' then
        (case payer of
           None \<Rightarrow> raise ValueError ''payer must be provided when remainder_policy is payer''
         | Some p \<Rightarrow>
             if remaining \<noteq> 0 then
               rbind (dlookup floors p) (\<lambda>n.
                 if n + remaining < 0 then
                   raise ValueError ''Payer cannot absorb the remainder without becoming negative''
                 else Ok (dset floors p (n + remaining)))
             else Ok floors)
      else if remainder_policy = ''largest_remainder'' then
        rbind (ranked_by_amount ctx remainders) (\<lambda>ranked. foldM (bump_step ranked) floors [0..<nat remaining])
      else raise ValueError ''Unsupported remainder_policy'')"

definition from_minor_units ::
  "dcontext \<Rightarrow> int \<Rightarrow> dec \<Rightarrow> (string, int) dict \<Rightarrow> string \<Rightarrow> (string \<times> dec) result" where
  "from_minor_units ctx factor quantum floors p =
     rbind (dlookup floors p) (\<lambda>n.
     rbind (dec_div ctx (dec_of_int n) (dec_of_int factor)) (\<lambda>q.
     rbind (dec_quantize ctx ROUND_HALF_EVEN q quantum) (\<lambda>y. Ok (p, y))))"

definition allocate_minor_units ::
  "dcontext \<Rightarrow> (string, py_decimal) dict \<Rightarrow> py_decimal \<Rightarrow> string \<Rightarrow> string list \<Rightarrow> string
    \<Rightarrow> string option \<Rightarrow> (string, dec) dict result" where
  "allocate_minor_units ctx exact_shares exact_total cur participants remainder_policy payer =
     rbind (validate_allocator_inputs ctx exact_shares exact_total cur participants
              remainder_policy payer) (\<lambda>_.
     rbind (minor_units cur) (\<lambda>units.
     let factor = 10 ^ units in
     rbind (dec_pow ctx TENTH units) (\<lambda>quantum.
     rbind (require_finite exact_total) (\<lambda>tot.
     rbind (to_minor_units ctx tot factor) (\<lambda>total_units.
     rbind (foldM (base_step ctx exact_shares factor remainder_policy) ([], [], 0) participants)
       (\<lambda>(floors, remainders, sum_floors).
     let remaining = dec_to_int total_units - sum_floors in
     rbind (validate_remainder_bounds remaining (length participants) remainder_policy) (\<lambda>_.
     rbind (distribute_remaining ctx remainder_policy payer remaining floors remainders) (\<lambda>floors'.
     rbind (mapM (from_minor_units ctx factor quantum floors') participants) (\<lambda>res.
     rbind (dec_sum ctx ZERO (dvalues res)) (\<lambda>s.
       if dec_eq s tot then Ok res
       else raise ValueError ''Minor-unit allocation did not reconcile''))))))))))"


section \<open>Authoritative monetary input\<close>

text \<open>
  \<open>money_decimal\<close> with the exception contract of the calculator: a float is a \<open>TypeError\<close>, every
  other refused value a \<open>ValueError\<close>.
\<close>

definition calculator_money :: "py_value \<Rightarrow> dec result" where
  "calculator_money value =
     (case money_decimal value of
        Ok d \<Rightarrow> Ok d
      | Inl e \<Rightarrow>
          if isinstance_exc (exc e) MoneyValidationError then
            (if value = PyFloat then raise TypeError ''Currency values must not be floats''
             else raise ValueError (msg e))
          else Inl e)"

definition authoritative_money :: "dcontext \<Rightarrow> py_value \<Rightarrow> string \<Rightarrow> sign_policy \<Rightarrow> dec result" where
  "authoritative_money ctx value cur sign_policy =
     rbind (calculator_money value) (\<lambda>amt.
     rbind (validate_amount_for_currency ctx (Finite amt) cur) (\<lambda>_.
     rbind (enforce sign_policy (Finite amt)) (\<lambda>_. Ok amt)))"

definition authoritative_service_charge_rate :: "py_value \<Rightarrow> dec result" where
  "authoritative_service_charge_rate value =
     rbind (calculator_money value) (\<lambda>rate.
       if dec_lt rate ZERO then raise MoneyValidationError ''must be non-negative''
       else if dec_le (Dec False 100 (- 2)) rate then raise MoneyValidationError ''must be less than 1.00''
       else Ok rate)"

text \<open>
  The product is computed in a context of its own, wide enough for both coefficients, which is
  widened again before the one rounding; the ambient context plays no role.
\<close>

definition quantized_service_charge_from_rate :: "dec \<Rightarrow> dec \<Rightarrow> string \<Rightarrow> dec result" where
  "quantized_service_charge_from_rate item_total rate cur =
     (let multiplication_precision =
            max 1 (length (digits (dcoeff item_total)) + length (digits (dcoeff rate)));
          ctx = context_of_prec multiplication_precision
      in rbind (dec_mul ctx item_total rate) (\<lambda>exact_product.
         rbind (minor_units cur) (\<lambda>units.
           let quantized_precision = max 1 (adjusted exact_product + int units + 2);
               ctx' = ctx\<lparr>prec := max (prec ctx) (nat quantized_precision)\<rparr>
           in round_for_currency ctx' exact_product cur)))"

section \<open>Rounding of the calculator\<close>

lemma round_for_currency_finite:
  assumes "wf_context ctx" and "minor_units cur = Ok u"
  shows "round_for_currency ctx d cur = dec_quantize ctx ROUND_HALF_UP d (grid_unit u)"
  using assms
  by (cases "dec_quantize ctx ROUND_HALF_UP d (grid_unit u)")
     (simp_all add: round_for_currency_def quantize_for_currency_finite require_finite_def)

interpretation calc: currency_rounding round_for_currency
proof
  fix ctx cur u d
  assume h: "wf_context ctx" "minor_units cur = Ok u"
  note eq = round_for_currency_finite [OF h]
  have u: "u \<le> 2" using h(2) by (rule minor_units_le)
  show "grid_fits ctx u (dval d) \<Longrightarrow> \<exists>y. round_for_currency ctx d cur = Ok y \<and> dval y = dval d"
    using quantize_grid [OF h(1) u, of d "grid_unit u" ROUND_HALF_UP] by (auto simp: eq)
  fix y
  assume y: "round_for_currency ctx d cur = Ok y"
  note grid = quantize_Ok_grid [OF h(1) dexp_grid_unit y [unfolded eq]]
  show "grid_fits ctx u (dval y)" and "\<bar>dval y - dval d\<bar> \<le> 1 / (2 * 10 ^ u)"
    using grid by blast+
  show "0 \<le> dval d \<Longrightarrow> dval y = of_int \<lfloor>dval d * 10 ^ u + 1 / 2\<rfloor> / 10 ^ u"
    using quantize_half_up [OF h(1) dexp_grid_unit y [unfolded eq]] .
qed


section \<open>Ranking\<close>

abbreviation rank_key :: "string \<times> dec \<Rightarrow> rat \<times> string" where
  "rank_key e \<equiv> (- dval (snd e), fst e)"

lemma ranked_by_amount_eq:
  assumes wf: "wf_context ctx" and rep: "\<forall>e \<in> set es. representable ctx (dval (snd e))"
  shows "ranked_by_amount ctx es = Ok (sort_key rank_key es)"
proof -
  have "mapM (\<lambda>(p, amt). rbind (dec_neg ctx amt) (\<lambda>k. Ok ((dval k, p), (p, amt)))) es
      = Ok (map (\<lambda>e. (rank_key e, e)) es)"
    using rep dec_neg_exactly [OF _ wf] by (intro mapM_eq_map) fastforce
  then show ?thesis by (simp add: ranked_by_amount_def sort_key_decorated)
qed

text \<open>
  The first entries of a ranking, taken by number, outrank every other entry.
\<close>

lemma ranked_prefix:
  assumes "i < n" and "n \<le> j" and "j < length es"
  shows "rank_key (sort_key rank_key es ! i) \<le> rank_key (sort_key rank_key es ! j)"
proof -
  have "sorted (map rank_key (sort_key rank_key es))" by (rule sorted_sort_key)
  then show ?thesis using assms sorted_nth_mono [of "map rank_key (sort_key rank_key es)" i j] by simp
qed


section \<open>The allocator's input checks\<close>

definition share_of :: "(string, py_decimal) dict \<Rightarrow> string \<Rightarrow> dec" where
  "share_of shares p = (case dget_or shares p (Finite ZERO) of Finite d \<Rightarrow> d | _ \<Rightarrow> ZERO)"

lemma require_share_Ok_iff:
  "require_share x = Ok () \<longleftrightarrow> (\<exists>d. x = Finite d \<and> 0 \<le> dval d)"
  by (auto simp: require_share_def dec_lt_iff split: py_decimal.splits)

definition shares_ok :: "(string, py_decimal) dict \<Rightarrow> string list \<Rightarrow> bool" where
  "shares_ok shares ps \<longleftrightarrow>
     (\<forall>p \<in> set ps. dget_or shares p (Finite ZERO) = Finite (share_of shares p) \<and> 0 \<le> dval (share_of shares p))"

lemma mapM_unit_Ok_iff:
  fixes f :: "'a \<Rightarrow> unit result"
  shows "(\<exists>us. mapM f xs = Ok us) \<longleftrightarrow> (\<forall>x \<in> set xs. f x = Ok ())"
  by (induction xs) (auto simp: result_simps)

lemma shares_ok_mapM:
  "(\<exists>us. mapM (\<lambda>p. require_share (dget_or shares p (Finite ZERO))) ps = Ok us) \<longleftrightarrow> shares_ok shares ps"
  unfolding mapM_unit_Ok_iff require_share_Ok_iff shares_ok_def share_of_def
  by (rule ball_cong) auto

definition policy_ok :: "string \<Rightarrow> string option \<Rightarrow> string list \<Rightarrow> bool" where
  "policy_ok policy payer ps \<longleftrightarrow>
     policy = ''largest_remainder'' \<or> policy = ''payer'' \<and> (\<exists>p \<in> set ps. payer = Some p)"

lemma validate_allocator_inputs_Ok_iff:
  assumes wf: "wf_context ctx" and u: "minor_units cur = Ok u"
  shows "validate_allocator_inputs ctx shares tot cur ps policy payer = Ok () \<longleftrightarrow>
    ps \<noteq> [] \<and> distinct ps \<and> (\<exists>t. tot = Finite t \<and> 0 \<le> dval t \<and> grid_fits ctx u (dval t)) \<and>
    shares_ok shares ps \<and> policy_ok policy payer ps"
proof (cases tot)
  case (Finite t)
  have "validate_amount_for_currency ctx (Finite t) cur = Ok x \<longleftrightarrow> x = Finite t \<and> grid_fits ctx u (dval t)" for x
    using u by (simp add: validate_amount_Ok_iff [OF wf])
  moreover have "(''payer'' :: string) \<noteq> ''largest_remainder''" by simp
  ultimately show ?thesis
    by (auto simp: Finite validate_allocator_inputs_def dec_lt_iff rbind_Ok_iff policy_ok_def
        shares_ok_mapM [symmetric] split: option.splits if_splits)
qed (simp_all add: validate_allocator_inputs_def)

section \<open>The base allocation loop\<close>

definition base_ok :: "dcontext \<Rightarrow> (string, py_decimal) dict \<Rightarrow> int \<Rightarrow> string \<Rightarrow> (string \<Rightarrow> dec)
    \<Rightarrow> (string \<Rightarrow> dec) \<Rightarrow> string \<Rightarrow> bool" where
  "base_ok ctx shares f policy su rem p \<longleftrightarrow>
     to_minor_units ctx (share_of shares p) f = Ok (su p) \<and>
     dec_sub ctx (su p) (dec_of_int (base_allocation policy (su p))) = Ok (rem p)"

lemma base_step_eq:
  assumes "shares_ok shares ps" and "p \<in> set ps"
  shows "base_step ctx shares f policy (fl, rm, s) p = Ok st' \<longleftrightarrow>
    (\<exists>su rem. base_ok ctx shares f policy su rem p \<and>
       st' = (dset fl p (base_allocation policy (su p)), dset rm p (rem p), s + base_allocation policy (su p)))"
proof -
  have "require_finite (dget_or shares p (Finite ZERO)) = Ok (share_of shares p)"
    using assms by (simp add: shares_ok_def require_finite_def)
  then show ?thesis
    by (auto simp: base_step_def base_ok_def rbind_Ok_iff Let_def intro: exI [of _ "\<lambda>_. _"])
qed

lemma base_fold_eq:
  assumes "shares_ok shares qs" and "set ps \<subseteq> set qs" and "distinct ps"
    and "\<forall>p \<in> set ps. base_ok ctx shares f policy su rem p"
  shows "foldM (base_step ctx shares f policy) ([], [], 0) ps =
    Ok (map (\<lambda>p. (p, base_allocation policy (su p))) ps, map (\<lambda>p. (p, rem p)) ps,
        sum_list (map (\<lambda>p. base_allocation policy (su p)) ps))"
  using assms(2-4)
proof (induction ps rule: rev_induct)
  case (snoc p ps)
  let ?st = "(map (\<lambda>p. (p, base_allocation policy (su p))) ps, map (\<lambda>p. (p, rem p)) ps,
        sum_list (map (\<lambda>p. base_allocation policy (su p)) ps))"
  have "p \<notin> set ps" using snoc.prems by simp
  then have "dset (map (\<lambda>p. (p, g p)) ps) p v = map (\<lambda>p. (p, g p)) ps @ [(p, v)]" for v :: 'b and g
    by (intro dset_absent) (simp add: comp_def)
  moreover have "base_step ctx shares f policy ?st p = Ok (dset (fst ?st) p (base_allocation policy (su p)),
      dset (fst (snd ?st)) p (rem p), snd (snd ?st) + base_allocation policy (su p))"
    using snoc.prems by (subst base_step_eq [OF assms(1)]) auto
  ultimately show ?case using snoc by (simp add: foldM_append dset_absent comp_def)
qed simp

lemma base_fold_steps:
  assumes "shares_ok shares qs" and "set ps \<subseteq> set qs"
    and "foldM (base_step ctx shares f policy) st ps = Ok st'"
  shows "\<forall>p \<in> set ps. \<exists>su rem. base_ok ctx shares f policy su rem p"
  using assms(2,3)
proof (induction ps arbitrary: st)
  case (Cons p ps)
  obtain fl rm s where st: "st = (fl, rm, s)" by (cases st)
  from Cons.prems obtain st1 where s1: "base_step ctx shares f policy st p = Ok st1"
    and "foldM (base_step ctx shares f policy) st1 ps = Ok st'" by (auto simp: rbind_Ok_iff)
  then show ?case using Cons base_step_eq [OF assms(1), of p ctx f policy fl rm s st1] st by auto
qed simp

lemma base_fold_Ok:
  assumes ok: "shares_ok shares ps" and "distinct ps"
    and "foldM (base_step ctx shares f policy) ([], [], 0) ps = Ok (fl, rm, s)"
  obtains su rem where "\<forall>p \<in> set ps. base_ok ctx shares f policy su rem p"
    and "fl = map (\<lambda>p. (p, base_allocation policy (su p))) ps" and "rm = map (\<lambda>p. (p, rem p)) ps"
    and "s = sum_list (map (\<lambda>p. base_allocation policy (su p)) ps)"
proof -
  have "\<forall>p \<in> set ps. \<exists>sr. base_ok ctx shares f policy (\<lambda>_. fst sr) (\<lambda>_. snd sr) p"
    using base_fold_steps [OF ok subset_refl assms(3)] by (fastforce simp: base_ok_def)
  then obtain sr where sr: "\<forall>p \<in> set ps. base_ok ctx shares f policy (\<lambda>_. fst (sr p)) (\<lambda>_. snd (sr p)) p"
    by (metis bchoice)
  then have "\<forall>p \<in> set ps. base_ok ctx shares f policy (\<lambda>p. fst (sr p)) (\<lambda>p. snd (sr p)) p"
    by (simp add: base_ok_def)
  from this base_fold_eq [OF ok subset_refl assms(2) this] assms(3) show thesis
    by (intro that [of "\<lambda>p. fst (sr p)" "\<lambda>p. snd (sr p)"]) auto
qed


section \<open>Distributing the remaining units\<close>

lemma bump_fold:
  assumes "n \<le> length ranked" and "distinct (map fst ranked)" and "set (map fst ranked) \<subseteq> set (map fst fl)"
  shows "\<exists>fl'. foldM (bump_step ranked) fl [0..<n] = Ok fl' \<and> map fst fl' = map fst fl \<and>
    (\<forall>p. map_of fl' p = map_option (\<lambda>k. k + (if p \<in> set (map fst (take n ranked)) then 1 else 0)) (map_of fl p))"
  using assms(1)
proof (induction n)
  case 0
  then show ?case by (auto simp: option.map_ident)
next
  case (Suc n)
  then obtain fl' where fl': "foldM (bump_step ranked) fl [0..<n] = Ok fl'" "map fst fl' = map fst fl"
    "\<forall>p. map_of fl' p = map_option (\<lambda>k. k + (if p \<in> set (map fst (take n ranked)) then 1 else 0)) (map_of fl p)"
    by auto
  let ?q = "fst (ranked ! n)"
  have n: "n < length ranked" using Suc.prems by simp
  then have "?q \<in> set (map fst ranked)" by simp
  then have "?q \<in> set (map fst fl)" using assms(3) by blast
  then have q: "?q \<in> set (map fst fl')" using fl'(2) by simp
  obtain v where v: "map_of fl' ?q = Some v" using q by (auto simp: map_of_eq_None_iff dest: weak_map_of_SomeI)
  have new: "?q \<notin> set (map fst (take n ranked))"
  proof -
    have "map fst (take (Suc n) ranked) = map fst (take n ranked) @ [?q]" using n by (simp add: take_Suc_conv_app_nth)
    moreover have "distinct (map fst (take (Suc n) ranked))" using assms(2) by (metis distinct_take take_map)
    ultimately show ?thesis by simp
  qed
  have step: "bump_step ranked fl' n = Ok (dset fl' ?q (v + 1))"
    using n v by (simp add: bump_step_def dlookup_def)
  have "map_of (dset fl' ?q (v + 1)) p =
      map_option (\<lambda>k. k + (if p \<in> set (map fst (take (Suc n) ranked)) then 1 else 0)) (map_of fl p)" for p
  proof (cases "p = ?q")
    case True
    then show ?thesis using n new v fl'(3) by (auto simp: map_of_dset take_Suc_conv_app_nth)
  next
    case False
    then show ?thesis using n fl'(3) by (auto simp: map_of_dset take_Suc_conv_app_nth)
  qed
  then show ?case using step fl'(1,2) q by (auto simp: foldM_append dset_present)
qed

text \<open>The fractional part of a representable number is representable.\<close>

lemma representable_frac:
  assumes rep: "representable ctx x" and pos: "0 \<le> x" and wf: "wf_context ctx"
  shows "representable ctx (frac x)"
proof -
  obtain n e where x: "x = of_int n * 10 powi e" and n: "\<bar>n\<bar> < 10 ^ prec ctx" and e: "Etiny ctx \<le> e"
    and top: "\<bar>x\<bar> < 10 powi (Emax ctx + 1)" using rep by (auto simp: representable_def)
  show ?thesis
  proof (cases "0 \<le> e")
    case True
    then have "x = of_int (n * 10 ^ nat e)" by (simp add: x power_int_def)
    then show ?thesis using wf by (simp only: frac_of_int) simp
  next
    case False
    let ?k = "nat (- e)"
    have pe: "(10::rat) powi e = 1 / 10 ^ ?k" using ten_powi_neg [of ?k] False by simp
    have xk: "x = of_int n / of_int (10 ^ ?k)" by (simp add: x pe)
    have n0: "0 \<le> n" using pos unfolding x by (simp add: zero_le_mult_iff)
    have "frac x = of_int (n mod 10 ^ ?k) / of_int (10 ^ ?k)"
    proof -
      have "\<lfloor>x\<rfloor> = n div 10 ^ ?k" unfolding xk by (rule floor_divide_of_int_eq)
      moreover have "of_int n = of_int (n div 10 ^ ?k) * of_int (10 ^ ?k) + (of_int (n mod 10 ^ ?k) :: rat)"
        by (metis div_mult_mod_eq of_int_add of_int_mult)
      ultimately show ?thesis by (simp add: frac_def xk field_simps)
    qed
    then have fr: "frac x = of_int (n mod 10 ^ ?k) * 10 powi e"
      by (simp add: pe)
    have "\<bar>n mod 10 ^ ?k\<bar> \<le> \<bar>n\<bar>" using n0 by (simp add: zmod_le_nonneg_dividend)
    then have "\<bar>n mod 10 ^ ?k\<bar> < 10 ^ prec ctx" using n by linarith
    moreover have "frac x \<le> x" using pos by (simp add: frac_def)
    then have "\<bar>frac x\<bar> \<le> \<bar>x\<bar>" using pos frac_ge_0 [of x] by simp
    then have "\<bar>frac x\<bar> < 10 powi (Emax ctx + 1)" using top by linarith
    ultimately show ?thesis unfolding representable_def using fr e by blast
  qed
qed

lemma representable_half_up:
  assumes rep: "representable ctx x" and pos: "0 \<le> x" and wf: "wf_context ctx"
  shows "representable ctx (x - of_int \<lfloor>x + 1 / 2\<rfloor>)"
proof (cases "frac x < 1 / 2")
  case True
  have "\<lfloor>x + 1 / 2\<rfloor> = \<lfloor>x\<rfloor>" using True floor_correct [of x] unfolding frac_def by (intro floor_unique) linarith+
  then show ?thesis using representable_frac [OF assms] by (simp add: frac_def)
next
  case False
  obtain n e where f: "frac x = of_int n * 10 powi e" and n: "\<bar>n\<bar> < 10 ^ prec ctx" and e: "Etiny ctx \<le> e"
    and top: "\<bar>frac x\<bar> < 10 powi (Emax ctx + 1)" using representable_frac [OF assms] unfolding representable_def by blast
  have lt: "frac x < 1" by (rule frac_lt_1)
  have "e < 0"
  proof (rule ccontr)
    assume "\<not> e < 0"
    then have "frac x = of_int (n * 10 ^ nat e)" by (simp add: f power_int_def)
    then show False using False lt by (simp only: of_int_less_1_iff)
  qed
  define k where "k = nat (- e)"
  have pe: "(10::rat) powi e = 1 / 10 ^ k" using ten_powi_neg [of k] \<open>e < 0\<close> by (simp add: k_def)
  have "of_int (10 ^ k) \<le> (of_int (2 * n) :: rat)" "of_int n < (of_int (10 ^ k) :: rat)"
    using False lt by (simp_all add: f pe field_simps)
  then have nk: "10 ^ k \<le> 2 * n" "n < 10 ^ k" by (simp_all only: of_int_le_iff of_int_less_iff)
  have "x - of_int \<lfloor>x + 1 / 2\<rfloor> = frac x - 1"
  proof -
    have "\<lfloor>x + 1 / 2\<rfloor> = \<lfloor>x\<rfloor> + 1" using False floor_correct [of x] unfolding frac_def by (intro floor_unique) linarith+
    then show ?thesis by (simp add: frac_def)
  qed
  also have "\<dots> = of_int (n - 10 ^ k) * 10 powi e" by (simp add: f pe field_simps)
  finally have d: "x - of_int \<lfloor>x + 1 / 2\<rfloor> = of_int (n - 10 ^ k) * 10 powi e" "x - of_int \<lfloor>x + 1 / 2\<rfloor> = frac x - 1"
    using \<open>x - of_int \<lfloor>x + 1 / 2\<rfloor> = frac x - 1\<close> by simp_all
  have "\<bar>n - 10 ^ k\<bar> < 10 ^ prec ctx" using nk n by linarith
  moreover have "\<bar>x - of_int \<lfloor>x + 1 / 2\<rfloor>\<bar> < 10 powi (Emax ctx + 1)" using False lt top unfolding d(2) by linarith
  ultimately show ?thesis using d(1) e unfolding representable_def by blast
qed

lemma dec_fix_nonneg:
  assumes "dec_fix ctx d = Ok d'" and "0 \<le> dval d" and "wf_context ctx"
  shows "0 \<le> dval d'"
proof (cases "dcoeff d = 0")
  case True
  then show ?thesis using assms(1) by (auto simp: dec_fix_zero dval_def)
next
  case False
  then show ?thesis using assms dec_fix_Ok [OF assms(1,3)] by (auto simp: dval_nonneg_iff)
qed

lemma to_minor_units_nonneg:
  assumes "to_minor_units ctx d f = Ok x" and "0 \<le> dval d" and "0 \<le> f" and "wf_context ctx"
  shows "0 \<le> dval x" and "representable ctx (dval x)"
  using assms dec_fix_nonneg [of ctx "dec_mul_exact d (dec_of_int f)" x] dec_ops_representable(3)
  by (auto simp: to_minor_units_def dec_mul_def)

lemma to_minor_units_exactly:
  assumes "representable ctx (dval d * of_int f)" and "wf_context ctx"
  shows "\<exists>x. to_minor_units ctx d f = Ok x \<and> dval x = dval d * of_int f"
  using dec_mul_exactly [of ctx d "dec_of_int f"] assms by (simp add: to_minor_units_def)

text \<open>
  What the two policies promise, on minor units: \<open>x p\<close> is the exact share of \<open>p\<close> and \<open>n p\<close> the
  allocated whole number of units.
\<close>

definition largest_remainder_spec :: "string list \<Rightarrow> (string \<Rightarrow> rat) \<Rightarrow> (string \<Rightarrow> int) \<Rightarrow> int \<Rightarrow> bool" where
  "largest_remainder_spec ps x n T \<longleftrightarrow>
     sum_list (map n ps) = T \<and>
     (\<forall>p \<in> set ps. n p = \<lfloor>x p\<rfloor> \<or> n p = \<lfloor>x p\<rfloor> + 1) \<and>
     (\<forall>p \<in> set ps. \<forall>q \<in> set ps. n p = \<lfloor>x p\<rfloor> + 1 \<and> n q = \<lfloor>x q\<rfloor> \<longrightarrow>
        frac (x q) < frac (x p) \<or> frac (x q) = frac (x p) \<and> p < q)"

definition payer_spec :: "string list \<Rightarrow> (string \<Rightarrow> rat) \<Rightarrow> string \<Rightarrow> (string \<Rightarrow> int) \<Rightarrow> int \<Rightarrow> bool" where
  "payer_spec ps x payer n T \<longleftrightarrow>
     sum_list (map n ps) = T \<and> 0 \<le> n payer \<and>
     (\<forall>p \<in> set ps. p \<noteq> payer \<longrightarrow> n p = \<lfloor>x p + 1 / 2\<rfloor>)"

lemma floor_half_nonneg: "0 \<le> (x::rat) \<Longrightarrow> 0 \<le> \<lfloor>x + 1 / 2\<rfloor>"
  by simp

lemma base_allocation_floor:
  "0 \<le> dval x \<Longrightarrow> policy \<noteq> ''payer'' \<Longrightarrow> base_allocation policy x = \<lfloor>dval x\<rfloor>"
  by (simp add: base_allocation_def dec_to_int_floor)

lemma base_allocation_half_up:
  "0 \<le> dval x \<Longrightarrow> base_allocation ''payer'' x = \<lfloor>dval x + 1 / 2\<rfloor>"
  by (simp add: base_allocation_def dec_to_int_integral)

text \<open>The remainder that ranks a participant is the exact fractional part of the share.\<close>

lemma remainder_frac:
  assumes "base_ok ctx shares f policy su rem p" and "policy \<noteq> ''payer''" and "wf_context ctx"
    and "0 \<le> dval (share_of shares p)" and "0 \<le> f"
  shows "dval (rem p) = frac (dval (su p))" and "representable ctx (dval (rem p))"
proof -
  have su: "0 \<le> dval (su p)" "representable ctx (dval (su p))"
    using to_minor_units_nonneg [of ctx "share_of shares p" f "su p"] assms by (auto simp: base_ok_def)
  have "dec_sub ctx (su p) (dec_of_int \<lfloor>dval (su p)\<rfloor>) = Ok (rem p)"
    using assms(1,2) su(1) by (simp add: base_ok_def base_allocation_floor)
  moreover have "representable ctx (dval (su p) - dval (dec_of_int \<lfloor>dval (su p)\<rfloor>))"
    using representable_frac [OF su(2,1) assms(3)] by (simp add: frac_def)
  ultimately show "dval (rem p) = frac (dval (su p))"
    using dec_sub_exactly [OF _ assms(3)] by (fastforce simp: frac_def)
  then show "representable ctx (dval (rem p))" using representable_frac [OF su(2,1) assms(3)] by simp
qed

lemma dict_eq_map:
  assumes "wf_dict d"
  shows "d = map (\<lambda>k. (k, the (map_of d k))) (map fst d)"
  using assms by (auto simp: map_of_is_SomeI comp_def intro!: map_idI [symmetric])

lemma sum_list_indicator:
  fixes a :: "'a \<Rightarrow> int"
  assumes "distinct ps" and "B \<subseteq> set ps"
  shows "sum_list (map (\<lambda>p. a p + (if p \<in> B then 1 else 0)) ps) = sum_list (map a ps) + int (card B)"
proof -
  have "sum_list (map (\<lambda>p. a p + (if p \<in> B then 1 else 0)) ps)
      = sum_list (map a ps) + sum_list (map (\<lambda>p. if p \<in> B then 1 else 0) ps)"
    by (rule sum_list_addf)
  also have "sum_list (map (\<lambda>p. if p \<in> B then 1 else (0::int)) ps) = (\<Sum>p \<in> set ps. if p \<in> B then 1 else 0)"
    using assms(1) by (simp add: sum_list_distinct_conv_sum_set)
  also have "\<dots> = int (card B)"
    using assms(2) by (simp add: sum.If_cases Int_absorb1 Int_absorb2)
  finally show ?thesis .
qed

lemma ranked_first:
  assumes rm: "rm = map (\<lambda>p. (p, rem p)) ps"
    and p: "p \<in> set (map fst (take r (sort_key rank_key rm)))"
    and q: "q \<in> set ps" "q \<notin> set (map fst (take r (sort_key rank_key rm)))"
  shows "dval (rem q) < dval (rem p) \<or> dval (rem q) = dval (rem p) \<and> p < q"
proof -
  let ?s = "sort_key rank_key rm"
  have entry: "snd e = rem (fst e)" if "e \<in> set ?s" for e using that by (auto simp: rm)
  obtain i where i: "i < r" "i < length ?s" "fst (?s ! i) = p" using p by (auto simp: in_set_conv_nth)
  have "(q, rem q) \<in> set ?s" using q(1) by (simp add: rm)
  then obtain j where j: "j < length ?s" "?s ! j = (q, rem q)"
    using in_set_conv_nth [of "(q, rem q)" ?s] by blast
  have "r \<le> j"
  proof (rule ccontr)
    assume "\<not> r \<le> j"
    then have "take r ?s ! j = (q, rem q)" "j < length (take r ?s)" using j by simp_all
    then have "(q, rem q) \<in> set (take r ?s)" using nth_mem [of j "take r ?s"] by simp
    then show False using q(2) image_eqI [of q fst "(q, rem q)"] by simp
  qed
  then have "rank_key (?s ! i) \<le> rank_key (?s ! j)" using ranked_prefix [OF i(1), of j rm] j(1) by simp
  moreover have "?s ! i = (p, rem p)" using entry [OF nth_mem [OF i(2)]] i(3) by (simp add: prod_eq_iff)
  moreover have "p \<noteq> q" using p q(2) by blast
  ultimately show ?thesis using j(2) by (auto simp: less_eq_prod_def)
qed

text \<open>Which participants get one more unit: the first of the ranking.\<close>

lemma distribute_largest:
  assumes wf: "wf_context ctx" and d: "distinct ps" and f: "0 \<le> f"
    and ok: "shares_ok shares ps" and base: "\<forall>p \<in> set ps. base_ok ctx shares f ''largest_remainder'' su rem p"
    and fl: "fl = map (\<lambda>p. (p, \<lfloor>dval (su p)\<rfloor>)) ps" and rm: "rm = map (\<lambda>p. (p, rem p)) ps"
    and r: "0 \<le> remaining" "remaining \<le> int (length ps)"
  shows "\<exists>n. distribute_remaining ctx ''largest_remainder'' payer remaining fl rm = Ok (map (\<lambda>p. (p, n p)) ps)
    \<and> largest_remainder_spec ps (\<lambda>p. dval (su p)) n (sum_list (map (\<lambda>p. \<lfloor>dval (su p)\<rfloor>) ps) + remaining)"
proof -
  let ?ranked = "sort_key rank_key rm" and ?r = "nat remaining"
  let ?B = "set (map fst (take ?r ?ranked))"
  have remf: "dval (rem p) = frac (dval (su p))" "representable ctx (dval (rem p))" if "p \<in> set ps" for p
    using remainder_frac [of ctx shares f "''largest_remainder''" su rem p] base ok that wf f
    by (auto simp: shares_ok_def)
  have rk: "ranked_by_amount ctx rm = Ok ?ranked"
    using remf(2) by (intro ranked_by_amount_eq [OF wf]) (auto simp: rm)
  have ms: "mset (map fst ?ranked) = mset ps" by (simp add: rm image_mset.compositionality comp_def)
  have len: "length ?ranked = length ps" by (simp add: rm)
  have dk: "distinct (map fst ?ranked)" using ms d by (metis mset_eq_imp_distinct_iff)
  have sk: "set (map fst ?ranked) = set ps" using ms by (metis set_mset_mset)
  have "?r \<le> length ?ranked" using r len by simp
  moreover have "set (map fst ?ranked) \<subseteq> set (map fst fl)" using sk by (auto simp: fl)
  ultimately obtain fl' where fl': "foldM (bump_step ?ranked) fl [0..<?r] = Ok fl'" "map fst fl' = map fst fl"
    "\<forall>p. map_of fl' p = map_option (\<lambda>k. k + (if p \<in> ?B then 1 else 0)) (map_of fl p)"
    using bump_fold [OF _ dk] by blast
  define n where "n = (\<lambda>p. \<lfloor>dval (su p)\<rfloor> + (if p \<in> ?B then 1 else 0))"
  have keys: "map fst fl' = ps" using fl'(2) by (simp add: fl comp_def)
  have "fl' = map (\<lambda>p. (p, the (map_of fl' p))) ps" using dict_eq_map [of fl'] d by (simp add: keys)
  also have "\<dots> = map (\<lambda>p. (p, n p)) ps"
    using fl'(3) by (auto simp: n_def fl map_of_map_same)
  finally have fln: "fl' = map (\<lambda>p. (p, n p)) ps" .
  have cB: "card ?B = ?r"
  proof -
    have "distinct (map fst (take ?r ?ranked))" using distinct_take [OF dk] by (simp add: take_map)
    from distinct_card [OF this] show ?thesis using \<open>?r \<le> length ?ranked\<close> by simp
  qed
  have Bps: "?B \<subseteq> set ps"
    unfolding sk [symmetric] set_map by (intro image_mono set_take_subset)
  then have "sum_list (map n ps) = sum_list (map (\<lambda>p. \<lfloor>dval (su p)\<rfloor>) ps) + remaining"
    using sum_list_indicator [OF d, of ?B "\<lambda>p. \<lfloor>dval (su p)\<rfloor>"] cB r(1) by (simp add: n_def)
  moreover have "frac (dval (su q)) < frac (dval (su p)) \<or> frac (dval (su q)) = frac (dval (su p)) \<and> p < q"
    if p: "p \<in> ?B" and q: "q \<in> set ps" "q \<notin> ?B" for p q
  proof -
    have "p \<in> set ps" using p Bps by blast
    then show ?thesis using ranked_first [OF rm p q] by (simp only: remf(1) q(1))
  qed
  ultimately have "largest_remainder_spec ps (\<lambda>p. dval (su p)) n
      (sum_list (map (\<lambda>p. \<lfloor>dval (su p)\<rfloor>) ps) + remaining)"
    by (auto simp: largest_remainder_spec_def n_def)
  then show ?thesis using rk fl'(1) fln by (auto simp: distribute_remaining_def)
qed

text \<open>What the payer policy does with the remaining units.\<close>

lemma payer_distribution:
  assumes d: "distinct ps" and q: "q \<in> set ps"
  shows "distribute_remaining ctx ''payer'' (Some q) remaining (map (\<lambda>p. (p, b p)) ps) rm =
    (if 0 \<le> b q + remaining \<or> remaining = 0 then Ok (map (\<lambda>p. (p, if p = q then b q + remaining else b p)) ps)
     else raise ValueError ''Payer cannot absorb the remainder without becoming negative'')"
proof -
  let ?fl = "map (\<lambda>p. (p, b p)) ps"
  have look: "dlookup ?fl q = Ok (b q)" using q by (simp add: dlookup_def map_of_map_same)
  have keys: "map fst (dset ?fl q v) = ps" for v using q by (simp add: dset_present comp_def)
  have "dset ?fl q v = map (\<lambda>p. (p, if p = q then v else b p)) ps" for v
  proof -
    have "dset ?fl q v = map (\<lambda>k. (k, the (map_of (dset ?fl q v) k))) ps"
      using dict_eq_map [of "dset ?fl q v"] d by (simp only: keys)
    then show ?thesis by (auto simp: map_of_dset map_of_map_same)
  qed
  then show ?thesis using look by (cases "remaining = 0") (auto simp: distribute_remaining_def)
qed

lemma distribute_payer:
  assumes d: "distinct ps" and q: "q \<in> set ps"
    and fl: "fl = map (\<lambda>p. (p, b p)) ps" and b: "0 \<le> b q"
    and ok: "distribute_remaining ctx ''payer'' (Some q) remaining fl rm = Ok fl'"
  shows "\<exists>n. fl' = map (\<lambda>p. (p, n p)) ps \<and> sum_list (map n ps) = sum_list (map b ps) + remaining \<and>
    0 \<le> n q \<and> (\<forall>p \<in> set ps. p \<noteq> q \<longrightarrow> n p = b p)"
proof -
  let ?n = "\<lambda>p. if p = q then b q + remaining else b p"
  have "fl' = map (\<lambda>p. (p, ?n p)) ps \<and> 0 \<le> ?n q"
    using ok b unfolding fl payer_distribution [OF d q] by (auto split: if_splits)
  moreover have "sum_list (map ?n ps) = sum_list (map b ps) + remaining"
    using d q by (simp add: sum_list_distinct_conv_sum_set sum.remove [of _ q])
  ultimately show ?thesis by (intro exI [of _ ?n]) simp
qed

text \<open>A whole number of minor units that fits the context is converted back exactly.\<close>

lemma from_minor_units_exact:
  assumes wf: "wf_context ctx" and u: "u \<le> 2" and p: "p \<in> set ps" and n: "\<bar>n p\<bar> < 10 ^ prec ctx"
  shows "\<exists>y. from_minor_units ctx (10 ^ u) (grid_unit u) (map (\<lambda>p. (p, n p)) ps) p = Ok (p, y)
    \<and> dval y = of_int (n p) / 10 ^ u"
proof -
  have fits: "grid_fits ctx u (of_int (n p) / 10 ^ u)" using n by (simp add: grid_fits_units)
  have "dcoeff (dec_of_int (10 ^ u)) \<noteq> 0" by (simp add: dec_of_int_def not_le)
  moreover have "representable ctx (dval (dec_of_int (n p)) / dval (dec_of_int (10 ^ u)))"
    using grid_fits_representable [OF fits u wf] by simp
  ultimately obtain q where q: "dec_div ctx (dec_of_int (n p)) (dec_of_int (10 ^ u)) = Ok q"
    "dval q = of_int (n p) / 10 ^ u" using dec_div_exactly [OF _ _ wf] by fastforce
  obtain y where "dec_quantize ctx ROUND_HALF_EVEN q (grid_unit u) = Ok y" "dval y = dval q"
    using quantize_grid [OF wf u, of q "grid_unit u"] fits q(2) by auto
  then show ?thesis using q p by (simp add: from_minor_units_def dlookup_def map_of_map_same)
qed

lemma total_units_exact:
  assumes wf: "wf_context ctx" and u: "u \<le> 2" and fits: "grid_fits ctx u (dval t)" and pos: "0 \<le> dval t"
  shows "\<exists>x. to_minor_units ctx t (10 ^ u) = Ok x \<and> dec_to_int x = units_of u (dval t)"
proof -
  have "dval t * 10 ^ u = of_int (units_of u (dval t))"
    using fits by (auto simp: grid_fits_def on_grid_def)
  moreover have "\<bar>units_of u (dval t)\<bar> < 10 ^ prec ctx"
    using fits on_grid_units [of u "dval t"] grid_fits_units [of ctx u "units_of u (dval t)"]
    by (simp add: grid_fits_def)
  then have "grid_fits ctx 0 (of_int (units_of u (dval t)))" using grid_fits_units [of ctx 0] by simp
  then have "representable ctx (of_int (units_of u (dval t)))" using wf by (intro grid_fits_representable) auto
  ultimately obtain x where "to_minor_units ctx t (10 ^ u) = Ok x" "dval x = of_int (units_of u (dval t))"
    using to_minor_units_exactly [of ctx t "10 ^ u"] wf by auto
  moreover then have "dec_to_int x = units_of u (dval t)"
    using pos by (subst dec_to_int_floor) (auto simp: units_of_def)
  ultimately show ?thesis by blast
qed

section \<open>The allocator\<close>

lemma le_sum_list_nonneg:
  fixes n :: "'a \<Rightarrow> int"
  assumes "\<forall>p \<in> set ps. 0 \<le> n p" and "p \<in> set ps"
  shows "n p \<le> sum_list (map n ps)"
  using assms
proof (induction ps)
  case (Cons a ps)
  then have "0 \<le> sum_list (map n ps)" by (intro sum_list_nonneg) auto
  then show ?case using Cons by auto
qed simp

definition policy_spec :: "string \<Rightarrow> string option \<Rightarrow> string list \<Rightarrow> (string \<Rightarrow> rat) \<Rightarrow> (string \<Rightarrow> int)
    \<Rightarrow> int \<Rightarrow> bool" where
  "policy_spec policy payer ps x n T \<longleftrightarrow>
     policy = ''largest_remainder'' \<and> largest_remainder_spec ps x n T \<or>
     policy = ''payer'' \<and> (\<exists>q \<in> set ps. payer = Some q \<and> payer_spec ps x q n T)"

lemma policy_spec_nonneg:
  assumes "policy_spec policy payer ps x n T" and "\<forall>p \<in> set ps. 0 \<le> x p"
  shows "\<forall>p \<in> set ps. 0 \<le> n p \<and> n p \<le> T" and "sum_list (map n ps) = T"
proof -
  have "0 \<le> n p" if p: "p \<in> set ps" for p
  proof -
    have "0 \<le> \<lfloor>x p\<rfloor>" "0 \<le> \<lfloor>x p + 1 / 2\<rfloor>" using assms(2) p by (simp_all add: floor_half_nonneg)
    then show ?thesis using assms(1) p
      by (fastforce simp: policy_spec_def largest_remainder_spec_def payer_spec_def)
  qed
  moreover show s: "sum_list (map n ps) = T"
    using assms(1) by (auto simp: policy_spec_def largest_remainder_spec_def payer_spec_def)
  ultimately show "\<forall>p \<in> set ps. 0 \<le> n p \<and> n p \<le> T" using le_sum_list_nonneg [of ps n] by auto
qed

text \<open>The integer part of the allocator establishes the policy's specification.\<close>

lemma distribute_spec:
  assumes wf: "wf_context ctx" and d: "distinct ps" and f: "0 \<le> f" and ok: "shares_ok shares ps"
    and pol: "policy_ok policy payer ps"
    and base: "\<forall>p \<in> set ps. base_ok ctx shares f policy su rem p"
    and fl: "fl = map (\<lambda>p. (p, base_allocation policy (su p))) ps" and rm: "rm = map (\<lambda>p. (p, rem p)) ps"
    and T: "remaining = T - sum_list (map (\<lambda>p. base_allocation policy (su p)) ps)"
    and bounds: "validate_remainder_bounds remaining (length ps) policy = Ok ()"
    and dist: "distribute_remaining ctx policy payer remaining fl rm = Ok fl'"
  shows "\<exists>n. fl' = map (\<lambda>p. (p, n p)) ps \<and> policy_spec policy payer ps (\<lambda>p. dval (su p)) n T"
proof -
  have su: "0 \<le> dval (su p)" if "p \<in> set ps" for p
    using that base ok to_minor_units_nonneg(1) [OF _ _ f wf] by (auto simp: base_ok_def shares_ok_def)
  consider (lr) "policy = ''largest_remainder''" | (payer) q where "policy = ''payer''" "q \<in> set ps" "payer = Some q"
    using pol by (auto simp: policy_ok_def)
  then show ?thesis
  proof cases
    case lr
    have b: "map (\<lambda>p. base_allocation policy (su p)) ps = map (\<lambda>p. \<lfloor>dval (su p)\<rfloor>) ps"
      using su by (simp add: lr base_allocation_floor)
    have fl2: "fl = map (\<lambda>p. (p, \<lfloor>dval (su p)\<rfloor>)) ps" using su by (simp add: fl lr base_allocation_floor)
    have r: "0 \<le> remaining" "remaining \<le> int (length ps)"
      using bounds lr by (auto simp: validate_remainder_bounds_def split: if_splits)
    show ?thesis
      using distribute_largest [OF wf d f ok base [unfolded lr] fl2 rm r, of payer] dist T
      unfolding b by (auto simp: lr policy_spec_def)
  next
    case (payer q)
    let ?b = "\<lambda>p. base_allocation ''payer'' (su p)"
    have hu: "?b p = \<lfloor>dval (su p) + 1 / 2\<rfloor>" if "p \<in> set ps" for p using su that by (simp add: base_allocation_half_up)
    then have b0: "0 \<le> ?b q" using su payer(2) floor_half_nonneg by simp
    have flb: "fl = map (\<lambda>p. (p, ?b p)) ps" using fl payer by simp
    obtain n where n: "fl' = map (\<lambda>p. (p, n p)) ps" "sum_list (map n ps) = sum_list (map ?b ps) + remaining"
      "0 \<le> n q" "\<forall>p \<in> set ps. p \<noteq> q \<longrightarrow> n p = ?b p"
      using distribute_payer [OF d payer(2) flb b0 dist [unfolded payer]] by blast
    then have "payer_spec ps (\<lambda>p. dval (su p)) q n T" using hu T payer by (auto simp: payer_spec_def)
    then show ?thesis using n(1) payer by (auto simp: policy_spec_def)
  qed
qed

lemma convert_back:
  assumes wf: "wf_context ctx" and u: "u \<le> 2" and n: "\<forall>p \<in> set ps. 0 \<le> n p \<and> n p \<le> T" and T: "T < 10 ^ prec ctx"
  obtains y where "mapM (from_minor_units ctx (10 ^ u) (grid_unit u) (map (\<lambda>p. (p, n p)) ps)) ps = Ok (map (\<lambda>p. (p, y p)) ps)"
    and "\<forall>p \<in> set ps. dval (y p) = of_int (n p) / 10 ^ u"
proof -
  have "\<forall>p \<in> set ps. \<exists>y. from_minor_units ctx (10 ^ u) (grid_unit u) (map (\<lambda>p. (p, n p)) ps) p = Ok (p, y)
    \<and> dval y = of_int (n p) / 10 ^ u"
    using n T by (intro ballI from_minor_units_exact [OF wf u]) (auto intro: order_le_less_trans)
  then obtain y where "\<forall>p \<in> set ps. from_minor_units ctx (10 ^ u) (grid_unit u) (map (\<lambda>p. (p, n p)) ps) p = Ok (p, y p)
    \<and> dval (y p) = of_int (n p) / 10 ^ u" by metis
  then show thesis by (intro that [of y] mapM_eq_map) auto
qed

lemma allocate_Ok:
  assumes wf: "wf_context ctx" and u: "minor_units cur = Ok u"
    and ok: "allocate_minor_units ctx shares tot cur ps policy payer = Ok res"
  obtains t su n y where "tot = Finite t" and "0 \<le> dval t" and "grid_fits ctx u (dval t)"
    and "shares_ok shares ps" and "ps \<noteq> []" and "distinct ps"
    and "\<forall>p \<in> set ps. to_minor_units ctx (share_of shares p) (10 ^ u) = Ok (su p)"
    and "policy_spec policy payer ps (\<lambda>p. dval (su p)) n (units_of u (dval t))"
    and "res = map (\<lambda>p. (p, y p)) ps" and "\<forall>p \<in> set ps. dval (y p) = of_int (n p) / 10 ^ u \<and> 0 \<le> n p"
proof -
  have u2: "u \<le> 2" using u by (rule minor_units_le)
  have "validate_allocator_inputs ctx shares tot cur ps policy payer = Ok ()"
    using ok by (auto simp: allocate_minor_units_def rbind_Ok_iff)
  then obtain t where t: "tot = Finite t" "0 \<le> dval t" "grid_fits ctx u (dval t)" and ps: "ps \<noteq> []" "distinct ps"
    and sh: "shares_ok shares ps" and pol: "policy_ok policy payer ps"
    unfolding validate_allocator_inputs_Ok_iff [OF wf u] by blast
  obtain x where x: "to_minor_units ctx t (10 ^ u) = Ok x" "dec_to_int x = units_of u (dval t)"
    using total_units_exact [OF wf u2 t(3,2)] by blast
  let ?T = "units_of u (dval t)"
  from ok t(1) u x obtain fl rm s fl' where fold: "foldM (base_step ctx shares (10 ^ u) policy) ([], [], 0) ps = Ok (fl, rm, s)"
    and bounds: "validate_remainder_bounds (?T - s) (length ps) policy = Ok ()"
    and dist: "distribute_remaining ctx policy payer (?T - s) fl rm = Ok fl'"
    and res: "mapM (from_minor_units ctx (10 ^ u) (grid_unit u) fl') ps = Ok res"
    by (auto simp: allocate_minor_units_def rbind_Ok_iff Let_def require_finite_def
        quantum_for_units_Ok [OF wf u2, unfolded quantum_for_units_def] split: if_splits)
  have f: "0 \<le> (10::int) ^ u" by simp
  obtain su rem where base: "\<forall>p \<in> set ps. base_ok ctx shares (10 ^ u) policy su rem p"
    and fl: "fl = map (\<lambda>p. (p, base_allocation policy (su p))) ps" "rm = map (\<lambda>p. (p, rem p)) ps"
    and s: "s = sum_list (map (\<lambda>p. base_allocation policy (su p)) ps)"
    using base_fold_Ok [OF sh ps(2) fold] by blast
  obtain n where n: "fl' = map (\<lambda>p. (p, n p)) ps" "policy_spec policy payer ps (\<lambda>p. dval (su p)) n ?T"
    using distribute_spec [OF wf ps(2) f sh pol base fl _ bounds dist] s by blast
  have su: "\<forall>p \<in> set ps. 0 \<le> dval (su p)"
    using base sh to_minor_units_nonneg(1) [OF _ _ f wf] by (auto simp: base_ok_def shares_ok_def)
  note nn = policy_spec_nonneg [OF n(2) su]
  have "?T < 10 ^ prec ctx"
    using t(3) on_grid_units [of u "dval t"] grid_fits_units [of ctx u ?T] by (simp add: grid_fits_def)
  then obtain y where y: "res = map (\<lambda>p. (p, y p)) ps" "\<forall>p \<in> set ps. dval (y p) = of_int (n p) / 10 ^ u"
    using convert_back [OF wf u2 nn(1)] res n(1) by (metis Inr_inject)
  show thesis by (rule that [OF t sh ps _ n(2) y(1)]) (use y(2) nn(1) base in \<open>auto simp: base_ok_def\<close>)
qed

text \<open>Sums of non-negative amounts whose total fits the grid are exact.\<close>

lemma dec_sum_exact:
  assumes wf: "wf_context ctx" and u: "u \<le> 2" and a: "0 \<le> dval a" "on_grid u (dval a)"
    and xs: "\<forall>x \<in> set xs. 0 \<le> dval x \<and> on_grid u (dval x)"
    and fits: "grid_fits ctx u (dval a + sum_list (map dval xs))"
  shows "\<exists>s. dec_sum ctx a xs = Ok s \<and> dval s = dval a + sum_list (map dval xs)"
  using a xs fits
proof (induction xs arbitrary: a)
  case Nil
  then show ?case by (simp add: dec_sum_def)
next
  case (Cons x xs)
  have rest: "0 \<le> sum_list (map dval xs)" using Cons.prems(3) by (intro sum_list_nonneg) auto
  have g: "on_grid u (dval a + dval x)" using Cons.prems by (simp add: on_grid_add)
  have "grid_fits ctx u (dval a + dval x)"
    using Cons.prems rest by (intro grid_fits_smaller [OF Cons.prems(4) g]) auto
  then obtain b where b: "dec_add ctx a x = Ok b" "dval b = dval a + dval x"
    using dec_add_exactly [OF grid_fits_representable [OF _ u wf] wf] by blast
  have "\<exists>s. dec_sum ctx b xs = Ok s \<and> dval s = dval b + sum_list (map dval xs)"
    using Cons.prems b(2) g by (intro Cons.IH) (auto simp: add.assoc)
  then show ?case using b by (auto simp: dec_sum_def add.assoc)
qed

lemma allocate_total:
  assumes wf: "wf_context ctx" and ok: "allocate_minor_units ctx shares tot cur ps policy payer = Ok res"
    and u: "minor_units cur = Ok u"
  shows "\<exists>t. tot = Finite t \<and> map fst res = ps \<and> distinct ps \<and>
    sum_list (map dval (dvalues res)) = dval t \<and>
    (\<forall>y \<in> set (dvalues res). 0 \<le> dval y \<and> grid_fits ctx u (dval y)) \<and> grid_fits ctx u (dval t) \<and> 0 \<le> dval t"
proof -
  obtain t su n y where t: "tot = Finite t" "0 \<le> dval t" "grid_fits ctx u (dval t)"
    and sh: "shares_ok shares ps" and ne: "ps \<noteq> []" and ps: "distinct ps"
    and su: "\<forall>p \<in> set ps. to_minor_units ctx (share_of shares p) (10 ^ u) = Ok (su p)"
    and n: "policy_spec policy payer ps (\<lambda>p. dval (su p)) n (units_of u (dval t))"
    and res: "res = map (\<lambda>p. (p, y p)) ps" and y: "\<forall>p \<in> set ps. dval (y p) = of_int (n p) / 10 ^ u \<and> 0 \<le> n p"
    by (rule allocate_Ok [OF wf u ok])
  have "\<forall>p \<in> set ps. 0 \<le> dval (su p)"
    using su sh to_minor_units_nonneg(1) [OF _ _ _ wf, of _ "10 ^ u"] by (auto simp: shares_ok_def)
  note nn = policy_spec_nonneg [OF n this]
  have "sum_list (map dval (dvalues res)) = sum_list (map (\<lambda>p. of_int (n p) / 10 ^ u) ps)"
    using y by (auto simp: res dvalues_def comp_def intro!: arg_cong [of _ _ sum_list])
  also have "\<dots> = of_int (sum_list (map n ps)) / 10 ^ u"
    by (induction ps) (simp_all add: add_divide_distrib)
  also have "\<dots> = dval t" using nn(2) t(3) on_grid_units [of u "dval t"] by (simp add: grid_fits_def)
  finally have sum: "sum_list (map dval (dvalues res)) = dval t" .
  have T: "units_of u (dval t) < 10 ^ prec ctx"
    using t(3) on_grid_units [of u "dval t"] grid_fits_units [of ctx u "units_of u (dval t)"] by (simp add: grid_fits_def)
  have "0 \<le> dval (y p) \<and> grid_fits ctx u (dval (y p))" if p: "p \<in> set ps" for p
  proof -
    have "\<bar>n p\<bar> < 10 ^ prec ctx" using nn(1) p T by fastforce
    then show ?thesis using y p grid_fits_units [of ctx u "n p"] by simp
  qed
  then show ?thesis using sum t ps by (auto simp: res dvalues_def comp_def)
qed

text \<open>A total and exact shares have at most one largest-remainder allocation.\<close>

lemma largest_remainder_unique:
  assumes n: "largest_remainder_spec ps x n T" and m: "largest_remainder_spec ps x m T"
    and d: "distinct ps" and p: "p \<in> set ps"
  shows "n p = m p"
proof (rule ccontr)
  assume neq: "n p \<noteq> m p"
  have sums: "(\<Sum>p \<in> set ps. n p) = (\<Sum>p \<in> set ps. m p)"
    using n m d by (simp add: largest_remainder_spec_def sum_list_distinct_conv_sum_set)
  have ex: "\<exists>q \<in> set ps. g q < f q" if le: "f p < g p" and eq: "(\<Sum>p \<in> set ps. f p) = (\<Sum>p \<in> set ps. g p)"
    for f g :: "string \<Rightarrow> int"
  proof (rule ccontr)
    assume "\<not> (\<exists>q \<in> set ps. g q < f q)"
    then have "(\<Sum>p \<in> set ps. f p) < (\<Sum>p \<in> set ps. g p)"
      using le p by (intro sum_strict_mono_ex1) (auto simp: not_less)
    then show False using eq by simp
  qed
  have False if f: "largest_remainder_spec ps x f T" and g: "largest_remainder_spec ps x g T"
    and fp: "f p < g p" and eq: "(\<Sum>p \<in> set ps. f p) = (\<Sum>p \<in> set ps. g p)" for f g
  proof -
    from ex [OF fp eq] obtain q where q: "q \<in> set ps" "g q < f q" by blast
    have "f p = \<lfloor>x p\<rfloor>" "g p = \<lfloor>x p\<rfloor> + 1" "g q = \<lfloor>x q\<rfloor>" "f q = \<lfloor>x q\<rfloor> + 1"
      using f g p q fp unfolding largest_remainder_spec_def by force+
    then have "frac (x p) < frac (x q) \<or> frac (x p) = frac (x q) \<and> q < p"
      and "frac (x q) < frac (x p) \<or> frac (x q) = frac (x p) \<and> p < q"
      using f g p q(1) unfolding largest_remainder_spec_def by blast+
    then show False by auto
  qed
  then show False using n m neq sums by (metis linorder_neqE)
qed

lemma sum_list_floor_bounds:
  fixes x :: "'a \<Rightarrow> rat"
  assumes "ps \<noteq> []"
  shows "of_int (sum_list (map (\<lambda>p. \<lfloor>x p\<rfloor>) ps)) \<le> sum_list (map x ps)"
    and "sum_list (map x ps) < of_int (sum_list (map (\<lambda>p. \<lfloor>x p\<rfloor>) ps)) + of_nat (length ps)"
proof -
  have le: "of_int \<lfloor>x p\<rfloor> \<le> x p" and lt: "x p < of_int \<lfloor>x p\<rfloor> + 1" for p using floor_correct [of "x p"] by simp_all
  show "of_int (sum_list (map (\<lambda>p. \<lfloor>x p\<rfloor>) ps)) \<le> sum_list (map x ps)"
    by (induction ps) (simp_all add: add_mono le)
  show "sum_list (map x ps) < of_int (sum_list (map (\<lambda>p. \<lfloor>x p\<rfloor>) ps)) + of_nat (length ps)"
    using assms
  proof (induction ps rule: list_nonempty_induct)
    case (single p)
    then show ?case using lt by simp
  next
    case (cons p ps)
    then show ?case using lt [of p] by simp
  qed
qed

lemma remaining_bounds:
  fixes x :: "'a \<Rightarrow> rat" and T :: int
  assumes "ps \<noteq> []" and "\<bar>of_int T - sum_list (map x ps)\<bar> < 1"
  shows "0 \<le> T - sum_list (map (\<lambda>p. \<lfloor>x p\<rfloor>) ps)"
    and "T - sum_list (map (\<lambda>p. \<lfloor>x p\<rfloor>) ps) \<le> int (length ps)"
proof -
  let ?F = "sum_list (map (\<lambda>p. \<lfloor>x p\<rfloor>) ps)"
  note b = sum_list_floor_bounds [OF assms(1), of x]
  have "of_int ?F < (of_int (T + 1) :: rat)" using b(1) assms(2) by simp
  then show "0 \<le> T - ?F" by (simp only: of_int_less_iff)
  have "of_int T < (of_int (?F + int (length ps) + 1) :: rat)"
    using b(2) assms(2) by simp
  then show "T - ?F \<le> int (length ps)" by (simp only: of_int_less_iff)
qed

lemma base_ok_exact:
  assumes wf: "wf_context ctx" and f: "0 \<le> f" and sh: "0 \<le> dval (share_of shares p)"
    and rep: "representable ctx (dval (share_of shares p) * of_int f)"
  shows "\<exists>s r. to_minor_units ctx (share_of shares p) f = Ok s \<and> dval s = dval (share_of shares p) * of_int f \<and>
    dec_sub ctx s (dec_of_int (base_allocation ''largest_remainder'' s)) = Ok r"
proof -
  obtain s where s: "to_minor_units ctx (share_of shares p) f = Ok s" "dval s = dval (share_of shares p) * of_int f"
    using to_minor_units_exactly [OF rep wf] by blast
  have pos: "0 \<le> dval s" using s(2) sh f by simp
  have "representable ctx (frac (dval s))" using representable_frac [OF _ pos wf] rep s(2) by simp
  then have "representable ctx (dval s - dval (dec_of_int (base_allocation ''largest_remainder'' s)))"
    using pos by (simp add: base_allocation_floor frac_def)
  then show ?thesis using dec_sub_exactly [OF _ wf] s by blast
qed

lemma base_ok_half_up:
  assumes wf: "wf_context ctx" and f: "0 \<le> f" and sh: "0 \<le> dval (share_of shares p)"
    and rep: "representable ctx (dval (share_of shares p) * of_int f)"
  shows "\<exists>s r. to_minor_units ctx (share_of shares p) f = Ok s \<and> dval s = dval (share_of shares p) * of_int f \<and>
    dec_sub ctx s (dec_of_int (base_allocation ''payer'' s)) = Ok r"
proof -
  obtain s where s: "to_minor_units ctx (share_of shares p) f = Ok s" "dval s = dval (share_of shares p) * of_int f"
    using to_minor_units_exactly [OF rep wf] by blast
  have pos: "0 \<le> dval s" using s(2) sh f by simp
  have "representable ctx (dval s - dval (dec_of_int (base_allocation ''payer'' s)))"
    using representable_half_up [OF _ pos wf] rep s(2) pos by (simp add: base_allocation_half_up)
  then show ?thesis using dec_sub_exactly [OF _ wf] s by blast
qed

text \<open>The integer stage succeeds when the exact shares miss the total by less than one unit.\<close>

lemma integer_stage_Ok:
  assumes wf: "wf_context ctx" and ps: "ps \<noteq> []" "distinct ps" and sh: "shares_ok shares ps"
    and rep: "\<forall>p \<in> set ps. representable ctx (dval (share_of shares p) * 10 ^ u)"
    and close: "\<bar>of_int T - sum_list (map (\<lambda>p. dval (share_of shares p) * 10 ^ u) ps)\<bar> < 1"
  shows "\<exists>fl rm s n. foldM (base_step ctx shares (10 ^ u) ''largest_remainder'') ([], [], 0) ps = Ok (fl, rm, s) \<and>
    validate_remainder_bounds (T - s) (length ps) ''largest_remainder'' = Ok () \<and>
    distribute_remaining ctx ''largest_remainder'' payer (T - s) fl rm = Ok (map (\<lambda>p. (p, n p)) ps) \<and>
    policy_spec ''largest_remainder'' payer ps (\<lambda>p. dval (share_of shares p) * 10 ^ u) n T"
proof -
  let ?x = "\<lambda>p. dval (share_of shares p) * 10 ^ u"
  let ?f = "(10::int) ^ u" and ?pol = "''largest_remainder''"
  have f: "0 \<le> ?f" by simp
  have "\<forall>p \<in> set ps. \<exists>s r. to_minor_units ctx (share_of shares p) ?f = Ok s \<and> dval s = ?x p \<and>
      dec_sub ctx s (dec_of_int (base_allocation ?pol s)) = Ok r"
    using base_ok_exact [OF wf f] sh rep by (simp add: shares_ok_def)
  then obtain su rem where base: "\<forall>p \<in> set ps. base_ok ctx shares ?f ?pol su rem p"
    and sx: "\<forall>p \<in> set ps. dval (su p) = ?x p" unfolding base_ok_def by metis
  have su: "\<forall>p \<in> set ps. 0 \<le> dval (su p)" using sx sh by (simp add: shares_ok_def)
  let ?fl = "map (\<lambda>p. (p, base_allocation ?pol (su p))) ps" and ?rm = "map (\<lambda>p. (p, rem p)) ps"
  let ?s = "sum_list (map (\<lambda>p. base_allocation ?pol (su p)) ps)"
  have fl: "?fl = map (\<lambda>p. (p, \<lfloor>dval (su p)\<rfloor>)) ps"
    and s: "?s = sum_list (map (\<lambda>p. \<lfloor>dval (su p)\<rfloor>) ps)" "?s = sum_list (map (\<lambda>p. \<lfloor>?x p\<rfloor>) ps)"
    using su sx by (simp_all add: base_allocation_floor cong: map_cong)
  from remaining_bounds [OF ps(1) close] have r: "0 \<le> T - ?s" "T - ?s \<le> int (length ps)"
    by (simp_all only: s(2))
  obtain n where n: "distribute_remaining ctx ?pol payer (T - ?s) ?fl ?rm = Ok (map (\<lambda>p. (p, n p)) ps)"
    and spec: "largest_remainder_spec ps (\<lambda>p. dval (su p)) n (sum_list (map (\<lambda>p. \<lfloor>dval (su p)\<rfloor>) ps) + (T - ?s))"
    using distribute_largest [OF wf ps(2) f sh base fl refl r] by blast
  have "largest_remainder_spec ps ?x n T"
    using spec sx by (simp add: s(1) [symmetric] largest_remainder_spec_def)
  moreover have "validate_remainder_bounds (T - ?s) (length ps) ?pol = Ok ()"
    using r by (simp add: validate_remainder_bounds_def)
  ultimately show ?thesis
    using base_fold_eq [OF sh subset_refl ps(2) base] n by (auto simp: policy_spec_def)
qed

text \<open>From the integer stage to the result.\<close>

lemma allocate_from_stage:
  assumes wf: "wf_context ctx" and u: "minor_units cur = Ok u" and ps: "ps \<noteq> []" "distinct ps"
    and t: "0 \<le> dval t" "grid_fits ctx u (dval t)" and sh: "shares_ok shares ps" and pol: "policy_ok policy payer ps"
    and stage: "foldM (base_step ctx shares (10 ^ u) policy) ([], [], 0) ps = Ok (fl, rm, s)"
      "validate_remainder_bounds (units_of u (dval t) - s) (length ps) policy = Ok ()"
      "distribute_remaining ctx policy payer (units_of u (dval t) - s) fl rm = Ok (map (\<lambda>p. (p, n p)) ps)"
    and nn: "\<forall>p \<in> set ps. 0 \<le> n p" "sum_list (map n ps) = units_of u (dval t)"
  shows "\<exists>y. allocate_minor_units ctx shares (Finite t) cur ps policy payer = Ok (map (\<lambda>p. (p, y p)) ps) \<and>
    (\<forall>p \<in> set ps. dval (y p) = of_int (n p) / 10 ^ u)"
proof -
  let ?T = "units_of u (dval t)"
  have u2: "u \<le> 2" using u by (rule minor_units_le)
  have T: "of_int ?T = dval t * 10 ^ u" using t(2) by (auto simp: grid_fits_def on_grid_def)
  have Tp: "?T < 10 ^ prec ctx"
    using t(2) on_grid_units [of u "dval t"] grid_fits_units [of ctx u ?T] by (simp add: grid_fits_def)
  have "\<forall>p \<in> set ps. 0 \<le> n p \<and> n p \<le> ?T" using nn le_sum_list_nonneg [of ps n] by auto
  then obtain y where y: "mapM (from_minor_units ctx (10 ^ u) (grid_unit u) (map (\<lambda>p. (p, n p)) ps)) ps = Ok (map (\<lambda>p. (p, y p)) ps)"
    and dy: "\<forall>p \<in> set ps. dval (y p) = of_int (n p) / 10 ^ u"
    using convert_back [OF wf u2 _ Tp] by blast
  have sy: "sum_list (map (\<lambda>p. dval (y p)) ps) = dval t"
  proof -
    have "sum_list (map (\<lambda>p. dval (y p)) ps) = sum_list (map (\<lambda>p. of_int (n p) / 10 ^ u) ps)"
      using dy by (simp cong: map_cong)
    also have "\<dots> = of_int (sum_list (map n ps)) / 10 ^ u"
      by (induction ps) (simp_all add: add_divide_distrib)
    finally show ?thesis using nn(2) T by simp
  qed
  have "\<exists>s. dec_sum ctx ZERO (map y ps) = Ok s \<and> dval s = dval ZERO + sum_list (map dval (map y ps))"
    using dy nn(1) t(2) sy by (intro dec_sum_exact [OF wf u2]) (auto simp: comp_def)
  then obtain z where z: "dec_sum ctx ZERO (dvalues (map (\<lambda>p. (p, y p)) ps)) = Ok z" "dval z = dval t"
    using sy by (auto simp: dvalues_def comp_def)
  obtain x where x: "to_minor_units ctx t (10 ^ u) = Ok x" "dec_to_int x = ?T"
    using total_units_exact [OF wf u2 t(2,1)] by blast
  have "validate_allocator_inputs ctx shares (Finite t) cur ps policy payer = Ok ()"
    using ps t sh pol by (simp add: validate_allocator_inputs_Ok_iff [OF wf u])
  then have "allocate_minor_units ctx shares (Finite t) cur ps policy payer = Ok (map (\<lambda>p. (p, y p)) ps)"
    using u x stage y z quantum_for_units_Ok [OF wf u2, unfolded quantum_for_units_def]
    by (simp add: allocate_minor_units_def require_finite_def Let_def dec_eq_iff)
  then show ?thesis using dy by blast
qed

lemma allocate_largest_Ok:
  assumes wf: "wf_context ctx" and u: "minor_units cur = Ok u" and ps: "ps \<noteq> []" "distinct ps"
    and t: "0 \<le> dval t" "grid_fits ctx u (dval t)" and sh: "shares_ok shares ps"
    and rep: "\<forall>p \<in> set ps. representable ctx (dval (share_of shares p) * 10 ^ u)"
    and close: "\<bar>dval t - sum_list (map (\<lambda>p. dval (share_of shares p)) ps)\<bar> * 10 ^ u < 1"
  shows "\<exists>res. allocate_minor_units ctx shares (Finite t) cur ps ''largest_remainder'' payer = Ok res"
proof -
  let ?x = "\<lambda>p. dval (share_of shares p) * 10 ^ u" and ?T = "units_of u (dval t)"
  have T: "of_int ?T = dval t * 10 ^ u" using t(2) by (auto simp: grid_fits_def on_grid_def)
  have "sum_list (map ?x ps) = sum_list (map (\<lambda>p. dval (share_of shares p)) ps) * 10 ^ u"
    by (rule sum_list_mult_const)
  then have "\<bar>of_int ?T - sum_list (map ?x ps)\<bar> < 1"
    using close by (simp only: T flip: left_diff_distrib) (simp add: abs_mult)
  from integer_stage_Ok [OF wf ps sh rep this, of payer] obtain fl rm s n where
    stage: "foldM (base_step ctx shares (10 ^ u) ''largest_remainder'') ([], [], 0) ps = Ok (fl, rm, s)"
      "validate_remainder_bounds (?T - s) (length ps) ''largest_remainder'' = Ok ()"
      "distribute_remaining ctx ''largest_remainder'' payer (?T - s) fl rm = Ok (map (\<lambda>p. (p, n p)) ps)"
    and spec: "policy_spec ''largest_remainder'' payer ps ?x n ?T" by blast
  have "\<forall>p \<in> set ps. 0 \<le> ?x p" using sh by (simp add: shares_ok_def)
  note nn = policy_spec_nonneg [OF spec this]
  have "policy_ok ''largest_remainder'' payer ps" by (simp add: policy_ok_def)
  from allocate_from_stage [OF wf u ps t sh this stage] nn show ?thesis by auto
qed

text \<open>
  The payer policy: the other participants get their shares rounded half up, and what is left of the
  total is the payer's.
\<close>

definition half_up_units :: "nat \<Rightarrow> (string, py_decimal) dict \<Rightarrow> string \<Rightarrow> int" where
  "half_up_units u shares p = \<lfloor>dval (share_of shares p) * 10 ^ u + 1 / 2\<rfloor>"

definition left_for_payer :: "nat \<Rightarrow> (string, py_decimal) dict \<Rightarrow> string list \<Rightarrow> string \<Rightarrow> dec \<Rightarrow> int" where
  "left_for_payer u shares ps q t = units_of u (dval t) - (\<Sum>p \<in> set ps - {q}. half_up_units u shares p)"

lemma payer_base_loop:
  assumes wf: "wf_context ctx" and ps: "distinct ps" and sh: "shares_ok shares ps"
    and rep: "\<forall>p \<in> set ps. representable ctx (dval (share_of shares p) * 10 ^ u)"
  shows "\<exists>rm. foldM (base_step ctx shares (10 ^ u) ''payer'') ([], [], 0) ps =
    Ok (map (\<lambda>p. (p, half_up_units u shares p)) ps, rm, sum_list (map (half_up_units u shares) ps))"
proof -
  have "\<forall>p \<in> set ps. \<exists>s d. to_minor_units ctx (share_of shares p) (10 ^ u) = Ok s \<and>
      dval s = dval (share_of shares p) * 10 ^ u \<and> dec_sub ctx s (dec_of_int (base_allocation ''payer'' s)) = Ok d"
    using base_ok_half_up [OF wf, of "10 ^ u"] sh rep by (simp add: shares_ok_def)
  then obtain su rem where base: "\<forall>p \<in> set ps. base_ok ctx shares (10 ^ u) ''payer'' su rem p"
    and sx: "\<forall>p \<in> set ps. dval (su p) = dval (share_of shares p) * 10 ^ u" unfolding base_ok_def by metis
  have "\<forall>p \<in> set ps. base_allocation ''payer'' (su p) = half_up_units u shares p"
    using sx sh by (simp add: shares_ok_def base_allocation_half_up half_up_units_def)
  then show ?thesis using base_fold_eq [OF sh subset_refl ps base] by (auto cong: map_cong)
qed

text \<open>A refusal by the bound on the remainder or by the distribution is a refusal of the allocator.\<close>

lemma allocate_refused:
  assumes wf: "wf_context ctx" and u: "minor_units cur = Ok u" and ps: "ps \<noteq> []" "distinct ps"
    and t: "0 \<le> dval t" "grid_fits ctx u (dval t)" and sh: "shares_ok shares ps" and pol: "policy_ok policy payer ps"
    and stage: "foldM (base_step ctx shares (10 ^ u) policy) ([], [], 0) ps = Ok (fl, rm, s)"
      "rbind (validate_remainder_bounds (units_of u (dval t) - s) (length ps) policy) (\<lambda>_.
         distribute_remaining ctx policy payer (units_of u (dval t) - s) fl rm) = Inl e"
  shows "allocate_minor_units ctx shares (Finite t) cur ps policy payer = Inl e"
proof -
  have u2: "u \<le> 2" using u by (rule minor_units_le)
  obtain x where x: "to_minor_units ctx t (10 ^ u) = Ok x" "dec_to_int x = units_of u (dval t)"
    using total_units_exact [OF wf u2 t(2,1)] by blast
  have "validate_allocator_inputs ctx shares (Finite t) cur ps policy payer = Ok ()"
    using ps t sh pol by (simp add: validate_allocator_inputs_Ok_iff [OF wf u])
  then show ?thesis
    using u x stage quantum_for_units_Ok [OF wf u2, unfolded quantum_for_units_def]
    by (cases "validate_remainder_bounds (units_of u (dval t) - s) (length ps) policy")
       (simp_all add: allocate_minor_units_def require_finite_def Let_def)
qed

section \<open>The service charge from a rate\<close>

lemma ndigits_rescale:
  assumes "dcoeff d \<noteq> 0"
  shows "int (ndigits (dcoeff (dec_rescale r e d))) \<le> max 1 (adjusted d - e + 2)"
proof (cases "e \<le> dexp d")
  case True
  then show ?thesis using assms by (simp add: dec_rescale_def ndigits_mult_power adjusted_def)
next
  case False
  let ?k = "nat (e - dexp d)" and ?n = "ndigits (dcoeff d)"
  have "(10::nat) ^ ?n \<le> 10 ^ (?k + (?n - ?k))" by (rule power_increasing) simp_all
  then have "dcoeff d < 10 ^ (?k + (?n - ?k))" using ndigits_less [of "dcoeff d"] by (rule order_less_le_trans [rotated])
  then have "round_shift r ?k (dcoeff d) \<le> 10 ^ (?n - ?k)" by (rule round_shift_le)
  then have "round_shift r ?k (dcoeff d) < 10 ^ Suc (?n - ?k)"
    by (rule order_le_less_trans) simp
  then have "ndigits (round_shift r ?k (dcoeff d)) \<le> Suc (?n - ?k)" by (subst ndigits_le_iff) simp_all
  then show ?thesis using False assms by (simp add: dec_rescale_def adjusted_def)
qed

lemma ndigits_mult: "ndigits (a * b) \<le> ndigits a + ndigits b"
proof -
  have "a * b < 10 ^ ndigits a * 10 ^ ndigits b" using ndigits_less by (intro mult_strict_mono') auto
  then show ?thesis by (subst ndigits_le_iff) (simp_all add: power_add)
qed

text \<open>The exponents and lengths for which the private contexts of the computation suffice.\<close>

definition charge_in_range :: "dec \<Rightarrow> dec \<Rightarrow> bool" where
  "charge_in_range a b \<longleftrightarrow>
     int (ndigits (dcoeff a) + ndigits (dcoeff b)) \<le> 999999 \<and>
     - 999999 \<le> dexp a + dexp b \<and> \<bar>adjusted (dec_mul_exact a b)\<bar> \<le> 999995"

lemma service_charge_product:
  assumes "charge_in_range a b" and "ctx = context_of_prec (max 1 (ndigits (dcoeff a) + ndigits (dcoeff b)))"
  shows "dec_mul ctx a b = Ok (dec_mul_exact a b)"
  using assms ndigits_mult [of "dcoeff a" "dcoeff b"] unfolding dec_mul_def
  by (intro dec_fix_id)
     (auto simp: charge_in_range_def context_of_prec_def default_context_def Etiny_def dec_mul_exact_def)

lemma service_charge_exact:
  assumes u: "minor_units cur = Ok u" and range: "charge_in_range a b" and pos: "0 \<le> dval a" "0 \<le> dval b"
  shows "\<exists>y. quantized_service_charge_from_rate a b cur = Ok y \<and>
    dval y = of_int \<lfloor>dval a * dval b * 10 ^ u + 1 / 2\<rfloor> / 10 ^ u"
proof -
  let ?P = "max 1 (ndigits (dcoeff a) + ndigits (dcoeff b))" and ?d = "dec_mul_exact a b"
  define ctx where "ctx = context_of_prec ?P"
  define ctx' where "ctx' = ctx\<lparr>prec := max ?P (nat (max 1 (adjusted ?d + int u + 2)))\<rparr>"
  have u2: "u \<le> 2" using u by (rule minor_units_le)
  have fields: "Emin ctx' = - 999999" "Emax ctx' = 999999"
    "prec ctx' = max ?P (nat (max 1 (adjusted ?d + int u + 2)))"
    by (simp_all add: ctx'_def ctx_def context_of_prec_def default_context_def)
  have wf: "wf_context ctx'"
    using range u2 by (auto simp: wf_context_def Etiny_def fields charge_in_range_def)
  have "\<exists>y. dec_quantize ctx' ROUND_HALF_UP ?d (grid_unit u) = Ok y"
  proof (cases "dcoeff ?d = 0")
    case True
    then show ?thesis using u2 wf by (auto simp: dec_quantize_Ok_iff [OF wf] fields wf_context_def)
  next
    case False
    let ?y = "dec_rescale ROUND_HALF_UP (- int u) ?d"
    have len: "int (ndigits (dcoeff ?y)) \<le> max 1 (adjusted ?d + int u + 2)"
      using ndigits_rescale [OF False, of ROUND_HALF_UP "- int u"] by simp
    moreover have "dexp ?y = - int u" by (simp add: dec_rescale_def)
    ultimately have "adjusted ?y \<le> 999999"
      using range by (auto simp: adjusted_def [of ?y] charge_in_range_def)
    moreover have "ndigits (dcoeff ?y) \<le> prec ctx'" using len by (auto simp: fields)
    moreover have "adjusted ?d + int u + 1 \<le> int (prec ctx')" by (auto simp: fields)
    ultimately show ?thesis using range u2 wf
      by (auto simp: dec_quantize_Ok_iff [OF wf] fields charge_in_range_def wf_context_def)
  qed
  then obtain y where y: "dec_quantize ctx' ROUND_HALF_UP ?d (grid_unit u) = Ok y" by blast
  have "quantized_service_charge_from_rate a b cur = Ok y"
    using service_charge_product [OF range ctx_def] y u round_for_currency_finite [OF wf u, of ?d]
    by (simp add: quantized_service_charge_from_rate_def ctx'_def ctx_def Let_def context_of_prec_def)
  moreover have "dval y = of_int \<lfloor>dval ?d * 10 ^ u + 1 / 2\<rfloor> / 10 ^ u"
    using quantize_half_up [OF wf dexp_grid_unit y] pos by simp
  ultimately show ?thesis by auto
qed

section \<open>Properties of the allocation\<close>

lemma allocate_currency:
  assumes "allocate_minor_units ctx shares tot cur ps policy payer = Ok res"
  obtains u where "minor_units cur = Ok u"
  using assms by (auto simp: allocate_minor_units_def rbind_Ok_iff)

lemma representable_scaled:
  assumes "ndigits c \<le> prec ctx" "Etiny ctx \<le> e + int u" "e + int u \<le> Etop ctx"
  shows "representable ctx (dval (Dec s c e) * 10 ^ u)"
proof -
  have "dval (Dec s c e) * 10 ^ u = dval (Dec s c (e + int u))" by (simp add: dval_def ten_powi_add)
  then show ?thesis using assms representable_dec [of "Dec s c (e + int u)" ctx] by simp
qed

text \<open>
  C4 (allocation reconciles). Whatever the policy, when the minor-unit allocator returns, it
  gives every participant, in order, exactly one share; the shares are non-negative whole minor
  units and their exact sum is the authoritative total.
\<close>

theorem allocation_reconciles:
  assumes "wf_context ctx" and "allocate_minor_units ctx shares tot cur ps policy payer = Ok res"
  shows "\<exists>t u. tot = Finite t \<and> minor_units cur = Ok u \<and> map fst res = ps \<and> distinct ps \<and>
    sum_list (map dval (dvalues res)) = dval t \<and>
    (\<forall>y \<in> set (dvalues res). 0 \<le> dval y \<and> grid_fits ctx u (dval y))"
proof -
  obtain u where u: "minor_units cur = Ok u" using assms(2) by (rule allocate_currency)
  then show ?thesis using allocate_total [OF assms u] by blast
qed

text \<open>Concrete inputs: a nine-digit context and a bill of 10.00 over three people.\<close>

abbreviation nine_digits :: dcontext where
  "nine_digits \<equiv> context_of_prec 9"

abbreviation three_shares :: "(string, py_decimal) dict" where
  "three_shares \<equiv> [(''ann'', Finite (Dec False 3335 (- 3))), (''bob'', Finite (Dec False 3335 (- 3))),
     (''cat'', Finite (Dec False 333 (- 2)))]"

abbreviation three_people :: "string list" where
  "three_people \<equiv> [''ann'', ''bob'', ''cat'']"

lemma three_shares_allocated:
  "allocate_minor_units nine_digits three_shares (Finite (Dec False 1000 (- 2))) ''SGD'' three_people
     ''largest_remainder'' None
   = Ok [(''ann'', Dec False 334 (- 2)), (''bob'', Dec False 333 (- 2)), (''cat'', Dec False 333 (- 2))]"
  by code_simp

lemma wf_nine_digits: "wf_context nine_digits"
  by code_simp

theorem allocation_reconciles_witness:
  "\<exists>t u. Finite (Dec False 1000 (- 2)) = Finite t \<and> minor_units ''SGD'' = Ok u \<and>
    sum_list (map dval (dvalues [(''ann'', Dec False 334 (- 2)), (''bob'', Dec False 333 (- 2)),
      (''cat'', Dec False 333 (- 2))])) = dval t"
  using allocation_reconciles [OF wf_nine_digits three_shares_allocated] by blast

text \<open>
  C5 (largest remainder). When the scaled shares are representable, the largest-remainder policy
  returns the largest-remainder apportionment of the total: every share is rounded down or up to
  a neighbouring whole unit, the total is met, a rounded-up share has a larger fractional part
  than a rounded-down one (ties by participant id), and no other allocation does all this.
\<close>

theorem largest_remainder_allocation:
  assumes "wf_context ctx" and "minor_units cur = Ok u"
    and "\<forall>p \<in> set ps. representable ctx (dval (share_of shares p) * 10 ^ u)"
    and "allocate_minor_units ctx shares (Finite t) cur ps ''largest_remainder'' payer = Ok res"
  shows "\<exists>n y. res = map (\<lambda>p. (p, y p)) ps \<and> (\<forall>p \<in> set ps. dval (y p) = of_int (n p) / 10 ^ u) \<and>
    largest_remainder_spec ps (\<lambda>p. dval (share_of shares p) * 10 ^ u) n (units_of u (dval t)) \<and>
    (\<forall>m. largest_remainder_spec ps (\<lambda>p. dval (share_of shares p) * 10 ^ u) m (units_of u (dval t)) \<longrightarrow>
       (\<forall>p \<in> set ps. m p = n p))"
proof -
  let ?x = "\<lambda>p. dval (share_of shares p) * 10 ^ u"
  obtain t' su n y where t': "Finite t = Finite t'" "0 \<le> dval t'" "grid_fits ctx u (dval t')"
    and sh: "shares_ok shares ps" and ne: "ps \<noteq> []" and d: "distinct ps"
    and su: "\<forall>p \<in> set ps. to_minor_units ctx (share_of shares p) (10 ^ u) = Ok (su p)"
    and n: "policy_spec ''largest_remainder'' payer ps (\<lambda>p. dval (su p)) n (units_of u (dval t'))"
    and res: "res = map (\<lambda>p. (p, y p)) ps" and y: "\<forall>p \<in> set ps. dval (y p) = of_int (n p) / 10 ^ u \<and> 0 \<le> n p"
    by (rule allocate_Ok [OF assms(1,2,4)])
  have "dval (su p) = ?x p" if "p \<in> set ps" for p
    using to_minor_units_exactly [of ctx "share_of shares p" "10 ^ u"] assms(1,3) su that by fastforce
  then have spec: "largest_remainder_spec ps ?x n (units_of u (dval t))"
    using n t'(1) by (simp add: policy_spec_def largest_remainder_spec_def)
  then show ?thesis using res y largest_remainder_unique [OF _ spec d] by blast
qed

lemma three_shares_of:
  "share_of three_shares ''ann'' = Dec False 3335 (- 3)" "share_of three_shares ''bob'' = Dec False 3335 (- 3)"
  "share_of three_shares ''cat'' = Dec False 333 (- 2)"
  by code_simp+

lemma three_shares_representable:
  "\<forall>p \<in> set three_people. representable nine_digits (dval (share_of three_shares p) * 10 ^ 2)"
proof -
  have "representable nine_digits (dval (Dec False 3335 (- 3)) * 10 ^ 2)"
    "representable nine_digits (dval (Dec False 333 (- 2)) * 10 ^ 2)"
    by (intro representable_scaled; code_simp)+
  then show ?thesis by (simp add: three_shares_of)
qed

lemma three_shares_currency: "minor_units ''SGD'' = Ok 2"
  by code_simp

theorem largest_remainder_allocation_witness:
  "\<exists>n y. [(''ann'', Dec False 334 (- 2)), (''bob'', Dec False 333 (- 2)), (''cat'', Dec False 333 (- 2))]
      = map (\<lambda>p. (p, y p)) three_people \<and>
    largest_remainder_spec three_people (\<lambda>p. dval (share_of three_shares p) * 10 ^ 2) n
      (units_of 2 (dval (Dec False 1000 (- 2))))"
  using largest_remainder_allocation [OF wf_nine_digits three_shares_currency three_shares_representable
      three_shares_allocated] by (elim exE conjE, intro exI conjI)

text \<open>
  C6 (allocation succeeds). For a valid total, distinct participants and non-negative shares whose
  scaled values are representable, the largest-remainder allocator returns whenever the exact sum
  of the shares misses the total by less than one minor unit.
\<close>

theorem allocation_succeeds:
  assumes "wf_context ctx" and "minor_units cur = Ok u" and "ps \<noteq> []" and "distinct ps"
    and "0 \<le> dval t" and "grid_fits ctx u (dval t)" and "shares_ok shares ps"
    and "\<forall>p \<in> set ps. representable ctx (dval (share_of shares p) * 10 ^ u)"
    and "\<bar>dval t - sum_list (map (\<lambda>p. dval (share_of shares p)) ps)\<bar> * 10 ^ u < 1"
  shows "\<exists>res. allocate_minor_units ctx shares (Finite t) cur ps ''largest_remainder'' payer = Ok res"
  using assms by (rule allocate_largest_Ok)

theorem allocation_succeeds_witness:
  "\<exists>res. allocate_minor_units nine_digits three_shares (Finite (Dec False 1000 (- 2))) ''SGD'' three_people
     ''largest_remainder'' None = Ok res"
proof -
  have "three_people \<noteq> []" "distinct three_people" "0 \<le> dval (Dec False 1000 (- 2))"
    "grid_fits nine_digits 2 (dval (Dec False 1000 (- 2)))" "shares_ok three_shares three_people"
    "\<bar>dval (Dec False 1000 (- 2)) - sum_list (map (\<lambda>p. dval (share_of three_shares p)) three_people)\<bar> * 10 ^ 2 < 1"
    by code_simp+
  note h = this
  show ?thesis
    by (rule allocation_succeeds [OF wf_nine_digits three_shares_currency h(1-5) three_shares_representable h(6)])
qed

text \<open>
  C7 (payer policy). With the payer policy every other participant's final share is the exact share
  rounded half up to the minor unit, and the payer's share is what is left of the total, so that the
  shares add up to it. The allocator returns this whenever what is left is not negative and differs
  from the payer's own rounded share by at most one unit per participant; otherwise it raises a
  \<open>ValueError\<close>.
\<close>

theorem payer_allocation:
  assumes "wf_context ctx" and "minor_units cur = Ok u" and "distinct ps" and "q \<in> set ps"
    and "0 \<le> dval t" and "grid_fits ctx u (dval t)" and "shares_ok shares ps"
    and "\<forall>p \<in> set ps. representable ctx (dval (share_of shares p) * 10 ^ u)"
  shows "if 0 \<le> left_for_payer u shares ps q t \<and>
      \<bar>left_for_payer u shares ps q t - half_up_units u shares q\<bar> \<le> int (length ps)
    then \<exists>y. allocate_minor_units ctx shares (Finite t) cur ps ''payer'' (Some q) = Ok (map (\<lambda>p. (p, y p)) ps) \<and>
      (\<forall>p \<in> set ps. p \<noteq> q \<longrightarrow> dval (y p) = of_int (half_up_units u shares p) / 10 ^ u) \<and>
      dval (y q) = of_int (left_for_payer u shares ps q t) / 10 ^ u \<and> sum_list (map (\<lambda>p. dval (y p)) ps) = dval t
    else \<exists>m. allocate_minor_units ctx shares (Finite t) cur ps ''payer'' (Some q) = raise ValueError m"
proof -
  let ?T = "units_of u (dval t)"
  define r where "r = half_up_units u shares"
  define left where "left = left_for_payer u shares ps q t"
  obtain rm where loop: "foldM (base_step ctx shares (10 ^ u) ''payer'') ([], [], 0) ps =
      Ok (map (\<lambda>p. (p, r p)) ps, rm, sum_list (map r ps))"
    using payer_base_loop [OF assms(1,3,7,8)] by (auto simp: r_def)
  have ps: "ps \<noteq> []" and pol: "policy_ok ''payer'' (Some q) ps" using assms(4) by (auto simp: policy_ok_def)
  have rem: "?T - sum_list (map r ps) = left - r q"
    using assms(3,4) by (simp add: left_def left_for_payer_def r_def sum_list_distinct_conv_sum_set sum.remove [of _ q])
  let ?n = "\<lambda>p. if p = q then left else r p"
  have r0: "0 \<le> r p" if "p \<in> set ps" for p using assms(7) that by (simp add: r_def half_up_units_def shares_ok_def floor_half_nonneg)
  note dist = payer_distribution [OF assms(3,4), of ctx "left - r q" r rm]
  have bounds: "validate_remainder_bounds (left - r q) (length ps) ''payer'' =
      (if \<bar>left - r q\<bar> \<le> int (length ps) then Ok () else raise ValueError ''payer remainder exceeds allowed bound'')"
    by (simp add: validate_remainder_bounds_def)
  show ?thesis
  proof (cases "0 \<le> left \<and> \<bar>left - r q\<bar> \<le> int (length ps)")
    case True
    have "sum_list (map ?n ps) = ?T" using rem assms(3,4)
      by (simp add: sum_list_distinct_conv_sum_set sum.remove [of _ q])
    moreover have "\<forall>p \<in> set ps. 0 \<le> ?n p" using True r0 by simp
    ultimately have "\<exists>y. allocate_minor_units ctx shares (Finite t) cur ps ''payer'' (Some q) = Ok (map (\<lambda>p. (p, y p)) ps) \<and>
        (\<forall>p \<in> set ps. dval (y p) = of_int (?n p) / 10 ^ u)"
      using True dist bounds
      by (intro allocate_from_stage [OF assms(1,2) ps assms(3,5-7) pol loop]) (simp_all add: rem)
    then obtain y where "allocate_minor_units ctx shares (Finite t) cur ps ''payer'' (Some q) = Ok (map (\<lambda>p. (p, y p)) ps)"
      "\<forall>p \<in> set ps. dval (y p) = of_int (?n p) / 10 ^ u" by blast
    moreover from this(1) have "sum_list (map (\<lambda>p. dval (y p)) ps) = dval t"
      using allocate_total [OF assms(1) _ assms(2)] by (fastforce simp: dvalues_def comp_def)
    ultimately have "\<exists>y. allocate_minor_units ctx shares (Finite t) cur ps ''payer'' (Some q) = Ok (map (\<lambda>p. (p, y p)) ps) \<and>
        (\<forall>p \<in> set ps. p \<noteq> q \<longrightarrow> dval (y p) = of_int (r p) / 10 ^ u) \<and> dval (y q) = of_int left / 10 ^ u \<and>
        sum_list (map (\<lambda>p. dval (y p)) ps) = dval t" using assms(4) by (intro exI [of _ y]) simp
    then show ?thesis using True by (simp only: r_def left_def simp_thms if_True)
  next
    case False
    then have "\<exists>m. rbind (validate_remainder_bounds (?T - sum_list (map r ps)) (length ps) ''payer'') (\<lambda>_.
        distribute_remaining ctx ''payer'' (Some q) (?T - sum_list (map r ps)) (map (\<lambda>p. (p, r p)) ps) rm) = raise ValueError m"
      using r0 [OF assms(4)] unfolding rem bounds dist by (cases "\<bar>left - r q\<bar> \<le> int (length ps)") auto
    then have "\<exists>m. allocate_minor_units ctx shares (Finite t) cur ps ''payer'' (Some q) = raise ValueError m"
      using allocate_refused [OF assms(1,2) ps assms(3,5-7) pol loop] by auto
    then show ?thesis using False by (simp only: r_def left_def simp_thms if_False)
  qed
qed

theorem payer_allocation_witness:
  "\<exists>y. allocate_minor_units nine_digits three_shares (Finite (Dec False 1000 (- 2))) ''SGD'' three_people
      ''payer'' (Some ''cat'') = Ok (map (\<lambda>p. (p, y p)) three_people) \<and>
    dval (y ''ann'') = 334 / 100 \<and> dval (y ''bob'') = 334 / 100 \<and> dval (y ''cat'') = 332 / 100"
proof -
  have h: "distinct three_people" "''cat'' \<in> set three_people" "0 \<le> dval (Dec False 1000 (- 2))"
    "grid_fits nine_digits 2 (dval (Dec False 1000 (- 2)))" "shares_ok three_shares three_people" by code_simp+
  have v: "half_up_units 2 three_shares ''ann'' = 334" "half_up_units 2 three_shares ''bob'' = 334"
    "half_up_units 2 three_shares ''cat'' = 333"
    "left_for_payer 2 three_shares three_people ''cat'' (Dec False 1000 (- 2)) = 332" by code_simp+
  from payer_allocation [OF wf_nine_digits three_shares_currency h three_shares_representable] show ?thesis
    by (auto simp: v)
qed

text \<open>
  C8 (service charge). The charge computed from a rate is the exact product of the item total and
  the rate, rounded half up once to the minor unit: no precision of a context comes into it, as
  long as exponents and lengths are within the decimal module's limits.
\<close>

theorem service_charge_rounds_once:
  assumes "minor_units cur = Ok u" and "charge_in_range item_total rate"
    and "0 \<le> dval item_total" and "0 \<le> dval rate"
  shows "\<exists>y. quantized_service_charge_from_rate item_total rate cur = Ok y \<and>
    dval y = of_int \<lfloor>dval item_total * dval rate * 10 ^ u + 1 / 2\<rfloor> / 10 ^ u"
  using assms by (rule service_charge_exact)

theorem service_charge_rounds_once_witness:
  "\<exists>y. quantized_service_charge_from_rate (Dec False 1055 (- 2)) (Dec False 1 (- 1)) ''SGD'' = Ok y \<and>
    dval y = 106 / 100"
proof -
  have h: "charge_in_range (Dec False 1055 (- 2)) (Dec False 1 (- 1))"
    "0 \<le> dval (Dec False 1055 (- 2))" "0 \<le> dval (Dec False 1 (- 1))" by code_simp+
  have "of_int \<lfloor>dval (Dec False 1055 (- 2)) * dval (Dec False 1 (- 1)) * 10 ^ 2 + 1 / 2\<rfloor> / 10 ^ 2 = (106 / 100 :: rat)"
    by code_simp
  then show ?thesis using service_charge_rounds_once [OF three_shares_currency h] by simp
qed

end
