(* ===== verification/Greedy_Matching.thy ===== *)
theory Greedy_Matching
  imports Money
begin

text \<open>
  Matching debtors with creditors, the algorithm behind both settlement loops of the repository
  (the receipt calculator's and the settlement runtime's): an abstract version on whole minor
  units with its correctness lemmas, and the contract of a loop that refines it on decimals.
\<close>

section \<open>Matching whole units\<close>

function greedy :: "('p \<times> int) list \<Rightarrow> ('p \<times> int) list
    \<Rightarrow> ('p \<times> 'p \<times> int) list \<times> ('p \<times> int) list \<times> ('p \<times> int) list" where
  "greedy (d # ds) (c # cs) =
     (let m = min (snd d) (snd c);
          rest = greedy (if snd d = m then ds else (fst d, snd d - m) # ds)
                        (if snd c = m then cs else (fst c, snd c - m) # cs)
      in ((fst d, fst c, m) # fst rest, snd rest))"
| "greedy [] cs = ([], [], cs)"
| "greedy ds [] = ([], ds, [])"
  by pat_completeness auto
termination
  by (relation "measure (\<lambda>(ds, cs). length ds + length cs)") (auto simp: min_def)

definition amount_of :: "('p \<times> 'a :: comm_monoid_add) list \<Rightarrow> 'p \<Rightarrow> 'a" where
  "amount_of es p = sum_list (map snd (filter (\<lambda>e. fst e = p) es))"

definition paid_by :: "('p \<times> 'p \<times> 'a :: comm_monoid_add) list \<Rightarrow> 'p \<Rightarrow> 'a" where
  "paid_by obs p = sum_list (map (\<lambda>ob. snd (snd ob)) (filter (\<lambda>ob. fst ob = p) obs))"

definition received_by :: "('p \<times> 'p \<times> 'a :: comm_monoid_add) list \<Rightarrow> 'p \<Rightarrow> 'a" where
  "received_by obs p = sum_list (map (\<lambda>ob. snd (snd ob)) (filter (\<lambda>ob. fst (snd ob) = p) obs))"

lemma amount_of_simps [simp]:
  "amount_of [] p = 0"
  "amount_of (e # es) p = (if fst e = p then snd e else 0) + amount_of es p"
  by (simp_all add: amount_of_def)

lemma flow_simps [simp]:
  "paid_by [] p = 0"
  "paid_by (ob # obs) p = (if fst ob = p then snd (snd ob) else 0) + paid_by obs p"
  "received_by [] p = 0"
  "received_by (ob # obs) p = (if fst (snd ob) = p then snd (snd ob) else 0) + received_by obs p"
  by (simp_all add: paid_by_def received_by_def)

lemma greedy_conserves:
  "paid_by (fst (greedy ds cs)) p + amount_of (fst (snd (greedy ds cs))) p = amount_of ds p"
  "received_by (fst (greedy ds cs)) p + amount_of (snd (snd (greedy ds cs))) p = amount_of cs p"
  by (induction ds cs rule: greedy.induct) (auto simp: Let_def algebra_simps)

lemma greedy_exhausts: "fst (snd (greedy ds cs)) = [] \<or> snd (snd (greedy ds cs)) = []"
  by (induction ds cs rule: greedy.induct) (auto simp: Let_def)

definition all_positive :: "('p \<times> 'a :: {zero, ord}) list \<Rightarrow> bool" where
  "all_positive es \<longleftrightarrow> (\<forall>e \<in> set es. 0 < snd e)"

lemma greedy_positive:
  assumes "all_positive ds" and "all_positive cs"
  shows "(\<forall>ob \<in> set (fst (greedy ds cs)). 0 < snd (snd ob)) \<and>
    all_positive (fst (snd (greedy ds cs))) \<and> all_positive (snd (snd (greedy ds cs)))"
  using assms
proof (induction ds cs rule: greedy.induct)
  case (1 d ds c cs)
  let ?m = "min (snd d) (snd c)"
  let ?ds = "if snd d = ?m then ds else (fst d, snd d - ?m) # ds"
  let ?cs = "if snd c = ?m then cs else (fst c, snd c - ?m) # cs"
  have "all_positive ?ds" "all_positive ?cs" "0 < ?m" using 1(2,3) by (auto simp: all_positive_def min_def)
  then show ?case using 1(1) [OF refl] by (simp add: Let_def)
qed auto

lemma greedy_keys:
  "\<forall>ob \<in> set (fst (greedy ds cs)). fst ob \<in> fst ` set ds \<and> fst (snd ob) \<in> fst ` set cs"
  by (induction ds cs rule: greedy.induct) (auto simp: Let_def split: if_splits)

lemma greedy_keys_pair:
  assumes "(a, b) \<in> (\<lambda>ob. (fst ob, fst (snd ob))) ` set (fst (greedy ds cs))"
  shows "a \<in> fst ` set ds \<and> b \<in> fst ` set cs"
proof -
  obtain ob where "ob \<in> set (fst (greedy ds cs))" "a = fst ob" "b = fst (snd ob)" using assms by auto
  then show ?thesis using greedy_keys [of ds cs] by simp
qed

lemma greedy_Nil: "fst (greedy [] cs) = []" "fst (greedy ds []) = []"
  by (cases ds) simp_all

text \<open>Fewer obligations than parties.\<close>

lemma greedy_length: "ds \<noteq> [] \<Longrightarrow> cs \<noteq> [] \<Longrightarrow> length (fst (greedy ds cs)) < length ds + length cs"
proof (induction ds cs rule: greedy.induct)
  case (1 d ds c cs)
  let ?ds = "if snd d = min (snd d) (snd c) then ds else (fst d, snd d - min (snd d) (snd c)) # ds"
  let ?cs = "if snd c = min (snd d) (snd c) then cs else (fst c, snd c - min (snd d) (snd c)) # cs"
  have lt: "length ?ds + length ?cs < length (d # ds) + length (c # cs)" by (auto simp: min_def)
  have eq: "length (fst (greedy (d # ds) (c # cs))) = Suc (length (fst (greedy ?ds ?cs)))"
    by (simp add: Let_def)
  show ?case
  proof (cases "?ds = [] \<or> ?cs = []")
    case True
    then have "fst (greedy ?ds ?cs) = []" by (elim disjE) (simp_all only: greedy_Nil)
    then show ?thesis using eq by simp
  next
    case False
    then have "length (fst (greedy ?ds ?cs)) < length ?ds + length ?cs" by (intro 1(1) [OF refl]) blast+
    then show ?thesis using eq lt by linarith
  qed
qed auto

text \<open>Equal totals leave nobody over.\<close>

lemma greedy_total:
  "sum_list (map snd ds) - sum_list (map snd (fst (snd (greedy ds cs)))) =
   sum_list (map snd cs) - sum_list (map snd (snd (snd (greedy ds cs))))"
proof (induction ds cs rule: greedy.induct)
  case (1 d ds c cs)
  let ?m = "min (snd d) (snd c)"
  let ?ds = "if snd d = ?m then ds else (fst d, snd d - ?m) # ds"
  let ?cs = "if snd c = ?m then cs else (fst c, snd c - ?m) # cs"
  have g: "snd (greedy (d # ds) (c # cs)) = snd (greedy ?ds ?cs)" by (simp add: Let_def)
  have s: "sum_list (map snd ?ds) = sum_list (map snd (d # ds)) - ?m"
    "sum_list (map snd ?cs) = sum_list (map snd (c # cs)) - ?m" by simp_all
  show ?case unfolding g using 1(1) [OF refl] s by linarith
qed simp_all

lemma all_positive_sum_zero:
  fixes es :: "('p \<times> int) list"
  assumes "all_positive es" and "sum_list (map snd es) = 0"
  shows "es = []"
proof (cases es)
  case (Cons e es')
  then have "0 < snd e" and pos: "\<forall>e \<in> set es'. 0 < snd e" using assms(1) by (simp_all add: all_positive_def)
  moreover have "0 \<le> sum_list (map snd es')" using pos by (intro sum_list_nonneg) fastforce
  ultimately show ?thesis using assms(2) Cons by simp
qed simp

lemma greedy_balanced:
  assumes "all_positive ds" and "all_positive cs" and "sum_list (map snd ds) = sum_list (map snd cs)"
  shows "snd (greedy ds cs) = ([], [])"
proof -
  let ?l = "fst (snd (greedy ds cs))" and ?r = "snd (snd (greedy ds cs))"
  have "sum_list (map snd ?l) = sum_list (map snd ?r)" using greedy_total [of ds cs] assms(3) by simp
  moreover have "?l = [] \<or> ?r = []" by (rule greedy_exhausts)
  ultimately have "?l = [] \<and> ?r = []"
    using all_positive_sum_zero greedy_positive [OF assms(1,2)] by fastforce
  then show ?thesis by (simp add: prod_eq_iff)
qed

text \<open>No pair of parties is matched twice.\<close>

lemma greedy_pairs:
  assumes "distinct (map fst ds)" and "distinct (map fst cs)"
  shows "distinct (map (\<lambda>ob. (fst ob, fst (snd ob))) (fst (greedy ds cs)))"
  using assms
proof (induction ds cs rule: greedy.induct)
  case (1 d ds c cs)
  let ?m = "min (snd d) (snd c)"
  let ?ds = "if snd d = ?m then ds else (fst d, snd d - ?m) # ds"
  let ?cs = "if snd c = ?m then cs else (fst c, snd c - ?m) # cs"
  have "fst d \<notin> fst ` set ?ds \<or> fst c \<notin> fst ` set ?cs" using 1(2,3) by (auto simp: min_def)
  moreover have "fst d \<in> fst ` set ?ds \<and> fst c \<in> fst ` set ?cs"
    if "(fst d, fst c) \<in> (\<lambda>ob. (fst ob, fst (snd ob))) ` set (fst (greedy ?ds ?cs))"
    using that by (rule greedy_keys_pair)
  ultimately have "(fst d, fst c) \<notin> (\<lambda>ob. (fst ob, fst (snd ob))) ` set (fst (greedy ?ds ?cs))"
    by blast
  moreover have "distinct (map (\<lambda>ob. (fst ob, fst (snd ob))) (fst (greedy ?ds ?cs)))"
    using 1 by (intro 1(1) [OF refl]) auto
  ultimately show ?case by (simp add: Let_def)
qed auto

section \<open>Settling balances\<close>

definition settles :: "('p \<times> rat) list \<Rightarrow> ('p \<times> rat) list \<Rightarrow> ('p \<times> 'p \<times> rat) list \<Rightarrow> bool" where
  "settles ds cs obs \<longleftrightarrow>
     (\<forall>p. paid_by obs p = amount_of ds p) \<and> (\<forall>p. received_by obs p = amount_of cs p) \<and>
     (\<forall>ob \<in> set obs. 0 < snd (snd ob) \<and> fst ob \<in> fst ` set ds \<and> fst (snd ob) \<in> fst ` set cs) \<and>
     distinct (map (\<lambda>ob. (fst ob, fst (snd ob))) obs) \<and>
     (obs \<noteq> [] \<longrightarrow> length obs < length ds + length cs)"

definition scaled :: "nat \<Rightarrow> ('p \<times> int) list \<Rightarrow> ('p \<times> rat) list" where
  "scaled u es = map (\<lambda>e. (fst e, of_int (snd e) / 10 ^ u)) es"

definition scaled_obs :: "nat \<Rightarrow> ('p \<times> 'p \<times> int) list \<Rightarrow> ('p \<times> 'p \<times> rat) list" where
  "scaled_obs u obs = map (\<lambda>ob. (fst ob, fst (snd ob), of_int (snd (snd ob)) / 10 ^ u)) obs"

lemma amount_of_scaled: "amount_of (scaled u es) p = of_int (amount_of es p) / 10 ^ u"
  by (induction es) (simp_all add: scaled_def add_divide_distrib)

lemma flows_scaled:
  "paid_by (scaled_obs u obs) p = of_int (paid_by obs p) / 10 ^ u"
  "received_by (scaled_obs u obs) p = of_int (received_by obs p) / 10 ^ u"
  by (induction obs) (simp_all add: scaled_obs_def add_divide_distrib)

lemma greedy_settles:
  assumes pos: "all_positive ds" "all_positive cs" and keys: "distinct (map fst ds)" "distinct (map fst cs)"
    and balanced: "snd (greedy ds cs) = ([], [])"
  shows "settles (scaled u ds) (scaled u cs) (scaled_obs u (fst (greedy ds cs)))"
proof -
  let ?g = "fst (greedy ds cs)"
  have flow: "paid_by ?g p = amount_of ds p" "received_by ?g p = amount_of cs p" for p
    using greedy_conserves [of ds cs p] balanced by simp_all
  have keys': "fst ` set (scaled u ds) = fst ` set ds" "fst ` set (scaled u cs) = fst ` set cs"
    by (simp_all add: scaled_def image_image)
  have obs: "\<forall>ob \<in> set (scaled_obs u ?g). 0 < snd (snd ob) \<and> fst ob \<in> fst ` set ds \<and> fst (snd ob) \<in> fst ` set cs"
    using greedy_positive [OF pos] greedy_keys [of ds cs] by (fastforce simp: scaled_obs_def)
  have pairs: "distinct (map (\<lambda>ob. (fst ob, fst (snd ob))) (scaled_obs u ?g))"
    using greedy_pairs [OF keys] by (simp add: scaled_obs_def comp_def)
  have "length ?g < length ds + length cs" if "?g \<noteq> []"
    using that greedy_length [of ds cs] by (cases ds; cases cs) auto
  then show ?thesis unfolding settles_def keys'
    using flow obs pairs by (simp add: amount_of_scaled flows_scaled) (simp add: scaled_obs_def scaled_def)
qed


section \<open>The contract of a matching loop on decimals\<close>

definition entries_ok :: "dcontext \<Rightarrow> nat \<Rightarrow> (string \<times> dec) list \<Rightarrow> bool" where
  "entries_ok ctx u es \<longleftrightarrow> (\<forall>e \<in> set es. 0 < dval (snd e) \<and> grid_fits ctx u (dval (snd e)))"

definition in_units :: "nat \<Rightarrow> (string \<times> dec) list \<Rightarrow> (string \<times> int) list" where
  "in_units u es = map (\<lambda>e. (fst e, units_of u (dval (snd e)))) es"

definition valued :: "(string \<times> dec) list \<Rightarrow> (string \<times> rat) list" where
  "valued es = map (\<lambda>e. (fst e, dval (snd e))) es"

definition valued_obs :: "(string \<times> string \<times> dec) list \<Rightarrow> (string \<times> string \<times> rat) list" where
  "valued_obs obs = map (\<lambda>ob. (fst ob, fst (snd ob), dval (snd (snd ob)))) obs"

lemma entry_units:
  assumes "0 < x" and "grid_fits ctx u x"
  shows "x = of_int (units_of u x) / 10 ^ u" and "0 < units_of u x"
proof -
  show eq: "x = of_int (units_of u x) / 10 ^ u" using assms(2) on_grid_units by (simp add: grid_fits_def)
  have "0 < (of_int (units_of u x) :: rat) / 10 ^ u" using assms(1) by (subst eq [symmetric])
  then show "0 < units_of u x" by (simp add: zero_less_divide_iff)
qed

lemma valued_scaled: "entries_ok ctx u es \<Longrightarrow> valued es = scaled u (in_units u es)"
  using entry_units(1) by (fastforce simp: entries_ok_def valued_def scaled_def in_units_def)

lemma in_units_positive: "entries_ok ctx u es \<Longrightarrow> all_positive (in_units u es)"
  using entry_units(2) by (fastforce simp: entries_ok_def all_positive_def in_units_def)

lemma sum_in_units:
  assumes "entries_ok ctx u es"
  shows "sum_list (map (\<lambda>e. dval (snd e)) es) = of_int (sum_list (map snd (in_units u es))) / 10 ^ u"
  using assms entry_units(1)
  by (induction es) (auto simp: entries_ok_def in_units_def add_divide_distrib)

lemma in_units_keys: "map fst (in_units u es) = map fst es"
  by (simp add: in_units_def)

locale matching_loop =
  fixes run :: "dcontext \<Rightarrow> string \<Rightarrow> (string \<times> dec) list \<Rightarrow> (string \<times> dec) list \<Rightarrow>
    (string \<times> string \<times> dec) list option"
    and ok_id :: "string \<Rightarrow> bool"
  assumes run_refines:
    "wf_context ctx \<Longrightarrow> minor_units cur = Ok u \<Longrightarrow> entries_ok ctx u ds \<Longrightarrow> entries_ok ctx u cs \<Longrightarrow>
     distinct (map fst ds) \<Longrightarrow> distinct (map fst cs) \<Longrightarrow> set (map fst ds) \<inter> set (map fst cs) = {} \<Longrightarrow>
     list_all ok_id (map fst ds) \<Longrightarrow> list_all ok_id (map fst cs) \<Longrightarrow>
     snd (greedy (in_units u ds) (in_units u cs)) = ([], []) \<Longrightarrow>
     \<exists>obs. run ctx cur ds cs = Some obs \<and>
       valued_obs obs = scaled_obs u (fst (greedy (in_units u ds) (in_units u cs)))"
begin

lemma run_settles:
  assumes "wf_context ctx" and "minor_units cur = Ok u" and ok: "entries_ok ctx u ds" "entries_ok ctx u cs"
    and keys: "distinct (map fst ds)" "distinct (map fst cs)" "set (map fst ds) \<inter> set (map fst cs) = {}"
      "list_all ok_id (map fst ds)" "list_all ok_id (map fst cs)"
    and total: "sum_list (map (\<lambda>e. dval (snd e)) ds) = sum_list (map (\<lambda>e. dval (snd e)) cs)"
  shows "\<exists>obs. run ctx cur ds cs = Some obs \<and> settles (valued ds) (valued cs) (valued_obs obs)"
proof -
  have "sum_list (map snd (in_units u ds)) = sum_list (map snd (in_units u cs))"
    using total by (simp add: sum_in_units [OF ok(1)] sum_in_units [OF ok(2)])
  then have bal: "snd (greedy (in_units u ds) (in_units u cs)) = ([], [])"
    using ok in_units_positive by (intro greedy_balanced) auto
  obtain obs where obs: "run ctx cur ds cs = Some obs"
    "valued_obs obs = scaled_obs u (fst (greedy (in_units u ds) (in_units u cs)))"
    using run_refines [OF assms(1-9) bal] by blast
  have "settles (scaled u (in_units u ds)) (scaled u (in_units u cs)) (valued_obs obs)"
    unfolding obs(2) using ok in_units_positive keys bal
    by (intro greedy_settles) (auto simp: in_units_keys)
  then show ?thesis using obs(1) by (simp add: valued_scaled [OF ok(1)] valued_scaled [OF ok(2)])
qed

end

end
