(* ===== verification/Receipt_Split.thy ===== *)
theory Receipt_Split
  imports Receipt_Allocation Greedy_Matching
begin

text \<open>
  The receipt calculator, \<open>finance_core/calculators/receipt_split_calculator.py\<close>: item shares,
  adjustments, the exact shares of a receipt, the split of all receipts of a case and the
  settlement obligations that follow from it.

  A case arrives as nested dictionaries. They are records here, one field per key the code reads:
  an option where the code distinguishes an absent key, a list or dictionary that is empty where
  it treats absent and empty alike. Amounts and currencies are dynamic values. Of the texts in
  error messages only the constant part is kept.
\<close>

section \<open>Input and output data\<close>

record receipt_item =
  it_amount :: "py_value option"
  it_line_amount :: "py_value option"
  it_currency :: py_value
  it_allocation_method :: "string option"
  it_participants :: "string list"
  it_consumers :: "string list"
  it_owners :: "string list"
  it_allocations :: "(string, py_value) dict"
  it_description :: "string option"
  it_name :: "string option"
  it_item_name :: "string option"

record receipt_adjustment =
  adj_type :: "string option"
  adj_adjustment_type :: "string option"
  adj_direction :: "string option"
  adj_allocation_method :: "string option"
  adj_amount :: "py_value option"
  adj_currency :: py_value
  adj_allocations :: "(string, py_value) dict"
  adj_participants :: "string list"

record receipt =
  rc_receipt_id :: "string option"
  rc_id :: "string option"
  rc_label :: "string option"
  rc_merchant :: "string option"
  rc_currency :: "py_value option"
  rc_paid_by :: "string option"
  rc_items :: "receipt_item list option"
  rc_adjustments :: "receipt_adjustment list"
  rc_subtotal :: "py_value option"
  rc_net_paid :: "py_value option"
  rc_service_charge_amount :: "py_value option"
  rc_service_charge_rate :: "py_value option"
  rc_service_charge_allocation_method :: "string option"
  rc_service_charge_allocations :: "(string, py_value) dict"
  rc_service_charge_participants :: "string list"
  rc_discount :: "py_value option"
  rc_discount_allocation_method :: "string option"
  rc_discount_allocations :: "(string, py_value) dict"
  rc_discount_participants :: "string list"
  rc_rounding_policy :: "string option"

record case_data =
  cd_case_id :: "string option"
  cd_status :: "string option"
  cd_currency :: py_value
  cd_participants :: "string list"
  cd_payer :: "string option"
  cd_display_names :: "(string, string) dict"
  cd_receipts :: "receipt list"

text \<open>An adjustment with its amount validated and its direction and type resolved.\<close>

record adjustment =
  na_type :: string
  na_direction :: string
  na_method :: "string option"
  na_amount :: dec
  na_allocations :: "(string, py_value) dict"
  na_participants :: "string list"

record item_detail =
  id_description :: "string option"
  id_amount :: dec
  id_allocation_method :: string
  id_allocations :: "(string, dec) dict"

record adjustment_detail =
  ad_type :: string
  ad_direction :: string
  ad_method :: "string option"
  ad_amount :: dec
  ad_allocations :: "(string, dec) dict"

record exact_receipt_shares =
  ex_item_total :: dec
  ex_net_paid :: dec
  ex_participant_shares :: "(string, dec) dict"
  ex_adjustments :: "adjustment list"
  ex_adjustment_details :: "adjustment_detail list"

record rounding_adjustment =
  ra_participant :: string
  ra_amount :: dec
  ra_policy :: string

record receipt_result =
  rr_receipt_id :: "string option"
  rr_label :: "string option"
  rr_merchant :: "string option"
  rr_currency :: string
  rr_paid_by :: string
  rr_net_paid :: dec
  rr_item_shares :: "(string, dec) dict"
  rr_items :: "item_detail list"
  rr_adjustments :: "adjustment_detail list"
  rr_participant_shares :: "(string, dec) dict"
  rr_rounding_adjustments :: "rounding_adjustment list"
  rr_rounding_adjustment :: dec
  rr_rounding_adjustment_participant :: "string option"

record obligation =
  ob_debtor :: string
  ob_creditor :: string
  ob_amount :: dec
  ob_currency :: string

text \<open>The part of the result that exists only when there is a primary payer.\<close>

record payer_summary =
  py_obligations :: "(string, dec) dict"
  py_own_share :: dec
  py_total_to_collect :: dec
  py_total_paid :: dec

record split_result =
  sr_case_id :: "string option"
  sr_currency :: string
  sr_status :: string
  sr_participants :: "string list"
  sr_payer :: "string option"
  sr_participant_shares :: "(string, dec) dict"
  sr_payer_paid_amounts :: "(string, dec) dict"
  sr_payer_own_shares :: "(string, dec) dict"
  sr_settlement_obligations :: "obligation list"
  sr_total_paid :: dec
  sr_receipts :: "receipt_result list"
  sr_display_names :: "(string, string) dict"
  sr_payer_summary :: "payer_summary option"

section \<open>Share maps and small helpers\<close>

text \<open>\<open>a or b\<close> on optional texts: an empty text counts as absent.\<close>

definition str_or :: "string option \<Rightarrow> string option \<Rightarrow> string option" where
  "str_or a b = (case a of None \<Rightarrow> b | Some s \<Rightarrow> if s = [] then b else Some s)"

definition empty_shares :: "string list \<Rightarrow> (string, dec) dict" where
  "empty_shares participants = foldl (\<lambda>d p. dset d p ZERO) [] participants"

text \<open>\<open>shares[p] += x\<close>.\<close>

definition add_share :: "dcontext \<Rightarrow> (string, dec) dict \<Rightarrow> string \<times> dec \<Rightarrow> (string, dec) dict result" where
  "add_share ctx shares px =
     rbind (dlookup shares (fst px)) (\<lambda>old.
     rbind (dec_add ctx old (snd px)) (\<lambda>new. Ok (dset shares (fst px) new)))"

definition sub_share :: "dcontext \<Rightarrow> (string, dec) dict \<Rightarrow> string \<times> dec \<Rightarrow> (string, dec) dict result" where
  "sub_share ctx shares px =
     rbind (dlookup shares (fst px)) (\<lambda>old.
     rbind (dec_sub ctx old (snd px)) (\<lambda>new. Ok (dset shares (fst px) new)))"

definition rounded_share :: "dcontext \<Rightarrow> string \<Rightarrow> string \<times> dec \<Rightarrow> (string \<times> dec) result" where
  "rounded_share ctx cur px = rbind (round_for_currency ctx (snd px) cur) (\<lambda>y. Ok (fst px, y))"

definition rounded_share_map :: "dcontext \<Rightarrow> (string, dec) dict \<Rightarrow> string \<Rightarrow> (string, dec) dict result" where
  "rounded_share_map ctx shares cur = mapM (rounded_share ctx cur) shares"

definition require_participant :: "string \<Rightarrow> (string, 'v) dict \<Rightarrow> unit result" where
  "require_participant p shares = ensure (dhas shares p) ValueError ''Unknown participant''"

definition require_no_duplicates_in_list :: "string list \<Rightarrow> unit result" where
  "require_no_duplicates_in_list values = ensure (distinct values) ValueError ''Duplicates are not allowed''"

definition item_participants :: "receipt_item \<Rightarrow> string list" where
  "item_participants item =
     (if it_participants item \<noteq> [] then it_participants item
      else if it_consumers item \<noteq> [] then it_consumers item
      else it_owners item)"

definition append_unique :: "string list \<Rightarrow> string \<Rightarrow> string list" where
  "append_unique values value = (if value \<in> set values then values else values @ [value])"

definition receipt_label :: "receipt \<Rightarrow> string" where
  "receipt_label r =
     (case str_or (rc_merchant r) (str_or (rc_label r) (str_or (rc_receipt_id r) None)) of
        None \<Rightarrow> ''Receipt'' | Some s \<Rightarrow> s)"


section \<open>Items\<close>

text \<open>The manual allocations of an item or of an adjustment, validated one by one.\<close>

definition manual_step ::
  "dcontext \<Rightarrow> string \<Rightarrow> (string, dec) dict \<Rightarrow> string \<times> py_value \<Rightarrow> (string, dec) dict result" where
  "manual_step ctx cur allocations pv =
     rbind (require_participant (fst pv) allocations) (\<lambda>_.
     rbind (authoritative_money ctx (snd pv) cur NON_NEGATIVE) (\<lambda>x.
       Ok (dset allocations (fst pv) x)))"

definition manual_allocations ::
  "dcontext \<Rightarrow> string \<Rightarrow> string list \<Rightarrow> dec \<Rightarrow> (string, py_value) dict \<Rightarrow> (string, dec) dict result" where
  "manual_allocations ctx cur participants amt manual =
     (if manual = [] then raise ValueError ''manual allocation is missing allocations''
      else
        rbind (foldM (manual_step ctx cur) (empty_shares participants) manual) (\<lambda>allocations.
        rbind (dec_sum ctx ZERO (dvalues allocations)) (\<lambda>s.
          if dec_eq s amt then Ok allocations
          else raise ValueError ''manual allocations do not sum to amount'')))"

definition equal_step ::
  "dcontext \<Rightarrow> dec \<Rightarrow> (string, dec) dict \<Rightarrow> string \<Rightarrow> (string, dec) dict result" where
  "equal_step ctx split_amount allocations p =
     rbind (require_participant p allocations) (\<lambda>_. add_share ctx allocations (p, split_amount))"

definition item_allocations ::
  "dcontext \<Rightarrow> receipt_item \<Rightarrow> dec \<Rightarrow> string \<Rightarrow> string list \<Rightarrow> string \<Rightarrow> (string, dec) dict result" where
  "item_allocations ctx item amt allocation_method all_participants cur =
     (if allocation_method = ''equal'' \<or> allocation_method = ''equal_among_consumers'' then
        let ps = item_participants item in
        if ps = [] then raise ValueError ''item has no participants''
        else
          rbind (require_no_duplicates_in_list ps) (\<lambda>_.
          rbind (dec_div ctx amt (dec_of_int (int (length ps)))) (\<lambda>split_amount.
            foldM (equal_step ctx split_amount) (empty_shares all_participants) ps))
      else if allocation_method = ''manual'' then
        manual_allocations ctx cur all_participants amt (it_allocations item)
      else raise ValueError ''Unsupported item allocation method'')"

definition item_step ::
  "dcontext \<Rightarrow> string list \<Rightarrow> string \<Rightarrow> (string, dec) dict \<times> item_detail list \<Rightarrow> receipt_item
    \<Rightarrow> ((string, dec) dict \<times> item_detail list) result" where
  "item_step ctx all_participants cur st item =
     (let value = (case it_amount item of Some v \<Rightarrow> v
                   | None \<Rightarrow> (case it_line_amount item of Some v \<Rightarrow> v | None \<Rightarrow> PyNone));
          allocation_method = (case it_allocation_method item of None \<Rightarrow> ''equal'' | Some m \<Rightarrow> m)
      in rbind (authoritative_money ctx value cur NON_NEGATIVE) (\<lambda>amt.
         rbind (item_allocations ctx item amt allocation_method all_participants cur) (\<lambda>allocations.
         rbind (foldM (add_share ctx) (fst st) allocations) (\<lambda>shares.
           Ok (shares, snd st @
             [\<lparr>id_description = str_or (it_description item) (str_or (it_name item) (it_item_name item)),
               id_amount = amt, id_allocation_method = allocation_method, id_allocations = allocations\<rparr>])))))"

definition item_shares ::
  "dcontext \<Rightarrow> receipt \<Rightarrow> string list \<Rightarrow> string \<Rightarrow> ((string, dec) dict \<times> item_detail list) result" where
  "item_shares ctx r all_participants cur =
     (case rc_items r of
        None \<Rightarrow> raise KeyError ''items''
      | Some items \<Rightarrow> foldM (item_step ctx all_participants cur) (empty_shares all_participants, []) items)"


section \<open>Adjustments\<close>

definition ADD_DIRECTIONS :: "string list" where
  "ADD_DIRECTIONS = [''add'', ''charge'']"

definition SUBTRACT_DIRECTIONS :: "string list" where
  "SUBTRACT_DIRECTIONS = [''subtract'', ''discount'']"

definition normalize_adjustment :: "dcontext \<Rightarrow> string \<Rightarrow> receipt_adjustment \<Rightarrow> adjustment result" where
  "normalize_adjustment ctx cur adjustment =
     (case str_or (adj_type adjustment) (adj_adjustment_type adjustment) of
        None \<Rightarrow> raise ValueError ''Adjustment type is required''
      | Some adjustment_type \<Rightarrow>
          let direction = (case adj_direction adjustment of
                Some d \<Rightarrow> d
              | None \<Rightarrow> if adjustment_type \<in> set [''discount'', ''voucher'', ''promotion''] then ''subtract''
                        else ''add'')
          in case adj_allocation_method adjustment of
               None \<Rightarrow> raise ValueError ''allocation method is required''
             | Some m \<Rightarrow>
                 (case adj_amount adjustment of
                    None \<Rightarrow> raise KeyError ''amount''
                  | Some v \<Rightarrow>
                      rbind (authoritative_money ctx v cur NON_NEGATIVE) (\<lambda>amt.
                        Ok \<lparr>na_type = adjustment_type, na_direction = direction, na_method = Some m,
                            na_amount = amt, na_allocations = adj_allocations adjustment,
                            na_participants = adj_participants adjustment\<rparr>)))"

definition service_charge_amount :: "dcontext \<Rightarrow> receipt \<Rightarrow> dec \<Rightarrow> string \<Rightarrow> dec result" where
  "service_charge_amount ctx r item_total cur =
     (case rc_service_charge_amount r of
        Some v \<Rightarrow> authoritative_money ctx v cur NON_NEGATIVE
      | None \<Rightarrow>
          (case rc_service_charge_rate r of
             Some v \<Rightarrow>
               rbind (authoritative_service_charge_rate v) (\<lambda>rate.
                 quantized_service_charge_from_rate item_total rate cur)
           | None \<Rightarrow> Ok ZERO))"

definition receipt_adjustments :: "dcontext \<Rightarrow> receipt \<Rightarrow> dec \<Rightarrow> string \<Rightarrow> adjustment list result" where
  "receipt_adjustments ctx r item_total cur =
     rbind (service_charge_amount ctx r item_total cur) (\<lambda>service_amount.
       let service_method = (case rc_service_charge_allocation_method r of
             None \<Rightarrow> ''proportional_by_item_amount'' | Some m \<Rightarrow> m);
           service = (if \<not> dec_eq service_amount ZERO \<or> service_method = ''manual'' then
               [\<lparr>na_type = ''service_charge'', na_direction = ''add'', na_method = Some service_method,
                 na_amount = service_amount, na_allocations = rc_service_charge_allocations r,
                 na_participants = rc_service_charge_participants r\<rparr>]
             else [])
       in rbind (mapM (normalize_adjustment ctx cur) (rc_adjustments r)) (\<lambda>adjustments.
          rbind (authoritative_money ctx
                   (case rc_discount r of None \<Rightarrow> PyDec (Finite ZERO) | Some v \<Rightarrow> v) cur NON_NEGATIVE)
            (\<lambda>discount.
            let method = rc_discount_allocation_method r;
                discounts = (if \<not> dec_eq discount ZERO \<or> method = Some ''manual'' then
                    [\<lparr>na_type = ''discount'', na_direction = ''subtract'', na_method = method,
                      na_amount = discount, na_allocations = rc_discount_allocations r,
                      na_participants = rc_discount_participants r\<rparr>]
                  else [])
            in Ok (service @ adjustments @ discounts))))"

text \<open>\<open>[p for p in ps if shares[p] != ZERO]\<close>.\<close>

fun nonzero_participants :: "(string, dec) dict \<Rightarrow> string list \<Rightarrow> string list result" where
  "nonzero_participants shares [] = Ok []"
| "nonzero_participants shares (p # ps) =
     rbind (dlookup shares p) (\<lambda>x.
     rbind (nonzero_participants shares ps) (\<lambda>rest.
       Ok (if dec_eq x ZERO then rest else p # rest)))"

definition active_adjustment_participants ::
  "adjustment \<Rightarrow> (string, dec) dict \<Rightarrow> string list \<Rightarrow> string list result" where
  "active_adjustment_participants adjustment current_shares participants =
     (if na_participants adjustment \<noteq> [] then
        rbind (mapM (\<lambda>p. require_participant p current_shares) (na_participants adjustment)) (\<lambda>_.
          Ok (na_participants adjustment))
      else
        rbind (nonzero_participants current_shares participants) (\<lambda>active.
          if active = [] then raise ValueError ''Equal allocation requires at least one active participant''
          else Ok active))"

definition proportional_step ::
  "dcontext \<Rightarrow> dec \<Rightarrow> dec \<Rightarrow> (string, dec) dict \<Rightarrow> string \<times> dec \<Rightarrow> (string, dec) dict result" where
  "proportional_step ctx amt base_total allocations ps =
     (if dec_eq (snd ps) ZERO then Ok allocations
      else
        rbind (dec_mul ctx amt (snd ps)) (\<lambda>m.
        rbind (dec_div ctx m base_total) (\<lambda>x. Ok (dset allocations (fst ps) x))))"

definition proportional_allocations ::
  "dcontext \<Rightarrow> dec \<Rightarrow> (string, dec) dict \<Rightarrow> (string, dec) dict result" where
  "proportional_allocations ctx amt base_shares =
     rbind (dec_sum ctx ZERO (dvalues base_shares)) (\<lambda>base_total.
       if dec_eq base_total ZERO then
         raise ValueError ''Proportional allocation requires a non-zero base total''
       else foldM (proportional_step ctx amt base_total) (empty_shares (dkeys base_shares)) base_shares)"

definition adjustment_allocations ::
  "dcontext \<Rightarrow> adjustment \<Rightarrow> receipt \<Rightarrow> (string, dec) dict \<Rightarrow> (string, dec) dict \<Rightarrow> string list \<Rightarrow> string
    \<Rightarrow> (string, dec) dict result" where
  "adjustment_allocations ctx adjustment r item_sh current_shares participants cur =
     (let allocations = empty_shares participants; amt = na_amount adjustment; m = na_method adjustment
      in if m = Some ''manual'' then
           manual_allocations ctx cur participants amt (na_allocations adjustment)
         else if dec_eq amt ZERO then Ok allocations
         else case m of
           None \<Rightarrow> raise ValueError ''allocation method is required''
         | Some name \<Rightarrow>
             if name = ''payer_only'' then
               (case rc_paid_by r of
                  None \<Rightarrow> raise KeyError ''paid_by''
                | Some payer \<Rightarrow> Ok (dset allocations payer amt))
             else if name = ''equal_per_participant'' then
               rbind (active_adjustment_participants adjustment current_shares participants) (\<lambda>active.
               rbind (require_no_duplicates_in_list active) (\<lambda>_.
               rbind (dec_div ctx amt (dec_of_int (int (length active)))) (\<lambda>per_participant.
                 Ok (foldl (\<lambda>d p. dset d p per_participant) allocations active))))
             else if name = ''proportional_by_item_amount'' then proportional_allocations ctx amt item_sh
             else if name = ''proportional_by_net_amount'' then proportional_allocations ctx amt current_shares
             else raise ValueError ''Unsupported adjustment allocation method'')"

text \<open>One allocation of an adjustment applied to the running shares.\<close>

definition apply_step ::
  "dcontext \<Rightarrow> string \<Rightarrow> (string, dec) dict \<Rightarrow> string \<times> dec \<Rightarrow> (string, dec) dict result" where
  "apply_step ctx direction running px =
     (if direction \<in> set ADD_DIRECTIONS then add_share ctx running px
      else if direction \<in> set SUBTRACT_DIRECTIONS then sub_share ctx running px
      else raise ValueError ''Unsupported adjustment direction'')"

definition adjustment_step ::
  "dcontext \<Rightarrow> receipt \<Rightarrow> (string, dec) dict \<Rightarrow> string list \<Rightarrow> string
    \<Rightarrow> (string, dec) dict \<times> adjustment_detail list \<Rightarrow> adjustment
    \<Rightarrow> ((string, dec) dict \<times> adjustment_detail list) result" where
  "adjustment_step ctx r item_sh participants cur st adjustment =
     rbind (adjustment_allocations ctx adjustment r item_sh (fst st) participants cur) (\<lambda>allocations.
     rbind (foldM (apply_step ctx (na_direction adjustment)) (fst st) allocations) (\<lambda>running.
       Ok (running, snd st @
         [\<lparr>ad_type = na_type adjustment, ad_direction = na_direction adjustment,
           ad_method = na_method adjustment, ad_amount = na_amount adjustment,
           ad_allocations = allocations\<rparr>])))"


section \<open>The exact shares of a receipt\<close>

definition net_paid_step :: "dcontext \<Rightarrow> dec \<Rightarrow> adjustment \<Rightarrow> dec result" where
  "net_paid_step ctx net adjustment =
     (if na_direction adjustment \<in> set ADD_DIRECTIONS then dec_add ctx net (na_amount adjustment)
      else if na_direction adjustment \<in> set SUBTRACT_DIRECTIONS then dec_sub ctx net (na_amount adjustment)
      else Ok net)"

definition receipt_net_paid ::
  "dcontext \<Rightarrow> receipt \<Rightarrow> dec \<Rightarrow> adjustment list \<Rightarrow> string \<Rightarrow> dec result" where
  "receipt_net_paid ctx r item_total adjustments cur =
     (case rc_net_paid r of
        Some v \<Rightarrow> authoritative_money ctx v cur NON_NEGATIVE
      | None \<Rightarrow>
          rbind (foldM (net_paid_step ctx) item_total adjustments) (\<lambda>net. round_for_currency ctx net cur))"

definition require_non_negative_share :: "(string, dec) dict \<Rightarrow> string \<Rightarrow> unit result" where
  "require_non_negative_share exact_shares p =
     (if dec_lt (dget_or exact_shares p ZERO) ZERO then
        raise MoneyValidationError ''exact share must be non-negative''
      else Ok ())"

definition require_non_negative_exact_shares :: "(string, dec) dict \<Rightarrow> string list \<Rightarrow> unit result" where
  "require_non_negative_exact_shares exact_shares all_participants =
     rbind (mapM (require_non_negative_share exact_shares) all_participants) (\<lambda>_. Ok ())"

definition checked_item_total :: "dcontext \<Rightarrow> receipt \<Rightarrow> dec \<Rightarrow> string \<Rightarrow> dec result" where
  "checked_item_total ctx r item_total cur =
     (case rc_subtotal r of
        Some v \<Rightarrow>
          rbind (authoritative_money ctx v cur NON_NEGATIVE) (\<lambda>expected_subtotal.
            if dec_eq item_total expected_subtotal then Ok item_total
            else raise ValueError ''item total does not match subtotal'')
      | None \<Rightarrow> round_for_currency ctx item_total cur)"

definition compute_exact_receipt_shares ::
  "dcontext \<Rightarrow> receipt \<Rightarrow> string list \<Rightarrow> string \<Rightarrow> exact_receipt_shares result" where
  "compute_exact_receipt_shares ctx r all_participants cur =
     rbind (item_shares ctx r all_participants cur) (\<lambda>(item_sh, item_details).
     rbind (dec_sum ctx ZERO (dvalues item_sh)) (\<lambda>item_sum.
     rbind (checked_item_total ctx r item_sum cur) (\<lambda>item_total.
     rbind (receipt_adjustments ctx r item_total cur) (\<lambda>adjustments.
     rbind (foldM (adjustment_step ctx r item_sh all_participants cur) (item_sh, []) adjustments)
       (\<lambda>(running, details).
     rbind (receipt_net_paid ctx r item_total adjustments cur) (\<lambda>net_paid.
     rbind (validate_exact_reconciliation ctx running net_paid) (\<lambda>_.
     rbind (require_non_negative_exact_shares running all_participants) (\<lambda>_.
       Ok \<lparr>ex_item_total = item_total, ex_net_paid = net_paid, ex_participant_shares = running,
           ex_adjustments = adjustments, ex_adjustment_details = details\<rparr>))))))))"


section \<open>One receipt\<close>

definition nested_currency :: "string \<Rightarrow> py_value \<Rightarrow> unit result" where
  "nested_currency cur c =
     (if c = PyNone then Ok () else require_same_currency (PyStr cur) c)"

definition validate_nested_currency_consistency :: "receipt \<Rightarrow> string \<Rightarrow> unit result" where
  "validate_nested_currency_consistency r cur =
     rbind (mapM (\<lambda>item. nested_currency cur (it_currency item))
              (case rc_items r of None \<Rightarrow> [] | Some items \<Rightarrow> items)) (\<lambda>_.
     rbind (mapM (\<lambda>adj. nested_currency cur (adj_currency adj)) (rc_adjustments r)) (\<lambda>_. Ok ()))"

definition rounding_step ::
  "dcontext \<Rightarrow> (string, dec) dict \<Rightarrow> (string, dec) dict \<Rightarrow> string \<Rightarrow> string
    \<Rightarrow> rounding_adjustment list \<Rightarrow> string \<Rightarrow> rounding_adjustment list result" where
  "rounding_step ctx final_shares running cur policy acc p =
     rbind (dlookup final_shares p) (\<lambda>f.
     rbind (dlookup running p) (\<lambda>r.
     rbind (dec_sub ctx f r) (\<lambda>diff.
     rbind (round_for_currency ctx diff cur) (\<lambda>quantized_diff.
       Ok (if dec_eq quantized_diff ZERO then acc
           else acc @ [\<lparr>ra_participant = p, ra_amount = quantized_diff, ra_policy = policy\<rparr>])))))"

definition receipt_currency :: "receipt \<Rightarrow> string \<Rightarrow> py_value" where
  "receipt_currency r cur = (case rc_currency r of None \<Rightarrow> PyStr cur | Some v \<Rightarrow> v)"

definition calculate_receipt ::
  "dcontext \<Rightarrow> receipt \<Rightarrow> string list \<Rightarrow> string \<Rightarrow> receipt_result result" where
  "calculate_receipt ctx r all_participants cur =
     (case rc_paid_by r of
        None \<Rightarrow> raise ValueError ''Receipt payer is required''
      | Some payer \<Rightarrow>
          if payer \<notin> set all_participants then raise ValueError ''Unknown payer''
          else
            rbind (require_same_currency (PyStr cur) (receipt_currency r cur)) (\<lambda>_.
            rbind (validate_nested_currency_consistency r cur) (\<lambda>_.
            rbind (item_shares ctx r all_participants cur) (\<lambda>(item_sh, item_details).
            rbind (compute_exact_receipt_shares ctx r all_participants cur) (\<lambda>exact.
              let running = ex_participant_shares exact;
                  net_paid = ex_net_paid exact;
                  policy = (case rc_rounding_policy r of None \<Rightarrow> ''largest_remainder'' | Some p \<Rightarrow> p)
              in
            rbind (allocate_minor_units ctx (map (\<lambda>px. (fst px, Finite (snd px))) running) (Finite net_paid)
                     cur all_participants policy (if policy = ''payer'' then Some payer else None)) (\<lambda>final_shares.
            rbind (foldM (rounding_step ctx final_shares running cur policy) [] all_participants) (\<lambda>adjusted_list.
            rbind (rounded_share_map ctx item_sh cur) (\<lambda>rounded_items.
            rbind (dec_sum ctx ZERO (map ra_amount adjusted_list)) (\<lambda>ra_sum.
            rbind (round_for_currency ctx ra_sum cur) (\<lambda>ra_total.
              Ok \<lparr>rr_receipt_id = str_or (rc_receipt_id r) (rc_id r),
                  rr_label = str_or (rc_label r) (rc_merchant r),
                  rr_merchant = str_or (rc_merchant r) (rc_label r),
                  rr_currency = cur, rr_paid_by = payer, rr_net_paid = net_paid,
                  rr_item_shares = rounded_items, rr_items = item_details,
                  rr_adjustments = ex_adjustment_details exact,
                  rr_participant_shares = final_shares,
                  rr_rounding_adjustments = adjusted_list, rr_rounding_adjustment = ra_total,
                  rr_rounding_adjustment_participant =
                    (if adjusted_list = [] then None else Some payer)\<rparr>))))))))))"

section \<open>Settlement obligations\<close>

text \<open>
  The balance of one participant: what they paid minus their share. Debtors are collected with
  the negated balance.
\<close>

definition balance_step ::
  "dcontext \<Rightarrow> (string, dec) dict \<Rightarrow> (string, dec) dict \<Rightarrow> string
    \<Rightarrow> (string \<times> dec) list \<times> (string \<times> dec) list \<Rightarrow> string
    \<Rightarrow> ((string \<times> dec) list \<times> (string \<times> dec) list) result" where
  "balance_step ctx shares paid cur st p =
     (case st of (debtors, creditors) \<Rightarrow>
        rbind (dlookup paid p) (\<lambda>a.
        rbind (dlookup shares p) (\<lambda>b.
        rbind (dec_sub ctx a b) (\<lambda>d.
        rbind (round_for_currency ctx d cur) (\<lambda>balance.
          if dec_lt balance ZERO then
            rbind (dec_neg ctx balance) (\<lambda>owed. Ok (debtors @ [(p, owed)], creditors))
          else if dec_lt ZERO balance then Ok (debtors, creditors @ [(p, balance)])
          else Ok (debtors, creditors))))))"

text \<open>\<open>min(a, b)\<close> keeps its first argument unless the second is smaller.\<close>

definition dec_min :: "dec \<Rightarrow> dec \<Rightarrow> dec" where
  "dec_min a b = (if dec_lt b a then b else a)"

lemma round_zero:
  assumes "round_for_currency ctx d cur = Ok y" and "dcoeff d = 0"
  shows "dcoeff y = 0"
proof -
  obtain q where q: "dec_quantize ctx ROUND_HALF_UP d q = Ok y"
    using assms(1)
    by (auto simp: round_for_currency_def quantize_for_currency_def py_quantize_def require_finite_def rbind_Ok_iff)
  then show ?thesis
    using assms(2) by (auto simp: dec_quantize_def Let_def dec_rescale_def dec_fix_zero split: if_splits)
qed

lemma dec_sub_self_zero:
  assumes "dec_sub ctx a a = Ok d"
  shows "dcoeff d = 0"
proof -
  have "dval (dec_add_exact a (copy_negate a)) = 0" by simp
  then have "dcoeff (dec_add_exact a (copy_negate a)) = 0" by (simp only: dval_eq_0_iff)
  then show ?thesis using assms by (auto simp: dec_sub_def dec_add_def dec_fix_zero)
qed

text \<open>
  The matching loop. The entries still to be matched are the lists, an entry's remaining amount
  is updated at its head, and an index moves on when the head is dropped. Each round settles at
  least one head completely, so the loop ends.
\<close>

function match_loop ::
  "dcontext \<Rightarrow> string \<Rightarrow> (string \<times> dec) list \<Rightarrow> (string \<times> dec) list \<Rightarrow> obligation list
    \<Rightarrow> ((string \<times> dec) list \<times> (string \<times> dec) list \<times> obligation list) result" where
  "match_loop ctx cur (d # ds) (c # cs) obligations =
     (let amt = dec_min (snd d) (snd c) in
      rbind (if dec_eq amt ZERO then Ok obligations
             else rbind (round_for_currency ctx amt cur) (\<lambda>a.
               Ok (obligations @
                 [\<lparr>ob_debtor = fst d, ob_creditor = fst c, ob_amount = a, ob_currency = cur\<rparr>])))
        (\<lambda>obligations'.
      rbind (dec_sub ctx (snd d) amt) (\<lambda>dx.
      rbind (round_for_currency ctx dx cur) (\<lambda>d'.
      rbind (dec_sub ctx (snd c) amt) (\<lambda>cx.
      rbind (round_for_currency ctx cx cur) (\<lambda>c'.
        match_loop ctx cur
          (if dec_eq d' ZERO then ds else (fst d, d') # ds)
          (if dec_eq c' ZERO then cs else (fst c, c') # cs) obligations'))))))"
| "match_loop ctx cur [] cs obligations = Ok ([], cs, obligations)"
| "match_loop ctx cur ds [] obligations = Ok (ds, [], obligations)"
  by pat_completeness auto

lemma dec_eq_ZERO [simp]: "dec_eq d ZERO \<longleftrightarrow> dcoeff d = 0"
  by (simp add: dec_eq_iff)

termination match_loop
proof (relation "measure (\<lambda>(ctx, cur, ds, cs, obs). length ds + length cs)", goal_cases)
  case (2 ctx cur d ds c cs obs amt obs' dx d' cx c')
  have "amt = snd d \<or> amt = snd c" using 2(1) by (simp add: dec_min_def)
  then have "dcoeff d' = 0 \<or> dcoeff c' = 0"
    using 2 round_zero dec_sub_self_zero by metis
  then show ?case by auto
qed simp

definition settlement_obligations ::
  "dcontext \<Rightarrow> string list \<Rightarrow> (string, dec) dict \<Rightarrow> (string, dec) dict \<Rightarrow> string \<Rightarrow> obligation list result" where
  "settlement_obligations ctx participants shares paid cur =
     rbind (foldM (balance_step ctx shares paid cur) ([], []) participants) (\<lambda>(debtors, creditors).
     rbind (ranked_by_amount ctx debtors) (\<lambda>ds.
     rbind (ranked_by_amount ctx creditors) (\<lambda>cs.
     rbind (match_loop ctx cur ds cs []) (\<lambda>(ds', cs', obligations).
       if ds' \<noteq> [] \<or> cs' \<noteq> [] then raise ValueError ''Settlement obligations do not balance''
       else if \<forall>ob \<in> set obligations. ob_currency ob = cur then Ok obligations
       else raise CurrencyMismatchError ''does not match authoritative currency''))))"


section \<open>The split of a case\<close>

definition resolve_authoritative_currency :: "case_data \<Rightarrow> string result" where
  "resolve_authoritative_currency cd =
     (if cd_currency cd = PyNone then
        raise MoneyValidationError ''Authoritative top-level currency is required''
      else normalize_currency (cd_currency cd))"

definition receipt_participants :: "case_data \<Rightarrow> receipt \<Rightarrow> string list" where
  "receipt_participants cd r =
     (case (case rc_paid_by r of None \<Rightarrow> cd_payer cd | Some p \<Rightarrow> Some p) of None \<Rightarrow> [] | Some p \<Rightarrow> [p]) @
     concat (map (\<lambda>item. item_participants item @ dkeys (it_allocations item))
       (case rc_items r of None \<Rightarrow> [] | Some items \<Rightarrow> items)) @
     concat (map (\<lambda>adj. dkeys (adj_allocations adj)) (rc_adjustments r)) @
     dkeys (rc_discount_allocations r)"

definition case_participants :: "case_data \<Rightarrow> string list result" where
  "case_participants cd =
     (let participants =
            (if cd_participants cd \<noteq> [] then cd_participants cd
             else foldl append_unique [] (concat (map (receipt_participants cd) (cd_receipts cd))))
      in if participants = [] then raise ValueError ''At least one participant is required''
         else Ok participants)"

definition require_no_duplicate_participants :: "string list \<Rightarrow> unit result" where
  "require_no_duplicate_participants participants = require_no_duplicates_in_list participants"

definition validate_primary_payer :: "string \<Rightarrow> string list \<Rightarrow> string list \<Rightarrow> unit result" where
  "validate_primary_payer primary_payer participants actual_payers =
     (if primary_payer = [] then raise ValueError ''Payer must be a non-empty participant public ID''
      else if primary_payer \<notin> set participants then raise ValueError ''Payer is not in the participant set''
      else if primary_payer \<notin> set actual_payers then raise ValueError ''Payer did not pay any receipt''
      else if length actual_payers = 1 \<and> primary_payer \<noteq> hd actual_payers then
        raise ValueError ''Payer does not match the sole actual payer''
      else Ok ())"

definition receipt_step ::
  "dcontext \<Rightarrow> string list \<Rightarrow> string \<Rightarrow> (string, dec) dict \<times> (string, dec) dict \<times> receipt_result list \<Rightarrow> receipt
    \<Rightarrow> ((string, dec) dict \<times> (string, dec) dict \<times> receipt_result list) result" where
  "receipt_step ctx participants cur st r =
     (case st of (shares, paid, results) \<Rightarrow>
        if receipt_currency r cur = PyNone then raise ValueError ''Receipt currency is required''
        else
          rbind (require_same_currency (PyStr cur) (receipt_currency r cur)) (\<lambda>_.
          rbind (calculate_receipt ctx r participants cur) (\<lambda>res.
          rbind (add_share ctx paid (rr_paid_by res, rr_net_paid res)) (\<lambda>paid'.
          rbind (foldM (add_share ctx) shares (rr_participant_shares res)) (\<lambda>shares'.
            Ok (shares', paid', results @ [res]))))))"

definition payer_obligations :: "obligation list \<Rightarrow> string \<Rightarrow> (string, dec) dict" where
  "payer_obligations obligations payer =
     foldl (\<lambda>d ob. dset d (ob_debtor ob) (ob_amount ob)) []
       (filter (\<lambda>ob. ob_creditor ob = payer) obligations)"

definition own_shares :: "(string, dec) dict \<Rightarrow> string list \<Rightarrow> (string, dec) dict result" where
  "own_shares shares payers =
     mapM (\<lambda>p. rbind (dlookup shares p) (\<lambda>x. Ok (p, x))) payers"

definition summarize_payer ::
  "dcontext \<Rightarrow> string \<Rightarrow> (string, dec) dict \<Rightarrow> (string, dec) dict \<Rightarrow> obligation list \<Rightarrow> string
    \<Rightarrow> payer_summary result" where
  "summarize_payer ctx cur shares paid obligations payer =
     (let owed = payer_obligations obligations payer in
      rbind (dlookup shares payer) (\<lambda>own.
      rbind (dec_sum ctx ZERO (dvalues owed)) (\<lambda>s.
      rbind (round_for_currency ctx s cur) (\<lambda>to_collect.
      rbind (dlookup paid payer) (\<lambda>total.
        Ok \<lparr>py_obligations = owed, py_own_share = own, py_total_to_collect = to_collect,
            py_total_paid = total\<rparr>)))))"

definition calculate_receipt_split :: "dcontext \<Rightarrow> case_data \<Rightarrow> split_result result" where
  "calculate_receipt_split ctx cd =
     (if cd_receipts cd = [] then raise ValueError ''At least one receipt is required''
      else
        rbind (case_participants cd) (\<lambda>participants.
        rbind (require_no_duplicate_participants participants) (\<lambda>_.
        rbind (resolve_authoritative_currency cd) (\<lambda>cur.
        rbind (foldM (receipt_step ctx participants cur)
                 (empty_shares participants, empty_shares participants, []) (cd_receipts cd))
          (\<lambda>(raw_shares, raw_paid, results).
        rbind (rounded_share_map ctx raw_shares cur) (\<lambda>shares.
        rbind (rounded_share_map ctx raw_paid cur) (\<lambda>paid.
          let payers = map fst (filter (\<lambda>px. \<not> dec_eq (snd px) ZERO) paid) in
        rbind (case cd_payer cd of
                 Some p \<Rightarrow> rbind (validate_primary_payer p participants payers) (\<lambda>_. Ok (Some p))
               | None \<Rightarrow> Ok (if length payers = 1 then Some (hd payers) else None)) (\<lambda>primary.
        rbind (settlement_obligations ctx participants shares paid cur) (\<lambda>obligations.
        rbind (dec_sum ctx ZERO (dvalues paid)) (\<lambda>paid_sum.
        rbind (round_for_currency ctx paid_sum cur) (\<lambda>total_paid.
        rbind (dec_sum ctx ZERO (dvalues shares)) (\<lambda>share_sum.
        rbind (round_for_currency ctx share_sum cur) (\<lambda>total_shares.
          if \<not> dec_eq total_shares total_paid then
            raise ValueError ''Total participant shares do not equal total paid amount''
          else
        rbind (own_shares shares payers) (\<lambda>owns.
        rbind (case primary of
                 None \<Rightarrow> Ok None
               | Some p \<Rightarrow> rbind (summarize_payer ctx cur shares paid obligations p) (\<lambda>s. Ok (Some s))) (\<lambda>summary.
          Ok \<lparr>sr_case_id = cd_case_id cd, sr_currency = cur,
              sr_status = (case cd_status cd of None \<Rightarrow> ''calculated_pending_confirmation'' | Some s \<Rightarrow> s),
              sr_participants = participants, sr_payer = primary,
              sr_participant_shares = shares, sr_payer_paid_amounts = paid, sr_payer_own_shares = owns,
              sr_settlement_obligations = obligations, sr_total_paid = total_paid,
              sr_receipts = results, sr_display_names = cd_display_names cd,
              sr_payer_summary = summary\<rparr>)))))))))))))))"

section \<open>The matching loop refines the abstract matching\<close>

definition flat_obligation :: "obligation \<Rightarrow> string \<times> string \<times> dec" where
  "flat_obligation ob = (ob_debtor ob, ob_creditor ob, ob_amount ob)"

lemma dval_dec_min: "dval (dec_min a b) = min (dval a) (dval b)"
  by (simp add: dec_min_def dec_lt_iff)

lemma units_of_min: "units_of u (min x y) = min (units_of u x) (units_of u y)"
proof -
  have mono: "a \<le> b \<Longrightarrow> units_of u a \<le> units_of u b" for a b by (simp add: units_of_def floor_mono)
  show ?thesis using mono [of x y] mono [of y x] by (cases "x \<le> y") (simp_all add: min_def)
qed

lemma units_of_diff:
  assumes "on_grid u x" and "on_grid u y"
  shows "units_of u (x - y) = units_of u x - units_of u y"
proof -
  obtain m n :: int where "x = of_int m / 10 ^ u" "y = of_int n / 10 ^ u"
    using assms by (auto simp: on_grid_def)
  then have "x - y = of_int (m - n) / 10 ^ u" "units_of u x = m" "units_of u y = n"
    by (simp_all add: diff_divide_distrib)
  then show ?thesis by (simp only: units_of_grid)
qed

lemma units_of_eq_iff:
  assumes "on_grid u x" and "on_grid u y"
  shows "units_of u x = units_of u y \<longleftrightarrow> x = y"
  using on_grid_units assms by metis

text \<open>One settled or reduced head entry, on decimals and on units.\<close>

lemma head_entry:
  assumes ok: "entries_ok ctx u (e # es)" and v: "dval v = dval (snd e) - m"
    and m: "0 \<le> m" "m \<le> dval (snd e)" "on_grid u m"
  shows "entries_ok ctx u (if dec_eq v ZERO then es else (fst e, v) # es)"
    and "in_units u (if dec_eq v ZERO then es else (fst e, v) # es) =
      (if units_of u (dval (snd e)) = units_of u m then in_units u es
       else (fst e, units_of u (dval (snd e)) - units_of u m) # in_units u es)"
proof -
  have g: "grid_fits ctx u (dval (snd e))" using ok by (simp add: entries_ok_def)
  then have og: "on_grid u (dval (snd e))" by (simp add: grid_fits_def)
  have z: "dec_eq v ZERO \<longleftrightarrow> dval (snd e) = m" using v by (simp only: dec_eq_iff dval_ZERO) simp
  have "grid_fits ctx u (dval v)" using v m og by (intro grid_fits_smaller [OF g]) (auto simp: on_grid_diff)
  then show "entries_ok ctx u (if dec_eq v ZERO then es else (fst e, v) # es)"
    using ok z v m by (auto simp: entries_ok_def simp del: dec_eq_ZERO)
  show "in_units u (if dec_eq v ZERO then es else (fst e, v) # es) =
      (if units_of u (dval (snd e)) = units_of u m then in_units u es
       else (fst e, units_of u (dval (snd e)) - units_of u m) # in_units u es)"
    using z v units_of_eq_iff [OF og m(3)] units_of_diff [OF og m(3)]
    by (simp add: in_units_def del: dec_eq_ZERO)
qed

text \<open>One round of a matching loop, whatever it does with the obligation it emits.\<close>

lemma matched_heads:
  fixes d c :: "string \<times> dec" and ds cs :: "(string \<times> dec) list" and d' c' :: dec
  defines "m \<equiv> min (dval (snd d)) (dval (snd c))"
  defines "ds' \<equiv> if dec_eq d' ZERO then ds else (fst d, d') # ds"
    and "cs' \<equiv> if dec_eq c' ZERO then cs else (fst c, c') # cs"
  assumes ok: "entries_ok ctx u (d # ds)" "entries_ok ctx u (c # cs)"
    and d': "dval d' = dval (snd d) - m" and c': "dval c' = dval (snd c) - m"
  shows "entries_ok ctx u ds'" and "entries_ok ctx u cs'"
    and "length ds' + length cs' < length (d # ds) + length (c # cs)"
    and "scaled_obs u (fst (greedy (in_units u (d # ds)) (in_units u (c # cs)))) =
      (fst d, fst c, m) # scaled_obs u (fst (greedy (in_units u ds') (in_units u cs')))"
    and "snd (greedy (in_units u (d # ds)) (in_units u (c # cs))) = snd (greedy (in_units u ds') (in_units u cs'))"
proof -
  have m: "0 \<le> m" "m \<le> dval (snd d)" "m \<le> dval (snd c)" "on_grid u m"
    using ok by (auto simp: entries_ok_def grid_fits_def m_def min_def)
  note hd = head_entry [OF ok(1) d' m(1,2,4), folded ds'_def]
    and hc = head_entry [OF ok(2) c' m(1,3,4), folded cs'_def]
  show "entries_ok ctx u ds'" and "entries_ok ctx u cs'" by (rule hd(1) hc(1))+
  have "dec_eq d' ZERO \<or> dec_eq c' ZERO"
    using d' c' unfolding m_def by (simp only: dec_eq_iff dval_ZERO) (simp add: min_def)
  then show "length ds' + length cs' < length (d # ds) + length (c # cs)" by (auto simp: ds'_def cs'_def)
  let ?x = "units_of u (dval (snd d))" and ?y = "units_of u (dval (snd c))"
  have gr: "greedy (in_units u (d # ds)) (in_units u (c # cs)) =
      ((fst d, fst c, min ?x ?y) # fst (greedy (in_units u ds') (in_units u cs')),
       snd (greedy (in_units u ds') (in_units u cs')))"
    unfolding hd(2) hc(2) by (simp add: in_units_def Let_def m_def units_of_min)
  have "m = of_int (min ?x ?y) / 10 ^ u" using on_grid_units [OF m(4)] by (simp add: m_def units_of_min)
  then show "scaled_obs u (fst (greedy (in_units u (d # ds)) (in_units u (c # cs)))) =
      (fst d, fst c, m) # scaled_obs u (fst (greedy (in_units u ds') (in_units u cs')))"
    and "snd (greedy (in_units u (d # ds)) (in_units u (c # cs))) = snd (greedy (in_units u ds') (in_units u cs'))"
    by (simp_all add: gr scaled_obs_def)
qed

lemma match_loop_refines:
  assumes wf: "wf_context ctx" and u: "minor_units cur = Ok u"
    and "entries_ok ctx u ds" and "entries_ok ctx u cs"
  shows "\<exists>ds' cs' obs'. match_loop ctx cur ds cs obs = Ok (ds', cs', obs @ obs') \<and>
    (\<forall>ob \<in> set obs'. ob_currency ob = cur) \<and>
    valued_obs (map flat_obligation obs') = scaled_obs u (fst (greedy (in_units u ds) (in_units u cs))) \<and>
    (in_units u ds', in_units u cs') = snd (greedy (in_units u ds) (in_units u cs))"
  using assms(3,4)
proof (induction "length ds + length cs" arbitrary: ds cs obs rule: less_induct)
  case less
  show ?case
  proof (cases "ds = [] \<or> cs = []")
    case True
    then show ?thesis by (cases ds; cases cs) (auto simp: in_units_def valued_obs_def scaled_obs_def)
  next
    case False
    then obtain d ds1 c cs1 where ds: "ds = d # ds1" and cs: "cs = c # cs1" by (cases ds; cases cs) auto
    let ?m = "min (dval (snd d)) (dval (snd c))" and ?amt = "dec_min (snd d) (snd c)"
    have g: "grid_fits ctx u (dval (snd d))" "grid_fits ctx u (dval (snd c))"
      and pos: "0 < dval (snd d)" "0 < dval (snd c)" using less.prems by (auto simp: entries_ok_def ds cs)
    have amt: "dval ?amt = ?m" by (rule dval_dec_min)
    have gm: "grid_fits ctx u ?m" using g by (simp add: min_def)
    then have m: "0 \<le> ?m" "?m \<le> dval (snd d)" "?m \<le> dval (snd c)" "on_grid u ?m"
      using pos by (auto simp: grid_fits_def)
    obtain a where a: "round_for_currency ctx ?amt cur = Ok a" "dval a = ?m"
      using calc.rnd_grid [OF wf u, of ?amt] gm amt by auto
    obtain dx d' where d': "dec_sub ctx (snd d) ?amt = Ok dx" "round_for_currency ctx dx cur = Ok d'"
      "dval d' = dval (snd d) - ?m"
      using calc.sub_round [OF wf u g(1), of ?amt] m amt by metis
    obtain cx c' where c': "dec_sub ctx (snd c) ?amt = Ok cx" "round_for_currency ctx cx cur = Ok c'"
      "dval c' = dval (snd c) - ?m"
      using calc.sub_round [OF wf u g(2), of ?amt] m amt by metis
    let ?ob = "\<lparr>ob_debtor = fst d, ob_creditor = fst c, ob_amount = a, ob_currency = cur\<rparr>"
    note round = matched_heads [OF less.prems [unfolded ds cs] d'(3) c'(3), folded ds cs]
    have nz: "\<not> dec_eq ?amt ZERO" using amt pos by (simp only: dec_eq_iff dval_ZERO)
    have step: "match_loop ctx cur ds cs obs =
        match_loop ctx cur (if dec_eq d' ZERO then ds1 else (fst d, d') # ds1)
          (if dec_eq c' ZERO then cs1 else (fst c, c') # cs1) (obs @ [?ob])"
      using nz a(1) d' c' by (simp add: ds cs Let_def del: dec_eq_ZERO)
    from less.hyps [OF round(3,1,2), of "obs @ [?ob]"] obtain ds' cs' obs' where
      "match_loop ctx cur ds cs obs = Ok (ds', cs', (obs @ [?ob]) @ obs')" "\<forall>ob \<in> set obs'. ob_currency ob = cur"
      "valued_obs (map flat_obligation (?ob # obs')) = scaled_obs u (fst (greedy (in_units u ds) (in_units u cs)))"
      "(in_units u ds', in_units u cs') = snd (greedy (in_units u ds) (in_units u cs))"
      unfolding step round(4,5) using a(2) by (auto simp: valued_obs_def flat_obligation_def)
    then show ?thesis by (intro exI [of _ ds'] exI [of _ cs'] exI [of _ "?ob # obs'"]) simp
  qed
qed

definition run_match_loop :: "dcontext \<Rightarrow> string \<Rightarrow> (string \<times> dec) list \<Rightarrow> (string \<times> dec) list \<Rightarrow>
    (string \<times> string \<times> dec) list option" where
  "run_match_loop ctx cur ds cs =
     (case match_loop ctx cur ds cs [] of
        Inl e \<Rightarrow> None
      | Inr (ds', cs', obs) \<Rightarrow> if ds' = [] \<and> cs' = [] then Some (map flat_obligation obs) else None)"

lemma in_units_Nil [simp]: "in_units u es = [] \<longleftrightarrow> es = []"
  by (simp add: in_units_def)

interpretation calc_loop: matching_loop run_match_loop "\<lambda>_. True"
proof
  fix ctx cur u ds cs
  assume h: "wf_context ctx" "minor_units cur = Ok u" "entries_ok ctx u ds" "entries_ok ctx u cs"
    and bal: "snd (greedy (in_units u ds) (in_units u cs)) = ([], [])"
  from match_loop_refines [OF h, of "[]"] bal obtain obs' where
    "match_loop ctx cur ds cs [] = Ok ([], [], obs')"
    "valued_obs (map flat_obligation obs') = scaled_obs u (fst (greedy (in_units u ds) (in_units u cs)))"
    by auto
  then show "\<exists>obs. run_match_loop ctx cur ds cs = Some obs \<and>
      valued_obs obs = scaled_obs u (fst (greedy (in_units u ds) (in_units u cs)))"
    by (intro exI [of _ "map flat_obligation obs'"]) (simp add: run_match_loop_def)
qed


section \<open>Balances\<close>

definition ledger_ok :: "dcontext \<Rightarrow> nat \<Rightarrow> string list \<Rightarrow> (string, dec) dict \<Rightarrow> bool" where
  "ledger_ok ctx u ps m \<longleftrightarrow>
     (\<forall>p \<in> set ps. case map_of m p of None \<Rightarrow> False | Some a \<Rightarrow> 0 \<le> dval a \<and> grid_fits ctx u (dval a))"

definition held :: "(string, dec) dict \<Rightarrow> string \<Rightarrow> rat" where
  "held m p = (case map_of m p of None \<Rightarrow> 0 | Some a \<Rightarrow> dval a)"

abbreviation balance_of :: "(string, dec) dict \<Rightarrow> (string, dec) dict \<Rightarrow> string \<Rightarrow> rat" where
  "balance_of shares paid p \<equiv> held paid p - held shares p"

definition partitioned :: "dcontext \<Rightarrow> nat \<Rightarrow> (string \<Rightarrow> rat) \<Rightarrow> string list \<Rightarrow> (string \<times> dec) list
    \<Rightarrow> (string \<times> dec) list \<Rightarrow> bool" where
  "partitioned ctx u bal ps ds cs \<longleftrightarrow>
     entries_ok ctx u ds \<and> entries_ok ctx u cs \<and>
     mset (valued ds) = mset (map (\<lambda>p. (p, - bal p)) (filter (\<lambda>p. bal p < 0) ps)) \<and>
     mset (valued cs) = mset (map (\<lambda>p. (p, bal p)) (filter (\<lambda>p. 0 < bal p) ps))"

lemma balance_step_Ok:
  assumes wf: "wf_context ctx" and u: "minor_units cur = Ok u"
    and ok: "ledger_ok ctx u ps shares" "ledger_ok ctx u ps paid" and p: "p \<in> set ps"
  shows "\<exists>ds' cs'. balance_step ctx shares paid cur (ds, cs) p = Ok (ds @ ds', cs @ cs') \<and>
    partitioned ctx u (balance_of shares paid) [p] ds' cs'"
proof -
  obtain a b where a: "map_of paid p = Some a" "0 \<le> dval a" "grid_fits ctx u (dval a)"
    and b: "map_of shares p = Some b" "0 \<le> dval b" "grid_fits ctx u (dval b)"
    using ok p by (fastforce simp: ledger_ok_def split: option.splits)
  have bal: "balance_of shares paid p = dval a - dval b" using a b by (simp add: held_def)
  have u2: "u \<le> 2" using u by (rule minor_units_le)
  have "on_grid u (dval a - dval b)" using a b by (simp add: grid_fits_def on_grid_diff)
  then have g: "grid_fits ctx u (dval a - dval b)"
    using a(2) b(2) grid_fits_smaller [OF a(3)] grid_fits_smaller [OF b(3)]
    by (cases "dval a \<le> dval b") auto
  then obtain d where d: "dec_sub ctx a b = Ok d" "dval d = dval a - dval b"
    using dec_sub_exactly [OF grid_fits_representable [OF g u2 wf] wf] by blast
  obtain x where x: "round_for_currency ctx d cur = Ok x" "dval x = dval a - dval b"
    using calc.rnd_grid [OF wf u, of d] g d(2) by auto
  have "representable ctx (dval x)" using grid_fits_representable [OF g u2 wf] x(2) by simp
  then obtain y where y: "dec_neg ctx x = Ok y" "dval y = dval b - dval a"
    using dec_neg_exactly [OF _ wf] x(2) by fastforce
  have "grid_fits ctx u (dval b - dval a)" using g grid_fits_minus [of ctx u "dval a - dval b"] by simp
  then show ?thesis using a b d x y g bal
    by (cases "dval a - dval b" "0 :: rat" rule: linorder_cases)
       (auto simp: balance_step_def dlookup_def dec_lt_iff partitioned_def entries_ok_def valued_def
         simp del: dval_eq_0_iff)
qed

lemma partitioned_append:
  "partitioned ctx u bal ps ds cs \<Longrightarrow> partitioned ctx u bal qs ds' cs' \<Longrightarrow>
   partitioned ctx u bal (ps @ qs) (ds @ ds') (cs @ cs')"
  by (auto simp: partitioned_def entries_ok_def valued_def)

lemma balance_fold:
  assumes "wf_context ctx" and "minor_units cur = Ok u"
    and "ledger_ok ctx u ps shares" "ledger_ok ctx u ps paid" and "set qs \<subseteq> set ps"
  shows "\<exists>ds cs. foldM (balance_step ctx shares paid cur) ([], []) qs = Ok (ds, cs) \<and>
    partitioned ctx u (balance_of shares paid) qs ds cs"
  using assms(5)
proof (induction qs rule: rev_induct)
  case Nil
  then show ?case by (simp add: partitioned_def entries_ok_def valued_def)
next
  case (snoc q qs)
  then obtain ds cs where f: "foldM (balance_step ctx shares paid cur) ([], []) qs = Ok (ds, cs)"
    and p: "partitioned ctx u (balance_of shares paid) qs ds cs" by auto
  from balance_step_Ok [OF assms(1-4), of q ds cs] snoc.prems obtain ds' cs' where
    "balance_step ctx shares paid cur (ds, cs) q = Ok (ds @ ds', cs @ cs')"
    "partitioned ctx u (balance_of shares paid) [q] ds' cs'" by auto
  then show ?case using f partitioned_append [OF p] by (fastforce simp: foldM_append)
qed

lemma amount_of_mset:
  fixes xs ys :: "('p \<times> 'a :: comm_monoid_add) list"
  assumes "mset xs = mset ys"
  shows "amount_of xs p = amount_of ys p"
proof -
  have "amount_of zs p = sum_mset (image_mset snd (filter_mset (\<lambda>e. fst e = p) (mset zs)))"
    for zs :: "('p \<times> 'a) list"
    by (simp add: amount_of_def flip: sum_mset_sum_list)
  then show ?thesis using assms by simp
qed

lemma amount_of_filter:
  "distinct ps \<Longrightarrow>
   amount_of (map (\<lambda>p. (p, f p)) (filter P ps)) p = (if p \<in> set ps \<and> P p then f p else 0)"
  by (induction ps) auto

lemma partitioned_perm:
  assumes "partitioned ctx u bal ps ds cs" and "mset ds' = mset ds" and "mset cs' = mset cs"
  shows "partitioned ctx u bal ps ds' cs'"
proof -
  have "set ds' = set ds" "set cs' = set cs" using assms(2,3) by (metis set_mset_mset)+
  then show ?thesis using assms by (simp add: partitioned_def entries_ok_def valued_def)
qed

lemma partitioned_facts:
  assumes part: "partitioned ctx u bal ps ds cs" and d: "distinct ps"
  shows "amount_of (valued ds) p = (if p \<in> set ps \<and> bal p < 0 then - bal p else 0)"
    and "amount_of (valued cs) p = (if p \<in> set ps \<and> 0 < bal p then bal p else 0)"
    and "mset (map fst ds) = mset (filter (\<lambda>p. bal p < 0) ps)"
    and "mset (map fst cs) = mset (filter (\<lambda>p. 0 < bal p) ps)"
proof -
  have v: "mset (valued ds) = mset (map (\<lambda>p. (p, - bal p)) (filter (\<lambda>p. bal p < 0) ps))"
    "mset (valued cs) = mset (map (\<lambda>p. (p, bal p)) (filter (\<lambda>p. 0 < bal p) ps))"
    using part by (simp_all add: partitioned_def)
  show "amount_of (valued ds) p = (if p \<in> set ps \<and> bal p < 0 then - bal p else 0)"
    unfolding amount_of_mset [OF v(1)] by (rule amount_of_filter [OF d])
  show "amount_of (valued cs) p = (if p \<in> set ps \<and> 0 < bal p then bal p else 0)"
    unfolding amount_of_mset [OF v(2)] by (rule amount_of_filter [OF d])
  show "mset (map fst ds) = mset (filter (\<lambda>p. bal p < 0) ps)"
    using arg_cong [OF v(1), of "image_mset fst"] by (simp add: valued_def image_mset.compositionality comp_def)
  show "mset (map fst cs) = mset (filter (\<lambda>p. 0 < bal p) ps)"
    using arg_cong [OF v(2), of "image_mset fst"] by (simp add: valued_def image_mset.compositionality comp_def)
qed

lemma partitioned_keys:
  assumes "partitioned ctx u bal ps ds cs" and "distinct ps"
  shows "distinct (map fst ds)" and "distinct (map fst cs)"
    and "fst ` set ds = {p \<in> set ps. bal p < 0}" and "fst ` set cs = {p \<in> set ps. 0 < bal p}"
    and "length ds + length cs \<le> length ps"
proof -
  note f = partitioned_facts(3,4) [OF assms]
  show "distinct (map fst ds)" "distinct (map fst cs)"
    using f assms(2) by (metis distinct_filter mset_eq_imp_distinct_iff)+
  show "fst ` set ds = {p \<in> set ps. bal p < 0}" "fst ` set cs = {p \<in> set ps. 0 < bal p}"
    using f by (metis set_mset_mset set_map set_filter)+
  have "length ds = length (filter (\<lambda>p. bal p < 0) ps)" "length cs = length (filter (\<lambda>p. 0 < bal p) ps)"
    using f by (metis size_mset length_map)+
  moreover have "length (filter (\<lambda>p. bal p < 0) ps) + length (filter (\<lambda>p. 0 < bal p) ps) \<le> length ps"
    by (induction ps) auto
  ultimately show "length ds + length cs \<le> length ps" by simp
qed

lemma settlement_result:
  assumes wf: "wf_context ctx" and u: "minor_units cur = Ok u"
    and ok: "ledger_ok ctx u ps shares" "ledger_ok ctx u ps paid"
  shows "\<exists>ds cs obs. partitioned ctx u (balance_of shares paid) ps ds cs \<and>
    settlement_obligations ctx ps shares paid cur =
      (if snd (greedy (in_units u ds) (in_units u cs)) = ([], []) then Ok obs
       else raise ValueError ''Settlement obligations do not balance'') \<and>
    valued_obs (map flat_obligation obs) = scaled_obs u (fst (greedy (in_units u ds) (in_units u cs))) \<and>
    (\<forall>ob \<in> set obs. ob_currency ob = cur)"
proof -
  obtain ds cs where f: "foldM (balance_step ctx shares paid cur) ([], []) ps = Ok (ds, cs)"
    and p: "partitioned ctx u (balance_of shares paid) ps ds cs"
    using balance_fold [OF wf u ok subset_refl] by blast
  let ?ds = "sort_key rank_key ds" and ?cs = "sort_key rank_key cs"
  have p': "partitioned ctx u (balance_of shares paid) ps ?ds ?cs"
    by (rule partitioned_perm [OF p]) simp_all
  have u2: "u \<le> 2" using u by (rule minor_units_le)
  have rep: "\<forall>e \<in> set es. representable ctx (dval (snd e))" if "entries_ok ctx u es" for es
    using that grid_fits_representable [OF _ u2 wf] by (simp add: entries_ok_def)
  have r: "ranked_by_amount ctx ds = Ok ?ds" "ranked_by_amount ctx cs = Ok ?cs"
    using p rep by (auto simp: partitioned_def intro!: ranked_by_amount_eq [OF wf])
  obtain ds' cs' obs where run: "match_loop ctx cur ?ds ?cs [] = Ok (ds', cs', obs)"
    and cur: "\<forall>ob \<in> set obs. ob_currency ob = cur"
    and val: "valued_obs (map flat_obligation obs) = scaled_obs u (fst (greedy (in_units u ?ds) (in_units u ?cs)))"
    and left: "(in_units u ds', in_units u cs') = snd (greedy (in_units u ?ds) (in_units u ?cs))"
    using match_loop_refines [OF wf u, of ?ds ?cs "[]"] p' by (auto simp: partitioned_def)
  have "snd (greedy (in_units u ?ds) (in_units u ?cs)) = ([], []) \<longleftrightarrow> ds' = [] \<and> cs' = []"
    by (simp flip: left)
  then have "settlement_obligations ctx ps shares paid cur =
      (if snd (greedy (in_units u ?ds) (in_units u ?cs)) = ([], []) then Ok obs
       else raise ValueError ''Settlement obligations do not balance'')"
    using f r run cur by (simp add: settlement_obligations_def)
  then show ?thesis using p' val cur by blast
qed

section \<open>Settlement clears every balance\<close>

text \<open>
  What a list of obligations promises for given balances: whoever is owed receives exactly the
  balance and whoever owes pays exactly it, every obligation is positive and goes from a debtor
  to a creditor, no pair occurs twice, and there are fewer obligations than participants.
\<close>

definition clears :: "(string \<Rightarrow> rat) \<Rightarrow> string list \<Rightarrow> (string \<times> string \<times> dec) list \<Rightarrow> bool" where
  "clears bal ps obs \<longleftrightarrow>
     (\<forall>p \<in> set ps. received_by (valued_obs obs) p - paid_by (valued_obs obs) p = bal p) \<and>
     (\<forall>ob \<in> set obs. 0 < dval (snd (snd ob)) \<and> fst ob \<in> set ps \<and> bal (fst ob) < 0 \<and>
        fst (snd ob) \<in> set ps \<and> 0 < bal (fst (snd ob))) \<and>
     distinct (map (\<lambda>ob. (fst ob, fst (snd ob))) obs) \<and> (obs \<noteq> [] \<longrightarrow> length obs < length ps)"

lemma settles_clears:
  assumes part: "partitioned ctx u bal ps ds cs" and d: "distinct ps"
    and s: "settles (valued ds) (valued cs) (valued_obs obs)"
  shows "clears bal ps obs"
proof -
  note k = partitioned_keys [OF part d]
  have keys: "fst ` set (valued ds) = {p \<in> set ps. bal p < 0}" "fst ` set (valued cs) = {p \<in> set ps. 0 < bal p}"
    using k(3,4) by (simp_all add: valued_def image_image)
  have "received_by (valued_obs obs) p - paid_by (valued_obs obs) p = bal p" if "p \<in> set ps" for p
    using s that by (simp add: settles_def partitioned_facts(1,2) [OF part d])
  moreover have "0 < dval (snd (snd ob)) \<and> fst ob \<in> set ps \<and> bal (fst ob) < 0 \<and>
      fst (snd ob) \<in> set ps \<and> 0 < bal (fst (snd ob))" if "ob \<in> set obs" for ob
  proof -
    have "(fst ob, fst (snd ob), dval (snd (snd ob))) \<in> set (valued_obs obs)" using that by (simp add: valued_obs_def)
    then show ?thesis using s unfolding settles_def keys by fastforce
  qed
  moreover have "distinct (map (\<lambda>ob. (fst ob, fst (snd ob))) obs)"
    using s by (simp add: settles_def valued_obs_def comp_def)
  moreover have "length obs < length ps" if "obs \<noteq> []"
    using s that k(5) by (simp add: settles_def valued_obs_def valued_def)
  ultimately show ?thesis by (simp add: clears_def)
qed

lemma sum_valued: "sum_list (map (\<lambda>e. dval (snd e)) es) = sum_mset (image_mset snd (mset (valued es)))"
  by (simp add: valued_def image_mset.compositionality comp_def flip: sum_mset_sum_list)

lemma partitioned_sums:
  assumes "partitioned ctx u bal ps ds cs"
  shows "sum_list (map (\<lambda>e. dval (snd e)) cs) - sum_list (map (\<lambda>e. dval (snd e)) ds) = sum_list (map bal ps)"
proof -
  have "sum_list (map (\<lambda>e. dval (snd e)) ds) = sum_list (map (\<lambda>p. - bal p) (filter (\<lambda>p. bal p < 0) ps))"
    "sum_list (map (\<lambda>e. dval (snd e)) cs) = sum_list (map bal (filter (\<lambda>p. 0 < bal p) ps))"
    unfolding sum_valued using assms
    by (simp_all add: partitioned_def image_mset.compositionality comp_def flip: sum_mset_sum_list)
  moreover have "sum_list (map bal (filter (\<lambda>p. 0 < bal p) ps)) -
      sum_list (map (\<lambda>p. - bal p) (filter (\<lambda>p. bal p < 0) ps)) = sum_list (map bal ps)"
    by (induction ps) auto
  ultimately show ?thesis by simp
qed

lemma partitioned_balanced:
  assumes part: "partitioned ctx u bal ps ds cs"
  shows "snd (greedy (in_units u ds) (in_units u cs)) = ([], []) \<longleftrightarrow> sum_list (map bal ps) = 0"
proof -
  have ok: "entries_ok ctx u ds" "entries_ok ctx u cs" using part by (simp_all add: partitioned_def)
  let ?D = "sum_list (map snd (in_units u ds))" and ?C = "sum_list (map snd (in_units u cs))"
  have "sum_list (map bal ps) = of_int (?C - ?D) / 10 ^ u"
    unfolding partitioned_sums [OF part, symmetric] sum_in_units [OF ok(1)] sum_in_units [OF ok(2)]
    by (simp add: diff_divide_distrib)
  then have "sum_list (map bal ps) = 0 \<longleftrightarrow> ?D = ?C" by (simp only: divide_eq_0_iff of_int_eq_0_iff) auto
  moreover have "?D = ?C" if "snd (greedy (in_units u ds) (in_units u cs)) = ([], [])"
    using greedy_total [of "in_units u ds" "in_units u cs"] that by simp
  ultimately show ?thesis using greedy_balanced ok in_units_positive by blast
qed

lemma settlement_Ok_iff:
  assumes wf: "wf_context ctx" and u: "minor_units cur = Ok u" and d: "distinct ps"
    and ok: "ledger_ok ctx u ps shares" "ledger_ok ctx u ps paid"
  shows "(\<exists>obs. settlement_obligations ctx ps shares paid cur = Ok obs) \<longleftrightarrow>
      sum_list (map (held shares) ps) = sum_list (map (held paid) ps)" (is ?iff)
    and "settlement_obligations ctx ps shares paid cur = Ok obs \<Longrightarrow>
      clears (balance_of shares paid) ps (map flat_obligation obs) \<and> (\<forall>ob \<in> set obs. ob_currency ob = cur)"
proof -
  obtain ds cs obs' where part: "partitioned ctx u (balance_of shares paid) ps ds cs"
    and run: "settlement_obligations ctx ps shares paid cur =
      (if snd (greedy (in_units u ds) (in_units u cs)) = ([], []) then Ok obs'
       else raise ValueError ''Settlement obligations do not balance'')"
    and val: "valued_obs (map flat_obligation obs') = scaled_obs u (fst (greedy (in_units u ds) (in_units u cs)))"
    and cur: "\<forall>ob \<in> set obs'. ob_currency ob = cur"
    using settlement_result [OF wf u ok] by blast
  have eok: "entries_ok ctx u ds" "entries_ok ctx u cs" using part by (simp_all add: partitioned_def)
  note bal = partitioned_balanced [OF part]
  have "sum_list (map (balance_of shares paid) ps) = sum_list (map (held paid) ps) - sum_list (map (held shares) ps)"
    by (rule sum_list_subtractf)
  then show ?iff using run bal by auto
  assume Ok: "settlement_obligations ctx ps shares paid cur = Ok obs"
  then have b: "snd (greedy (in_units u ds) (in_units u cs)) = ([], [])" and obs: "obs = obs'"
    using run by (auto split: if_splits)
  have "settles (scaled u (in_units u ds)) (scaled u (in_units u cs)) (valued_obs (map flat_obligation obs'))"
    unfolding val using eok in_units_positive partitioned_keys(1,2) [OF part d] b
    by (intro greedy_settles) (auto simp: in_units_keys)
  then have "settles (valued ds) (valued cs) (valued_obs (map flat_obligation obs'))"
    by (simp add: valued_scaled [OF eok(1)] valued_scaled [OF eok(2)])
  then show "clears (balance_of shares paid) ps (map flat_obligation obs) \<and> (\<forall>ob \<in> set obs. ob_currency ob = cur)"
    using settles_clears [OF part d] cur obs by blast
qed

lemma map_held: "wf_dict m \<Longrightarrow> map (held m) (map fst m) = map dval (dvalues m)"
  by (auto simp: dvalues_def held_def map_of_is_SomeI)

end
