(* ===== verification/Split_Correctness.thy ===== *)
theory Split_Correctness
  imports Receipt_Split
begin

text \<open>
  Correctness of the split of a case: what the running sums over the receipts hold, and that a
  split that succeeds settles every balance.
\<close>

section \<open>Accumulated amounts\<close>

text \<open>
  A running sum of non-negative amounts on the grid is exact as long as it fits the context; once
  it no longer fits it stays out of range, so that the rounding that follows refuses it.
\<close>

definition tracks :: "dcontext \<Rightarrow> nat \<Rightarrow> dec \<Rightarrow> rat \<Rightarrow> bool" where
  "tracks ctx u v e \<longleftrightarrow> 0 \<le> e \<and> on_grid u e \<and>
     (if e * 10 ^ u < 10 ^ prec ctx then dval v = e else 10 ^ prec ctx \<le> dval v * 10 ^ u)"

lemma tracks_ZERO [simp]: "tracks ctx u ZERO 0"
  by (simp add: tracks_def)

lemma tracks_add:
  assumes wf: "wf_context ctx" and u: "u \<le> 2" and v: "tracks ctx u v e"
    and y: "0 \<le> dval y" "on_grid u (dval y)" and add: "dec_add ctx v y = Ok w"
  shows "tracks ctx u w (e + dval y)"
proof -
  have g: "0 \<le> e + dval y" "on_grid u (e + dval y)" using v y by (simp_all add: tracks_def on_grid_add)
  let ?d = "dec_add_exact v y"
  have fx: "dec_fix ctx ?d = Ok w" using add by (simp add: dec_add_def)
  show ?thesis
  proof (cases "(e + dval y) * 10 ^ u < 10 ^ prec ctx")
    case True
    have "e * 10 ^ u \<le> (e + dval y) * 10 ^ u" using y by (intro mult_right_mono) auto
    then have "e * 10 ^ u < 10 ^ prec ctx" using True by (rule order_le_less_trans)
    then have ve: "dval v = e" using v by (simp add: tracks_def)
    have "grid_fits ctx u (e + dval y)" using True g by (simp add: grid_fits_def)
    then have "dval w = e + dval y"
      using dec_fix_representable [OF _ wf, of ?d] grid_fits_representable [OF _ u wf] ve fx by fastforce
    then show ?thesis using g True by (simp add: tracks_def)
  next
    case False
    have "10 ^ prec ctx \<le> (dval v + dval y) * 10 ^ u"
    proof (cases "e * 10 ^ u < 10 ^ prec ctx")
      case True
      then show ?thesis using v False by (simp add: tracks_def)
    next
      case big: False
      then have "10 ^ prec ctx \<le> dval v * 10 ^ u" using v by (simp add: tracks_def)
      also have "\<dots> \<le> (dval v + dval y) * 10 ^ u" using y by (intro mult_right_mono) auto
      finally show ?thesis .
    qed
    moreover have pos: "0 \<le> dval v + dval y"
    proof -
      have "0 \<le> dval v"
      proof (cases "e * 10 ^ u < 10 ^ prec ctx")
        case False
        then have "10 ^ prec ctx \<le> dval v * 10 ^ u" using v by (simp add: tracks_def)
        then have "0 < dval v * 10 ^ u" by (rule order_less_le_trans [rotated]) simp
        then show ?thesis by (simp add: zero_less_mult_iff)
      qed (use v in \<open>simp add: tracks_def\<close>)
      then show ?thesis using y by simp
    qed
    ultimately have "10 ^ prec ctx \<le> \<bar>dval w\<bar> * 10 ^ u" using dec_fix_big [OF fx wf u] by simp
    moreover have "0 \<le> dval w" using dec_fix_nonneg [OF fx _ wf] pos by simp
    ultimately show ?thesis using g False by (simp add: tracks_def)
  qed
qed

text \<open>Rounding to the currency succeeds only on exact sums, and keeps them.\<close>

lemma tracks_round:
  assumes wf: "wf_context ctx" and u: "minor_units cur = Ok u" and v: "tracks ctx u v e"
    and r: "round_for_currency ctx v cur = Ok y"
  shows "dval y = e" and "grid_fits ctx u e"
proof -
  have y: "grid_fits ctx u (dval y)" "\<bar>dval y - dval v\<bar> \<le> 1 / (2 * 10 ^ u)"
    using calc.rnd_fits [OF wf u r] calc.rnd_error [OF wf u r] by blast+
  have fits: "e * 10 ^ u < 10 ^ prec ctx"
  proof (rule ccontr)
    assume "\<not> ?thesis"
    then have big: "10 ^ prec ctx \<le> dval v * 10 ^ u" using v by (simp add: tracks_def)
    obtain n :: int where n: "dval y = of_int n / 10 ^ u" using y(1) by (auto simp: grid_fits_def on_grid_def)
    have "\<bar>dval y - dval v\<bar> * 10 ^ u \<le> 1 / (2 * 10 ^ u) * 10 ^ u" using y(2) by (intro mult_right_mono) simp_all
    then have err: "\<bar>dval y - dval v\<bar> * 10 ^ u \<le> 1 / 2" by simp
    have "of_int n - dval v * 10 ^ u = (dval y - dval v) * 10 ^ u" by (simp add: n left_diff_distrib)
    then have "\<bar>of_int n - dval v * 10 ^ u\<bar> = \<bar>dval y - dval v\<bar> * 10 ^ u" by (simp add: abs_mult)
    then have "\<bar>of_int n - dval v * 10 ^ u\<bar> \<le> 1 / 2" using err by (simp only:)
    then have "10 ^ prec ctx < of_int n + (1 :: rat)" using big by linarith
    then have "of_int (10 ^ prec ctx) < (of_int (n + 1) :: rat)" by simp
    then have "10 ^ prec ctx \<le> n" by (simp only: of_int_less_iff)
    moreover have "\<bar>n\<bar> < 10 ^ prec ctx" using y(1) by (simp add: n grid_fits_units)
    ultimately show False by linarith
  qed
  then have ve: "dval v = e" using v by (simp add: tracks_def)
  have "on_grid u (dval v)" using v ve by (simp add: tracks_def)
  then show "dval y = e" using calc.rnd_keeps [OF wf u _ r] ve by simp
  then show "grid_fits ctx u e" using y(1) by simp
qed

lemma tracks_sum:
  assumes wf: "wf_context ctx" and u: "u \<le> 2" and "tracks ctx u v e"
    and "\<forall>x \<in> set xs. 0 \<le> dval x \<and> on_grid u (dval x)" and "dec_sum ctx v xs = Ok w"
  shows "tracks ctx u w (e + sum_list (map dval xs))"
  using assms(3-5)
proof (induction xs arbitrary: v e)
  case Nil
  then show ?case by (simp add: dec_sum_def)
next
  case (Cons x xs)
  then obtain v' where v': "dec_add ctx v x = Ok v'" "dec_sum ctx v' xs = Ok w"
    by (auto simp: dec_sum_def rbind_Ok_iff)
  have "tracks ctx u v' (e + dval x)" using Cons.prems v'(1) by (intro tracks_add [OF wf u]) auto
  from Cons.IH [OF this _ v'(2)] Cons.prems show ?case by (simp add: add.assoc)
qed

definition tracked :: "dcontext \<Rightarrow> nat \<Rightarrow> string list \<Rightarrow> (string, dec) dict \<Rightarrow> (string \<Rightarrow> rat) \<Rightarrow> bool" where
  "tracked ctx u ps m E \<longleftrightarrow> map fst m = ps \<and> (\<forall>p \<in> set ps. tracks ctx u (the (map_of m p)) (E p))"

lemma empty_shares_map: "distinct ps \<Longrightarrow> empty_shares ps = map (\<lambda>p. (p, ZERO)) ps"
proof (induction ps rule: rev_induct)
  case (snoc p ps)
  then show ?case by (simp add: empty_shares_def dset_absent)
qed (simp add: empty_shares_def)

lemma tracked_empty: "distinct ps \<Longrightarrow> tracked ctx u ps (empty_shares ps) (\<lambda>_. 0)"
  by (simp add: tracked_def empty_shares_map comp_def map_of_map_same)

lemma tracked_add:
  assumes wf: "wf_context ctx" and u: "u \<le> 2" and m: "tracked ctx u ps m E" and d: "distinct ps"
    and x: "0 \<le> dval x" "on_grid u (dval x)" and add: "add_share ctx m (p, x) = Ok m'"
  shows "p \<in> set ps" and "tracked ctx u ps m' (\<lambda>q. E q + (if q = p then dval x else 0))"
proof -
  from add obtain old new where o: "map_of m p = Some old" "dec_add ctx old x = Ok new" "m' = dset m p new"
    by (auto simp: add_share_def rbind_Ok_iff dlookup_Ok_iff)
  have keys: "map fst m = ps" using m by (simp add: tracked_def)
  show p: "p \<in> set ps" using o(1) keys by (metis domI dom_map_of_conv_image_fst set_map)
  have "tracks ctx u old (E p)" using m p o(1) by (force simp: tracked_def)
  then have "tracks ctx u new (E p + dval x)" by (rule tracks_add [OF wf u _ x o(2)])
  moreover have "map fst m' = ps" using keys p by (simp add: o(3) dset_present)
  ultimately show "tracked ctx u ps m' (\<lambda>q. E q + (if q = p then dval x else 0))"
    using m by (auto simp: tracked_def o(3) map_of_dset)
qed

lemma tracked_adds:
  assumes wf: "wf_context ctx" and u: "u \<le> 2" and d: "distinct ps"
    and "tracked ctx u ps m E" and "\<forall>e \<in> set es. 0 \<le> dval (snd e) \<and> on_grid u (dval (snd e))"
    and "foldM (add_share ctx) m es = Ok m'"
  shows "tracked ctx u ps m' (\<lambda>q. E q + amount_of (valued es) q)"
  using assms(4-6)
proof (induction es arbitrary: m E)
  case Nil
  then show ?case by (simp add: valued_def)
next
  case (Cons e es)
  then obtain m1 where m1: "add_share ctx m (fst e, snd e) = Ok m1" "foldM (add_share ctx) m1 es = Ok m'"
    by (auto simp: rbind_Ok_iff)
  have "tracked ctx u ps m1 (\<lambda>q. E q + (if q = fst e then dval (snd e) else 0))"
    using Cons.prems m1(1) by (intro tracked_add(2) [OF wf u _ d]) auto
  from Cons.IH [OF this _ m1(2)] Cons.prems
  have "tracked ctx u ps m' (\<lambda>q. E q + (if q = fst e then dval (snd e) else 0) + amount_of (valued es) q)" by simp
  moreover have "(\<lambda>q. E q + (if q = fst e then dval (snd e) else 0) + amount_of (valued es) q)
      = (\<lambda>q. E q + amount_of (valued (e # es)) q)"
    by (auto simp: valued_def fun_eq_iff)
  ultimately show ?case by simp
qed

lemma tracked_rounded:
  assumes wf: "wf_context ctx" and u: "minor_units cur = Ok u" and d: "distinct ps"
    and m: "tracked ctx u ps m E" and r: "rounded_share_map ctx m cur = Ok m'"
  shows "map fst m' = ps" and "\<forall>p \<in> set ps. held m' p = E p" and "ledger_ok ctx u ps m'"
proof -
  have all: "list_all2 (\<lambda>e e'. rounded_share ctx cur e = Ok e') m m'"
    using r by (simp add: rounded_share_map_def mapM_Ok_iff)
  then have "list_all2 (\<lambda>e e'. fst e' = fst e) m m'"
    by (rule list_all2_mono) (auto simp: rounded_share_def rbind_Ok_iff)
  then have keys: "map fst m' = map fst m" by (induction rule: list_all2_induct) auto
  then show k: "map fst m' = ps" using m by (simp add: tracked_def)
  have val: "\<exists>y. map_of m' p = Some y \<and> dval y = E p \<and> grid_fits ctx u (E p)" if p: "p \<in> set ps" for p
  proof -
    have "p \<in> set (map fst m')" using k p by simp
    then obtain y where y: "map_of m' p = Some y" by (cases "map_of m' p") (auto simp: map_of_eq_None_iff)
    then have "(p, y) \<in> set m'" by (rule map_of_SomeD)
    then obtain i where i: "i < length m'" "m' ! i = (p, y)" using in_set_conv_nth [of "(p, y)" m'] by blast
    then have im: "i < length m" using all by (simp add: list_all2_lengthD)
    have r: "rounded_share ctx cur (m ! i) = Ok (p, y)" using list_all2_nthD2 [OF all i(1)] i(2) by simp
    then have mi: "fst (m ! i) = p" "round_for_currency ctx (snd (m ! i)) cur = Ok y"
      by (auto simp: rounded_share_def rbind_Ok_iff)
    have "wf_dict m" using m d by (simp add: tracked_def)
    moreover have "(p, snd (m ! i)) \<in> set m" using nth_mem [OF im] by (subst mi(1) [symmetric]) simp
    ultimately have "map_of m p = Some (snd (m ! i))" by (rule map_of_is_SomeI)
    then have "tracks ctx u (snd (m ! i)) (E p)" using m p by (force simp: tracked_def)
    then show ?thesis using tracks_round [OF wf u _ mi(2)] y by blast
  qed
  then show "\<forall>p \<in> set ps. held m' p = E p" by (force simp: held_def)
  show "ledger_ok ctx u ps m'"
    unfolding ledger_ok_def
  proof
    fix p assume p: "p \<in> set ps"
    then have "0 \<le> E p" using m by (simp add: tracked_def tracks_def)
    then show "case map_of m' p of None \<Rightarrow> False | Some a \<Rightarrow> 0 \<le> dval a \<and> grid_fits ctx u (dval a)"
      using val [OF p] by force
  qed
qed

section \<open>The split of a case\<close>

definition receipt_ok :: "dcontext \<Rightarrow> nat \<Rightarrow> string list \<Rightarrow> receipt_result \<Rightarrow> bool" where
  "receipt_ok ctx u ps res \<longleftrightarrow>
     map fst (rr_participant_shares res) = ps \<and> rr_paid_by res \<in> set ps \<and>
     (\<forall>y \<in> set (dvalues (rr_participant_shares res)). 0 \<le> dval y \<and> grid_fits ctx u (dval y)) \<and>
     sum_list (map dval (dvalues (rr_participant_shares res))) = dval (rr_net_paid res) \<and>
     0 \<le> dval (rr_net_paid res) \<and> grid_fits ctx u (dval (rr_net_paid res))"

lemma calculate_receipt_Ok:
  assumes wf: "wf_context ctx" and u: "minor_units cur = Ok u" and ok: "calculate_receipt ctx r ps cur = Ok res"
  shows "receipt_ok ctx u ps res"
proof -
  obtain payer where payer: "rc_paid_by r = Some payer" "payer \<in> set ps"
    using ok by (auto simp: calculate_receipt_def split: option.splits if_splits)
  from ok payer obtain shares policy payer' where
    "allocate_minor_units ctx shares (Finite (rr_net_paid res)) cur ps policy payer' = Ok (rr_participant_shares res)"
    and "rr_paid_by res = payer"
    by (auto simp: calculate_receipt_def rbind_Ok_iff Let_def split: prod.splits)
  then show ?thesis using allocate_total [OF wf _ u] payer(2) by (fastforce simp: receipt_ok_def)
qed

lemma amount_of_held: "wf_dict m \<Longrightarrow> amount_of (valued m) p = held m p"
proof (induction m)
  case (Cons e m)
  have "fst e = p \<Longrightarrow> map_of m p = None" using Cons.prems by (auto simp: map_of_eq_None_iff)
  then show ?case using Cons by (cases e) (auto simp: valued_def held_def)
qed (simp add: valued_def held_def)

definition shared_out :: "receipt_result list \<Rightarrow> string \<Rightarrow> rat" where
  "shared_out results p = sum_list (map (\<lambda>res. held (rr_participant_shares res) p) results)"

definition paid_in :: "receipt_result list \<Rightarrow> string \<Rightarrow> rat" where
  "paid_in results p = sum_list (map (\<lambda>res. if rr_paid_by res = p then dval (rr_net_paid res) else 0) results)"

definition case_state_ok :: "dcontext \<Rightarrow> nat \<Rightarrow> string list
    \<Rightarrow> (string, dec) dict \<times> (string, dec) dict \<times> receipt_result list \<Rightarrow> bool" where
  "case_state_ok ctx u ps st \<longleftrightarrow> (case st of (shares, paid, results) \<Rightarrow>
     tracked ctx u ps shares (shared_out results) \<and> tracked ctx u ps paid (paid_in results) \<and>
     list_all (receipt_ok ctx u ps) results)"

lemma receipt_step_invariant:
  assumes wf: "wf_context ctx" and u: "minor_units cur = Ok u" and d: "distinct ps"
    and st: "case_state_ok ctx u ps st" and step: "receipt_step ctx ps cur st r = Ok st'"
  shows "case_state_ok ctx u ps st'"
proof -
  obtain shares paid results where s: "st = (shares, paid, results)" by (cases st)
  from step obtain res paid' shares' where res: "calculate_receipt ctx r ps cur = Ok res"
    and paid': "add_share ctx paid (rr_paid_by res, rr_net_paid res) = Ok paid'"
    and shares': "foldM (add_share ctx) shares (rr_participant_shares res) = Ok shares'"
    and st': "st' = (shares', paid', results @ [res])"
    by (auto simp: s receipt_step_def rbind_Ok_iff split: if_splits)
  have u2: "u \<le> 2" using u by (rule minor_units_le)
  have ok: "receipt_ok ctx u ps res" by (rule calculate_receipt_Ok [OF wf u res])
  have old: "tracked ctx u ps shares (shared_out results)" "tracked ctx u ps paid (paid_in results)"
    "list_all (receipt_ok ctx u ps) results" using st by (simp_all add: s case_state_ok_def)
  have "\<forall>e \<in> set (rr_participant_shares res). 0 \<le> dval (snd e) \<and> on_grid u (dval (snd e))"
    using ok by (simp add: receipt_ok_def dvalues_def grid_fits_def)
  from tracked_adds [OF wf u2 d old(1) this shares']
  have "tracked ctx u ps shares' (\<lambda>q. shared_out results q + held (rr_participant_shares res) q)"
    using ok d by (simp add: amount_of_held receipt_ok_def)
  moreover have "0 \<le> dval (rr_net_paid res)" "on_grid u (dval (rr_net_paid res))"
    using ok by (simp_all add: receipt_ok_def grid_fits_def)
  note tracked_add(2) [OF wf u2 old(2) d this paid']
  moreover have "(\<lambda>q. shared_out results q + held (rr_participant_shares res) q) = shared_out (results @ [res])"
    and "(\<lambda>q. paid_in results q + (if q = rr_paid_by res then dval (rr_net_paid res) else 0)) = paid_in (results @ [res])"
    by (auto simp: shared_out_def paid_in_def fun_eq_iff)
  ultimately show ?thesis using old(3) ok by (simp add: st' case_state_ok_def)
qed

lemma sum_held: "wf_dict m \<Longrightarrow> sum_list (map (held m) (map fst m)) = sum_list (map dval (dvalues m))"
  by (simp only: map_held)

lemma receipts_balance:
  assumes "list_all (receipt_ok ctx u ps) results" and d: "distinct ps"
  shows "sum_list (map (shared_out results) ps) = sum_list (map (\<lambda>res. dval (rr_net_paid res)) results) \<and>
    sum_list (map (paid_in results) ps) = sum_list (map (\<lambda>res. dval (rr_net_paid res)) results)"
  using assms(1)
proof (induction results)
  case (Cons res results)
  have r: "map fst (rr_participant_shares res) = ps" "rr_paid_by res \<in> set ps"
    "sum_list (map dval (dvalues (rr_participant_shares res))) = dval (rr_net_paid res)"
    using Cons.prems by (simp_all add: receipt_ok_def)
  have "sum_list (map (held (rr_participant_shares res)) ps) = dval (rr_net_paid res)"
    using sum_held [of "rr_participant_shares res"] r d by simp
  moreover have "sum_list (map (\<lambda>p. if rr_paid_by res = p then dval (rr_net_paid res) else 0) ps) = dval (rr_net_paid res)"
    using r(2) d by (simp add: sum_list_distinct_conv_sum_set)
  moreover have "sum_list (map (shared_out (res # results)) ps) =
      sum_list (map (held (rr_participant_shares res)) ps) + sum_list (map (shared_out results) ps)"
    "sum_list (map (paid_in (res # results)) ps) =
      sum_list (map (\<lambda>p. if rr_paid_by res = p then dval (rr_net_paid res) else 0) ps) + sum_list (map (paid_in results) ps)"
  proof -
    have "shared_out (res # results) = (\<lambda>p. held (rr_participant_shares res) p + shared_out results p)"
      "paid_in (res # results) = (\<lambda>p. (if rr_paid_by res = p then dval (rr_net_paid res) else 0) + paid_in results p)"
      by (simp_all add: fun_eq_iff shared_out_def paid_in_def)
    then show "sum_list (map (shared_out (res # results)) ps) =
        sum_list (map (held (rr_participant_shares res)) ps) + sum_list (map (shared_out results) ps)"
      "sum_list (map (paid_in (res # results)) ps) =
        sum_list (map (\<lambda>p. if rr_paid_by res = p then dval (rr_net_paid res) else 0) ps) + sum_list (map (paid_in results) ps)"
      by (simp_all only: sum_list_addf)
  qed
  ultimately show ?case using Cons by simp
next
  case Nil
  have "shared_out [] = (\<lambda>_. 0)" "paid_in [] = (\<lambda>_. 0)"
    by (simp_all add: fun_eq_iff shared_out_def paid_in_def)
  then show ?case by (simp add: sum_list_0)
qed

lemma tracked_total:
  assumes wf: "wf_context ctx" and u: "minor_units cur = Ok u" and m: "ledger_ok ctx u ps m" "map fst m = ps" "distinct ps"
    and s: "dec_sum ctx ZERO (dvalues m) = Ok s" "round_for_currency ctx s cur = Ok t"
  shows "dval t = sum_list (map (held m) ps)"
proof -
  have "0 \<le> dval y \<and> on_grid u (dval y)" if y: "y \<in> set (dvalues m)" for y
  proof -
    obtain p where py: "(p, y) \<in> set m" using y by (auto simp: dvalues_def)
    have "p \<in> set ps" unfolding m(2) [symmetric] set_map using py by (rule image_eqI [rotated]) simp
    moreover have "map_of m p = Some y" using m(2,3) py by (simp add: map_of_is_SomeI)
    ultimately show ?thesis using m(1) by (force simp: ledger_ok_def grid_fits_def)
  qed
  then have "tracks ctx u s (0 + sum_list (map dval (dvalues m)))"
    using s(1) by (intro tracks_sum [OF wf minor_units_le [OF u]]) auto
  then have "dval t = 0 + sum_list (map dval (dvalues m))" by (rule tracks_round(1) [OF wf u _ s(2)])
  then show ?thesis using sum_held [of m] m by simp
qed

lemma split_Ok:
  assumes wf: "wf_context ctx" and ok: "calculate_receipt_split ctx cd = Ok r"
  obtains u where "minor_units (sr_currency r) = Ok u" and "distinct (sr_participants r)"
    and "\<forall>p \<in> set (sr_participants r). held (sr_participant_shares r) p = shared_out (sr_receipts r) p"
    and "\<forall>p \<in> set (sr_participants r). held (sr_payer_paid_amounts r) p = paid_in (sr_receipts r) p"
    and "list_all (receipt_ok ctx u (sr_participants r)) (sr_receipts r)"
    and "ledger_ok ctx u (sr_participants r) (sr_participant_shares r)"
    and "ledger_ok ctx u (sr_participants r) (sr_payer_paid_amounts r)"
    and "dval (sr_total_paid r) = sum_list (map (held (sr_payer_paid_amounts r)) (sr_participants r))"
    and "settlement_obligations ctx (sr_participants r) (sr_participant_shares r) (sr_payer_paid_amounts r)
      (sr_currency r) = Ok (sr_settlement_obligations r)"
proof -
  from ok obtain raw_shares raw_paid paid_sum where
    d: "distinct (sr_participants r)" and cur: "normalize_currency (cd_currency cd) = Ok (sr_currency r)"
    and fold: "foldM (receipt_step ctx (sr_participants r) (sr_currency r))
        (empty_shares (sr_participants r), empty_shares (sr_participants r), []) (cd_receipts cd)
      = Ok (raw_shares, raw_paid, sr_receipts r)"
    and sh: "rounded_share_map ctx raw_shares (sr_currency r) = Ok (sr_participant_shares r)"
    and pd: "rounded_share_map ctx raw_paid (sr_currency r) = Ok (sr_payer_paid_amounts r)"
    and st: "settlement_obligations ctx (sr_participants r) (sr_participant_shares r) (sr_payer_paid_amounts r)
      (sr_currency r) = Ok (sr_settlement_obligations r)"
    and tot: "dec_sum ctx ZERO (dvalues (sr_payer_paid_amounts r)) = Ok paid_sum"
      "round_for_currency ctx paid_sum (sr_currency r) = Ok (sr_total_paid r)"
    unfolding calculate_receipt_split_def
    by (auto simp: rbind_Ok_iff Let_def require_no_duplicate_participants_def require_no_duplicates_in_list_def
        ensure_Ok_iff resolve_authoritative_currency_def split: prod.splits if_splits)
  have "sr_currency r \<in> set SUPPORTED_CURRENCIES" using cur by (auto simp: normalize_currency_Ok_iff)
  then obtain u where u: "minor_units (sr_currency r) = Ok u" using minor_units_supported by blast
  have "case_state_ok ctx u (sr_participants r) (empty_shares (sr_participants r), empty_shares (sr_participants r), [])"
  proof -
    have "shared_out [] = (\<lambda>_. 0)" "paid_in [] = (\<lambda>_. 0)"
      by (simp_all add: fun_eq_iff shared_out_def paid_in_def)
    then show ?thesis using tracked_empty [OF d] by (simp add: case_state_ok_def)
  qed
  then have "case_state_ok ctx u (sr_participants r) (raw_shares, raw_paid, sr_receipts r)"
    using receipt_step_invariant [OF wf u d] by (rule foldM_Ok_invariant [OF fold])
  then have st': "tracked ctx u (sr_participants r) raw_shares (shared_out (sr_receipts r))"
    "tracked ctx u (sr_participants r) raw_paid (paid_in (sr_receipts r))"
    "list_all (receipt_ok ctx u (sr_participants r)) (sr_receipts r)" by (simp_all add: case_state_ok_def)
  note a = tracked_rounded [OF wf u d st'(1) sh] and b = tracked_rounded [OF wf u d st'(2) pd]
  show thesis
    by (rule that [OF u d a(2) b(2) st'(3) a(3) b(3) tracked_total [OF wf u b(3,1) d tot] st])
qed

section \<open>Properties\<close>

text \<open>
  C9 A split that succeeds settles the case. Every participant's share and payment is the exact sum
  of their shares and payments over the receipts; shares and payments both add up to the total
  paid; and the settlement obligations bring every participant's balance to zero: debtors pay,
  creditors receive, nobody does both, no pair meets twice, and there are fewer obligations than
  participants.
\<close>

theorem receipt_split_settles:
  assumes wf: "wf_context ctx" and ok: "calculate_receipt_split ctx cd = Ok r"
  shows "(\<forall>p \<in> set (sr_participants r).
        held (sr_participant_shares r) p = sum_list (map (\<lambda>res. held (rr_participant_shares res) p) (sr_receipts r)) \<and>
        held (sr_payer_paid_amounts r) p =
          sum_list (map (\<lambda>res. if rr_paid_by res = p then dval (rr_net_paid res) else 0) (sr_receipts r))) \<and>
      sum_list (map (held (sr_participant_shares r)) (sr_participants r)) = dval (sr_total_paid r) \<and>
      sum_list (map (held (sr_payer_paid_amounts r)) (sr_participants r)) = dval (sr_total_paid r) \<and>
      clears (balance_of (sr_participant_shares r) (sr_payer_paid_amounts r)) (sr_participants r)
        (map flat_obligation (sr_settlement_obligations r))"
proof -
  obtain u where u: "minor_units (sr_currency r) = Ok u" "distinct (sr_participants r)"
    and sums: "\<forall>p \<in> set (sr_participants r). held (sr_participant_shares r) p = shared_out (sr_receipts r) p"
      "\<forall>p \<in> set (sr_participants r). held (sr_payer_paid_amounts r) p = paid_in (sr_receipts r) p"
    and l: "ledger_ok ctx u (sr_participants r) (sr_participant_shares r)"
      "ledger_ok ctx u (sr_participants r) (sr_payer_paid_amounts r)"
    and tot: "dval (sr_total_paid r) = sum_list (map (held (sr_payer_paid_amounts r)) (sr_participants r))"
    and st: "settlement_obligations ctx (sr_participants r) (sr_participant_shares r) (sr_payer_paid_amounts r)
      (sr_currency r) = Ok (sr_settlement_obligations r)"
    by (rule split_Ok [OF wf ok])
  note s = settlement_Ok_iff [OF wf u l]
  have "sum_list (map (held (sr_participant_shares r)) (sr_participants r)) =
      sum_list (map (held (sr_payer_paid_amounts r)) (sr_participants r))"
    unfolding s(1) [symmetric] using st by (rule exI)
  then show ?thesis using sums tot s(2) [OF st] by (simp add: shared_out_def paid_in_def)
qed

text \<open>
  C10 Balances settle exactly when they balance. On ledgers of non-negative amounts of whole minor
  units the settlement returns obligations that clear every balance if shares and payments have
  the same sum, and otherwise raises the one error it has for that.
\<close>

theorem settlement_iff_balanced:
  assumes "wf_context ctx" and "minor_units cur = Ok u" and "distinct ps"
    and "ledger_ok ctx u ps shares" and "ledger_ok ctx u ps paid"
  shows "if sum_list (map (held shares) ps) = sum_list (map (held paid) ps)
         then \<exists>obs. settlement_obligations ctx ps shares paid cur = Ok obs \<and>
           clears (balance_of shares paid) ps (map flat_obligation obs)
         else settlement_obligations ctx ps shares paid cur = raise ValueError ''Settlement obligations do not balance''"
proof -
  note s = settlement_Ok_iff [OF assms]
  obtain ds cs obs where run: "settlement_obligations ctx ps shares paid cur =
      (if snd (greedy (in_units u ds) (in_units u cs)) = ([], []) then Ok obs
       else raise ValueError ''Settlement obligations do not balance'')"
    using settlement_result [OF assms(1,2,4,5)] by (elim exE conjE) (rule that)
  show ?thesis unfolding s(1) [symmetric] using s(2) [of obs] by (simp add: run)
qed

text \<open>A dinner paid by one of three people, and a taxi paid by another.\<close>

definition blank_item :: receipt_item where
  "blank_item = \<lparr>it_amount = None, it_line_amount = None, it_currency = PyNone, it_allocation_method = None,
     it_participants = [], it_consumers = [], it_owners = [], it_allocations = [], it_description = None,
     it_name = None, it_item_name = None\<rparr>"

definition blank_receipt :: receipt where
  "blank_receipt = \<lparr>rc_receipt_id = None, rc_id = None, rc_label = None, rc_merchant = None, rc_currency = None,
     rc_paid_by = None, rc_items = None, rc_adjustments = [], rc_subtotal = None, rc_net_paid = None,
     rc_service_charge_amount = None, rc_service_charge_rate = None, rc_service_charge_allocation_method = None,
     rc_service_charge_allocations = [], rc_service_charge_participants = [], rc_discount = None,
     rc_discount_allocation_method = None, rc_discount_allocations = [], rc_discount_participants = [],
     rc_rounding_policy = None\<rparr>"

definition outing :: case_data where
  "outing = \<lparr>cd_case_id = Some ''c1'', cd_status = None, cd_currency = PyStr ''SGD'',
     cd_participants = [''a'', ''b'', ''c''], cd_payer = None, cd_display_names = [],
     cd_receipts =
      [blank_receipt\<lparr>rc_paid_by := Some ''a'', rc_items :=
         Some [blank_item\<lparr>it_amount := Some (PyStr ''10.01''), it_participants := [''a'', ''b'']\<rparr>],
         rc_net_paid := Some (PyStr ''10.01'')\<rparr>,
       blank_receipt\<lparr>rc_paid_by := Some ''b'', rc_items :=
         Some [blank_item\<lparr>it_amount := Some (PyStr ''1.00''), it_participants := [''b'', ''c'']\<rparr>],
         rc_subtotal := Some (PyStr ''1.00''), rc_net_paid := Some (PyStr ''1.00'')\<rparr>]\<rparr>"

definition thirds :: "py_value option \<Rightarrow> receipt" where
  "thirds subtotal = blank_receipt\<lparr>rc_paid_by := Some ''a'', rc_items :=
     Some [blank_item\<lparr>it_amount := Some (PyStr ''10.00''), it_participants := [''a'', ''b'', ''c'']\<rparr>],
     rc_subtotal := subtotal\<rparr>"

lemma outing_split: "isl (calculate_receipt_split nine_digits outing) = False"
  by code_simp

theorem receipt_split_settles_witness:
  "\<exists>r. calculate_receipt_split nine_digits outing = Ok r \<and>
     sum_list (map (held (sr_participant_shares r)) (sr_participants r)) = dval (sr_total_paid r) \<and>
     clears (balance_of (sr_participant_shares r) (sr_payer_paid_amounts r)) (sr_participants r)
       (map flat_obligation (sr_settlement_obligations r))"
proof -
  obtain r where "calculate_receipt_split nine_digits outing = Ok r"
    using outing_split by (cases "calculate_receipt_split nine_digits outing") auto
  then show ?thesis using receipt_split_settles [OF wf_nine_digits] by blast
qed

abbreviation two_shares :: "(string, dec) dict" where
  "two_shares \<equiv> [(''a'', Dec False 5 0), (''b'', Dec False 5 0)]"

abbreviation one_payment :: "(string, dec) dict" where
  "one_payment \<equiv> [(''a'', Dec False 10 0), (''b'', ZERO)]"

lemma two_shares_ok:
  "ledger_ok nine_digits 2 [''a'', ''b''] two_shares" "ledger_ok nine_digits 2 [''a'', ''b''] one_payment"
  by code_simp+

theorem settlement_iff_balanced_witness:
  "\<exists>obs. settlement_obligations nine_digits [''a'', ''b''] two_shares one_payment ''SGD'' = Ok obs \<and>
     clears (balance_of two_shares one_payment) [''a'', ''b''] (map flat_obligation obs)"
  using settlement_iff_balanced [OF wf_nine_digits three_shares_currency _ two_shares_ok]
  by (simp add: held_def dval_def ZERO_def)

text \<open>
  An example of the comparison with a written subtotal: at Python's default precision a receipt of
  10.00 shared equally by three people has exact shares and a net paid amount of 10.00, but with the
  subtotal 10.00 written on it the calculation raises. The shares, rounded to 28 digits, add up to
  less than the subtotal, and are compared with it before they are rounded to the currency.
\<close>

lemma subtotal_of_thirds_refused:
  "compute_exact_receipt_shares default_context (thirds None) [''a'', ''b'', ''c''] ''SGD'' =
     Ok \<lparr>ex_item_total = Dec False 1000 (- 2), ex_net_paid = Dec False 1000 (- 2),
         ex_participant_shares =
           map (\<lambda>p. (p, Dec False 3333333333333333333333333333 (- 27))) [''a'', ''b'', ''c''],
         ex_adjustments = [], ex_adjustment_details = []\<rparr> \<and>
   compute_exact_receipt_shares default_context (thirds (Some (PyStr ''10.00''))) [''a'', ''b'', ''c''] ''SGD'' =
     raise ValueError ''item total does not match subtotal''"
  by code_simp

text \<open>
  C11 The matching loop refines the abstract greedy matching. On positive amounts of whole minor
  units it never fails: it emits exactly the obligations of the abstract matching of the amounts
  counted in minor units, in order and in the settlement's currency, and stops with the same
  entries left over.
\<close>

theorem match_loop_refines_greedy:
  assumes "wf_context ctx" and "minor_units cur = Ok u" and "entries_ok ctx u ds" and "entries_ok ctx u cs"
  shows "\<exists>ds' cs' obs. match_loop ctx cur ds cs [] = Ok (ds', cs', obs) \<and>
    (\<forall>ob \<in> set obs. ob_currency ob = cur) \<and>
    valued_obs (map flat_obligation obs) = scaled_obs u (fst (greedy (in_units u ds) (in_units u cs))) \<and>
    (in_units u ds', in_units u cs') = snd (greedy (in_units u ds) (in_units u cs))"
  using match_loop_refines [OF assms, of "[]"] by simp

lemma entries_two: "entries_ok nine_digits 2 [(''b'', Dec False 5 0)]" "entries_ok nine_digits 2 [(''a'', Dec False 700 (- 2))]"
  by code_simp+

theorem match_loop_refines_greedy_witness:
  "\<exists>ds' cs' obs. match_loop nine_digits ''SGD'' [(''b'', Dec False 5 0)] [(''a'', Dec False 700 (- 2))] [] = Ok (ds', cs', obs) \<and>
    (in_units 2 ds', in_units 2 cs') = ([], [(''a'', 200)])"
proof -
  have "snd (greedy (in_units 2 [(''b'', Dec False 5 0)]) (in_units 2 [(''a'', Dec False 700 (- 2))])) = ([], [(''a'', 200)])"
    by code_simp
  then show ?thesis
    using match_loop_refines_greedy [OF wf_nine_digits three_shares_currency entries_two] by auto
qed

end
