(* ===== verification/Digests.thy ===== *)
theory Digests
  imports Py_Decimal
begin

text \<open>
  Texts that the program derives from a digest: hexadecimal text, and the name-based UUIDs of
  Python's \<open>uuid.uuid5\<close>. The digest functions SHA-1 and SHA-256 themselves are arguments of the
  definitions that use them, functions from bytes to bytes.
\<close>

type_synonym bytes = "nat list"
type_synonym digest = "bytes \<Rightarrow> bytes"

text \<open>\<open>text.encode("utf-8")\<close>: on ASCII text one byte per character.\<close>

definition encode :: "string \<Rightarrow> bytes" where
  "encode s = map of_char s"

definition hex_char :: "nat \<Rightarrow> char" where
  "hex_char n = (if n < 10 then char_of (48 + n) else char_of (87 + n))"

definition hex_byte :: "nat \<Rightarrow> string" where
  "hex_byte b = [hex_char (b div 16 mod 16), hex_char (b mod 16)]"

definition hexdigest :: "bytes \<Rightarrow> string" where
  "hexdigest bs = concat (map hex_byte bs)"

text \<open>
  The version and variant bits a name-based UUID carries in its bytes 6 and 8, and its text in
  groups of 8, 4, 4, 4 and 12 hexadecimal digits.
\<close>

definition uuid_bytes :: "bytes \<Rightarrow> bytes" where
  "uuid_bytes h =
     (let b = take 16 h in
      take 6 b @ [b ! 6 mod 16 + 80, b ! 7, b ! 8 mod 64 + 128] @ drop 9 b)"

definition uuid_text :: "bytes \<Rightarrow> string" where
  "uuid_text b =
     (let hex = hexdigest b in
      take 8 hex @ ''-'' @ take 4 (drop 8 hex) @ ''-'' @ take 4 (drop 12 hex) @ ''-'' @
      take 4 (drop 16 hex) @ ''-'' @ drop 20 hex)"

definition uuid5 :: "digest \<Rightarrow> bytes \<Rightarrow> string \<Rightarrow> string" where
  "uuid5 sha1 namespace name = uuid_text (uuid_bytes (sha1 (namespace @ encode name)))"

lemma uuid5_nonempty [simp]: "uuid5 sha1 namespace name \<noteq> []"
  by (simp add: uuid5_def uuid_text_def Let_def)

lemma encode_inject [simp]: "encode s = encode t \<longleftrightarrow> s = t"
  by (simp add: encode_def inj_map_eq_map inj_on_def)

lemma hex_char_inject: "m < 16 \<Longrightarrow> n < 16 \<Longrightarrow> hex_char m = hex_char n \<longleftrightarrow> m = n"
  by (auto simp: hex_char_def split: if_splits dest!: arg_cong [where f = "of_char :: char \<Rightarrow> nat"])

lemma hex_byte_inject: "m < 256 \<Longrightarrow> n < 256 \<Longrightarrow> hex_byte m = hex_byte n \<longleftrightarrow> m = n"
proof -
  assume "m < 256" "n < 256"
  then have "m div 16 < 16" "n div 16 < 16" by simp_all
  then show ?thesis
    using hex_char_inject [of "m div 16" "n div 16"] hex_char_inject [of "m mod 16" "n mod 16"]
    by (auto simp: hex_byte_def) (metis div_mult_mod_eq)
qed

text \<open>Hexadecimal text determines the bytes.\<close>

lemma hexdigest_inject:
  assumes "\<forall>b \<in> set xs. b < 256" and "\<forall>b \<in> set ys. b < 256"
  shows "hexdigest xs = hexdigest ys \<longleftrightarrow> xs = ys"
  using assms
proof (induction xs arbitrary: ys)
  case Nil
  then show ?case by (cases ys) (simp_all add: hexdigest_def hex_byte_def)
next
  case (Cons x xs)
  show ?case
  proof (cases ys)
    case ys: (Cons y ys')
    have "hexdigest (x # xs) = hexdigest (y # ys') \<longleftrightarrow> hex_byte x = hex_byte y \<and> hexdigest xs = hexdigest ys'"
      by (simp add: hexdigest_def hex_byte_def)
    then show ?thesis using Cons.IH [of ys'] Cons.prems hex_byte_inject [of x y] ys by simp
  qed (simp add: hexdigest_def hex_byte_def)
qed


section \<open>Records sealed by a digest\<close>

text \<open>
  The shape of a SHA-256 digest, and what it means that two texts collide. Statements about
  tampering say: the records are equal, or two given texts collide.
\<close>

definition digest_shape :: "digest \<Rightarrow> bool" where
  "digest_shape sha \<longleftrightarrow> (\<forall>m. length (sha m) = 32 \<and> (\<forall>b \<in> set (sha m). b < 256))"

definition collision :: "digest \<Rightarrow> bytes \<Rightarrow> bytes \<Rightarrow> bool" where
  "collision sha a b \<longleftrightarrow> a \<noteq> b \<and> sha a = sha b"

lemma same_digest:
  assumes "digest_shape sha" and "hexdigest (sha a) = hexdigest (sha b)"
  shows "a = b \<or> collision sha a b"
  using assms hexdigest_inject by (auto simp: digest_shape_def collision_def)

lemma hex_digits: "n < 16 \<Longrightarrow> hex_char n \<in> set ''0123456789abcdef''"
proof -
  assume n: "n < 16"
  have "\<forall>n \<in> set [0..<16]. hex_char n \<in> set ''0123456789abcdef''" by code_simp
  then show ?thesis using n by simp
qed

lemma hexdigest_hex:
  assumes "length bs = 32"
  shows "length (hexdigest bs) = 64" and "list_all (\<lambda>c. c \<in> set ''0123456789abcdef'') (hexdigest bs)"
proof -
  have "length (hexdigest xs) = 2 * length xs" for xs by (induction xs) (simp_all add: hexdigest_def hex_byte_def)
  then show "length (hexdigest bs) = 64" using assms by simp
  have "list_all (\<lambda>c. c \<in> set ''0123456789abcdef'') (hex_byte b)" for b
    unfolding hex_byte_def list.pred_inject by (intro conjI hex_digits TrueI) simp_all
  then show "list_all (\<lambda>c. c \<in> set ''0123456789abcdef'') (hexdigest bs)"
    unfolding hexdigest_def by (induction bs) (simp_all only: concat.simps list.map list_all_append list.pred_inject simp_thms)
qed

text \<open>
  A record carries a seal, the hexadecimal digest of bytes computed from the rest of the record.
  What the provider promises is that these bytes determine the record.
\<close>

locale sealed_record =
  fixes proper :: "'a \<Rightarrow> bool"
    and preimage :: "'a \<Rightarrow> bytes"
    and seal :: "'a \<Rightarrow> string"
  assumes preimage_inject:
    "proper x \<Longrightarrow> proper y \<Longrightarrow> seal x = seal y \<Longrightarrow> preimage x = preimage y \<Longrightarrow> x = y"
begin

lemma same_seal:
  assumes "digest_shape sha" and "proper x" and "proper y" and "seal x = seal y"
    and "seal x = hexdigest (sha (preimage x))" and "seal y = hexdigest (sha (preimage y))"
  shows "x = y \<or> collision sha (preimage x) (preimage y)"
  using same_digest [of sha "preimage x" "preimage y"] preimage_inject [OF assms(2-4)] assms by auto

end

end
