(* ===== verification/Settlement.thy ===== *)
theory Settlement
  imports Receipt_Split Digests
begin

text \<open>
  The settlement runtime, \<open>finance_core/settlement/runtime.py\<close>: participant balances in,
  settlement obligations out. The validation of the inputs returns the balances it has checked,
  as decimals. The matching loop is written with an explicit possibility of not returning, which
  is then excluded for every input that passes the validation. SHA-1 is an argument.
\<close>

section \<open>Obligations\<close>

definition settlement_round_for_currency :: "dcontext \<Rightarrow> dec \<Rightarrow> string \<Rightarrow> dec result" where
  "settlement_round_for_currency ctx value cur =
     rbind (quantize_for_currency ctx ROUND_HALF_UP (Finite value) cur) require_finite"

record settlement_obligation =
  so_obligation_id :: string
  so_creditor_id :: string
  so_debtor_id :: string
  so_amount :: dec
  so_currency :: string
  so_source_type :: string
  so_source_id :: string

definition make_settlement_obligation ::
  "dcontext \<Rightarrow> string \<Rightarrow> string \<Rightarrow> string \<Rightarrow> dec \<Rightarrow> string \<Rightarrow> string \<Rightarrow> string \<Rightarrow> settlement_obligation result" where
  "make_settlement_obligation ctx obligation_id creditor_id debtor_id amt cur source_type source_id =
     (if obligation_id = [] then raise ValueError ''obligation_id is required''
      else if creditor_id = [] then raise ValueError ''creditor_id is required''
      else if debtor_id = [] then raise ValueError ''debtor_id is required''
      else if creditor_id = debtor_id then raise ValueError ''Self-obligation is not allowed''
      else if dec_le amt ZERO then raise ValueError ''Obligation amount must be positive''
      else
        rbind (validate_amount_for_currency ctx (Finite amt) cur) (\<lambda>_.
          if cur = [] then raise ValueError ''currency is required''
          else if source_type = [] then raise ValueError ''source_type is required''
          else if source_id = [] then raise ValueError ''source_id is required''
          else Ok \<lparr>so_obligation_id = obligation_id, so_creditor_id = creditor_id, so_debtor_id = debtor_id,
                   so_amount = amt, so_currency = cur, so_source_type = source_type, so_source_id = source_id\<rparr>))"

definition NAMESPACE_DNS :: bytes where
  "NAMESPACE_DNS = [107, 167, 184, 16, 157, 173, 17, 209, 128, 180, 0, 192, 79, 212, 48, 200]"

definition make_obligation_id :: "digest \<Rightarrow> string \<Rightarrow> string \<Rightarrow> nat \<Rightarrow> string" where
  "make_obligation_id sha1 source_type source_id index =
     uuid5 sha1 NAMESPACE_DNS (source_type @ '':'' @ source_id @ '':'' @ string_of_digits (digits index))"


section \<open>Validation\<close>

text \<open>\<open>except MoneyValidationError as exc: raise ValueError(str(exc))\<close>.\<close>

definition money_error_as_value_error :: "'a result \<Rightarrow> 'a result" where
  "money_error_as_value_error r =
     (case r of
        Inl e \<Rightarrow> if isinstance_exc (exc e) MoneyValidationError then raise ValueError (msg e) else Inl e
      | Inr x \<Rightarrow> Ok x)"

definition validate_balance ::
  "dcontext \<Rightarrow> string list \<Rightarrow> string \<Rightarrow> string \<times> py_value \<Rightarrow> (string \<times> dec) result" where
  "validate_balance ctx participants cur pv =
     (if fst pv \<notin> set participants then raise ValueError ''Balance key is not in participants list''
      else case snd pv of
        PyDec x \<Rightarrow>
          money_error_as_value_error
            (rbind (money_decimal (PyDec x)) (\<lambda>d.
             rbind (validate_amount_for_currency ctx x cur) (\<lambda>_. Ok (fst pv, d))))
      | PyFloat \<Rightarrow> raise ValueError ''Balance is float; monetary values must be Decimal''
      | _ \<Rightarrow> raise ValueError ''Balance must be Decimal'')"

definition validate_inputs ::
  "dcontext \<Rightarrow> string list \<Rightarrow> (string, py_value) dict \<Rightarrow> string \<Rightarrow> string \<Rightarrow> string
    \<Rightarrow> (string, dec) dict result" where
  "validate_inputs ctx participants balances cur source_type source_id =
     (if participants = [] then raise ValueError ''participants must be a non-empty list''
      else if \<not> distinct participants then raise ValueError ''Duplicate participants are not allowed''
      else if cur = [] then raise ValueError ''currency is required and must be a non-empty string''
      else if source_type = [] then raise ValueError ''source_type is required and must be a non-empty string''
      else if source_id = [] then raise ValueError ''source_id is required and must be a non-empty string''
      else if \<not> list_all (dhas balances) participants then raise ValueError ''Participant is missing from balances''
      else mapM (validate_balance ctx participants cur) balances)"

definition validate_balance_zero_sum :: "dcontext \<Rightarrow> (string, dec) dict \<Rightarrow> string \<Rightarrow> unit result" where
  "validate_balance_zero_sum ctx balances cur =
     rbind (dec_sum ctx ZERO (dvalues balances)) (\<lambda>s.
     rbind (settlement_round_for_currency ctx s cur) (\<lambda>tot.
       ensure (dec_eq tot ZERO) ValueError ''Balances must sum to zero''))"


section \<open>Matching\<close>

definition entry_step ::
  "dcontext \<Rightarrow> (string, dec) dict \<Rightarrow> (string \<times> dec) list \<times> (string \<times> dec) list \<Rightarrow> string
    \<Rightarrow> ((string \<times> dec) list \<times> (string \<times> dec) list) result" where
  "entry_step ctx balances st p =
     (let balance = dget_or balances p ZERO in
      if dec_lt ZERO balance then Ok (fst st @ [(p, balance)], snd st)
      else if dec_lt balance ZERO then rbind (dec_neg ctx balance) (\<lambda>x. Ok (fst st, snd st @ [(p, x)]))
      else Ok st)"

definition build_balance_entries ::
  "dcontext \<Rightarrow> string list \<Rightarrow> (string, dec) dict
    \<Rightarrow> ((string \<times> dec) list \<times> (string \<times> dec) list) result" where
  "build_balance_entries ctx participants balances =
     rbind (foldM (entry_step ctx balances) ([], []) participants) (\<lambda>(creditors, debtors).
     rbind (ranked_by_amount ctx creditors) (\<lambda>cs.
     rbind (ranked_by_amount ctx debtors) (\<lambda>ds. Ok (cs, ds))))"

text \<open>The source an obligation is generated for.\<close>

record obligation_source =
  os_currency :: string
  os_source_type :: string
  os_source_id :: string

text \<open>One pass of the loop body: the remaining amounts of the two heads and the obligations.\<close>

definition settle_round ::
  "digest \<Rightarrow> dcontext \<Rightarrow> obligation_source \<Rightarrow> string \<times> dec \<Rightarrow> string \<times> dec \<Rightarrow> settlement_obligation list
    \<Rightarrow> (dec \<times> dec \<times> settlement_obligation list) result" where
  "settle_round sha1 ctx src creditor debtor obligations =
     (let cur = os_currency src in
      rbind (settlement_round_for_currency ctx (dec_min (snd creditor) (snd debtor)) cur) (\<lambda>matched.
      rbind (if dec_lt ZERO matched then
               rbind (make_settlement_obligation ctx
                        (make_obligation_id sha1 (os_source_type src) (os_source_id src) (length obligations))
                        (fst creditor) (fst debtor) matched cur (os_source_type src) (os_source_id src))
                 (\<lambda>ob. Ok (obligations @ [ob]))
             else Ok obligations) (\<lambda>obligations'.
      rbind (dec_sub ctx (snd creditor) matched) (\<lambda>cx.
      rbind (settlement_round_for_currency ctx cx cur) (\<lambda>remaining_creditor.
      rbind (dec_sub ctx (snd debtor) matched) (\<lambda>dx.
      rbind (settlement_round_for_currency ctx dx cur) (\<lambda>remaining_debtor.
        Ok (remaining_creditor, remaining_debtor, obligations'))))))))"

partial_function (option) settle_loop ::
  "digest \<Rightarrow> dcontext \<Rightarrow> obligation_source \<Rightarrow> (string \<times> dec) list \<Rightarrow> (string \<times> dec) list
    \<Rightarrow> settlement_obligation list \<Rightarrow> settlement_obligation list result option" where
  "settle_loop sha1 ctx src creditors debtors obligations =
     (case creditors of
        [] \<Rightarrow> Some (Ok obligations)
      | c # cs \<Rightarrow>
          (case debtors of
             [] \<Rightarrow> Some (Ok obligations)
           | d # ds \<Rightarrow>
               (case settle_round sha1 ctx src c d obligations of
                  Inl e \<Rightarrow> Some (Inl e)
                | Inr (c', d', obligations') \<Rightarrow>
                    settle_loop sha1 ctx src (if dec_eq c' ZERO then cs else (fst c, c') # cs)
                      (if dec_eq d' ZERO then ds else (fst d, d') # ds) obligations')))"

definition generate_obligations ::
  "digest \<Rightarrow> dcontext \<Rightarrow> string list \<Rightarrow> (string, py_value) dict \<Rightarrow> obligation_source
    \<Rightarrow> settlement_obligation list result option" where
  "generate_obligations sha1 ctx participants balances src =
     (case rbind (validate_inputs ctx participants balances (os_currency src) (os_source_type src) (os_source_id src))
             (\<lambda>checked. rbind (validate_balance_zero_sum ctx checked (os_currency src))
             (\<lambda>_. build_balance_entries ctx participants checked)) of
        Inl e \<Rightarrow> Some (Inl e)
      | Inr (creditors, debtors) \<Rightarrow>
          (case settle_loop sha1 ctx src creditors debtors [] of
             None \<Rightarrow> None
           | Some r \<Rightarrow>
               Some (rbind r (\<lambda>obligations. Ok (sort_key (\<lambda>ob. (so_creditor_id ob, so_debtor_id ob)) obligations)))))"

text \<open>The source the convenience function of the module uses when none is given.\<close>

definition default_source :: obligation_source where
  "default_source = \<lparr>os_currency = ''SGD'', os_source_type = ''settlement_runtime'', os_source_id = ''default''\<rparr>"

definition generate_obligations_default ::
  "digest \<Rightarrow> dcontext \<Rightarrow> string list \<Rightarrow> (string, py_value) dict \<Rightarrow> settlement_obligation list result option" where
  "generate_obligations_default sha1 ctx participants balances =
     generate_obligations sha1 ctx participants balances default_source"

section \<open>Rounding and the checked balances\<close>

lemma settlement_round_eq: "settlement_round_for_currency = round_for_currency"
  by (simp add: fun_eq_iff settlement_round_for_currency_def round_for_currency_def)

interpretation settle: currency_rounding settlement_round_for_currency
  unfolding settlement_round_eq by (rule calc.currency_rounding_axioms)

lemma validate_balance_Ok_iff:
  assumes "wf_context ctx"
  shows "validate_balance ctx ps cur pv = Ok e \<longleftrightarrow>
    fst pv \<in> set ps \<and> (\<exists>d u. snd pv = PyDec (Finite d) \<and> e = (fst pv, d) \<and>
      minor_units cur = Ok u \<and> grid_fits ctx u (dval d))"
proof -
  have eq: "money_error_as_value_error r = Ok x \<longleftrightarrow> r = Ok x" for r :: "'a result" and x
    by (auto simp: money_error_as_value_error_def split: sum.splits)
  show ?thesis
    by (auto simp: validate_balance_def eq money_decimal_def require_finite_def result_simps
        validate_amount_Ok_iff [OF assms] split: py_value.splits py_decimal.splits)
qed

definition balances_ok :: "dcontext \<Rightarrow> nat \<Rightarrow> string list \<Rightarrow> (string, dec) dict \<Rightarrow> bool" where
  "balances_ok ctx u ps m \<longleftrightarrow> wf_dict m \<and> set (dkeys m) = set ps \<and>
     (\<forall>y \<in> set (dvalues m). grid_fits ctx u (dval y))"

lemma validate_inputs_Ok:
  assumes wf: "wf_context ctx" and d: "wf_dict balances"
    and ok: "validate_inputs ctx ps balances cur st sid = Ok m"
  shows "\<exists>u. minor_units cur = Ok u \<and> balances_ok ctx u ps m"
    and "ps \<noteq> []" "distinct ps" "cur \<noteq> []" "st \<noteq> []" "sid \<noteq> []"
proof -
  show p: "ps \<noteq> []" "distinct ps" "cur \<noteq> []" "st \<noteq> []" "sid \<noteq> []"
    using ok by (auto simp: validate_inputs_def split: if_splits)
  have has: "list_all (dhas balances) ps" and all: "list_all2 (\<lambda>pv e. validate_balance ctx ps cur pv = Ok e) balances m"
    using ok by (auto simp: validate_inputs_def mapM_Ok_iff split: if_splits)
  have keys: "map fst m = map fst balances" and in_ps: "\<forall>pv \<in> set balances. fst pv \<in> set ps"
    using all by (induction rule: list_all2_induct) (auto simp: validate_balance_Ok_iff [OF wf])
  have vals: "\<forall>e \<in> set m. \<exists>u. minor_units cur = Ok u \<and> grid_fits ctx u (dval (snd e))"
    using all by (induction rule: list_all2_induct) (auto simp: validate_balance_Ok_iff [OF wf])
  have sub: "set ps \<subseteq> set (map fst m)" unfolding keys using has by (auto simp: list_all_iff dhas_def)
  then have "m \<noteq> []" using p(1) by (cases m) auto
  then obtain u where u: "minor_units cur = Ok u" using vals by (cases m) auto
  have "set (map fst m) \<subseteq> set ps" unfolding keys using in_ps by auto
  then show "\<exists>u. minor_units cur = Ok u \<and> balances_ok ctx u ps m"
    using u vals sub keys d by (intro exI [of _ u]) (auto simp: balances_ok_def dkeys_def dvalues_def)
qed

lemma balances_ok_lookup:
  assumes "balances_ok ctx u ps m" and "p \<in> set ps"
  shows "\<exists>y. map_of m p = Some y \<and> held m p = dval y \<and> grid_fits ctx u (dval y)"
proof -
  have "p \<in> fst ` set m" using assms by (auto simp: balances_ok_def dkeys_def)
  then obtain y where y: "map_of m p = Some y" by (cases "map_of m p") (auto simp: map_of_eq_None_iff)
  then have "y \<in> set (dvalues m)" using image_eqI [OF _ map_of_SomeD [OF y], of y snd] by (simp add: dvalues_def)
  then show ?thesis using assms y by (auto simp: balances_ok_def held_def)
qed

lemma entry_step_Ok:
  assumes wf: "wf_context ctx" and u: "u \<le> 2" and ok: "balances_ok ctx u ps m" and p: "p \<in> set ps"
  shows "\<exists>ds' cs'. entry_step ctx m (cs, ds) p = Ok (cs @ cs', ds @ ds') \<and> partitioned ctx u (held m) [p] ds' cs'"
proof -
  obtain y where y: "map_of m p = Some y" "held m p = dval y" "grid_fits ctx u (dval y)"
    using balances_ok_lookup [OF ok p] by blast
  have "representable ctx (dval y)" using grid_fits_representable [OF y(3) u wf] .
  then obtain z where z: "dec_neg ctx y = Ok z" "dval z = - dval y" using dec_neg_exactly [OF _ wf] by fastforce
  have "grid_fits ctx u (- dval y)" using y(3) by (simp add: grid_fits_minus)
  then show ?thesis using y z
    by (cases "dval y" "0 :: rat" rule: linorder_cases)
       (auto simp: entry_step_def dget_or_def dget_def Let_def dec_lt_iff partitioned_def entries_ok_def valued_def
         simp del: dval_eq_0_iff)
qed

lemma entry_fold:
  assumes "wf_context ctx" and "u \<le> 2" and "balances_ok ctx u ps m" and "set qs \<subseteq> set ps"
  shows "\<exists>ds cs. foldM (entry_step ctx m) ([], []) qs = Ok (cs, ds) \<and> partitioned ctx u (held m) qs ds cs"
  using assms(4)
proof (induction qs rule: rev_induct)
  case Nil
  then show ?case by (simp add: partitioned_def entries_ok_def valued_def)
next
  case (snoc q qs)
  then obtain ds cs where f: "foldM (entry_step ctx m) ([], []) qs = Ok (cs, ds)"
    and p: "partitioned ctx u (held m) qs ds cs" by auto
  obtain ds' cs' where "entry_step ctx m (cs, ds) q = Ok (cs @ cs', ds @ ds')"
    "partitioned ctx u (held m) [q] ds' cs'"
    using entry_step_Ok [OF assms(1-3), of q cs ds] snoc.prems by auto
  then show ?case using f partitioned_append [OF p] by (auto simp: foldM_append)
qed

lemma ranked_entries:
  assumes wf: "wf_context ctx" and u: "u \<le> 2" and "entries_ok ctx u es"
  shows "ranked_by_amount ctx es = Ok (sort_key rank_key es)"
  using assms(3) grid_fits_representable [OF _ u wf] by (intro ranked_by_amount_eq [OF wf]) (auto simp: entries_ok_def)

lemma build_balance_entries_Ok:
  assumes wf: "wf_context ctx" and u: "u \<le> 2" and ok: "balances_ok ctx u ps m"
  shows "\<exists>ds cs. build_balance_entries ctx ps m = Ok (cs, ds) \<and> partitioned ctx u (held m) ps ds cs"
proof -
  obtain ds cs where f: "foldM (entry_step ctx m) ([], []) ps = Ok (cs, ds)"
    and p: "partitioned ctx u (held m) ps ds cs" using entry_fold [OF wf u ok subset_refl] by blast
  have "partitioned ctx u (held m) ps (sort_key rank_key ds) (sort_key rank_key cs)"
    by (rule partitioned_perm [OF p]) simp_all
  moreover have "entries_ok ctx u ds" "entries_ok ctx u cs" using p by (simp_all add: partitioned_def)
  ultimately show ?thesis using f by (auto simp: build_balance_entries_def ranked_entries [OF wf u])
qed

section \<open>The matching loop\<close>

definition flat_settlement :: "settlement_obligation \<Rightarrow> string \<times> string \<times> dec" where
  "flat_settlement ob = (so_debtor_id ob, so_creditor_id ob, so_amount ob)"

abbreviation source_ok :: "obligation_source \<Rightarrow> bool" where
  "source_ok src \<equiv> os_currency src \<noteq> [] \<and> os_source_type src \<noteq> [] \<and> os_source_id src \<noteq> []"

definition from_source :: "obligation_source \<Rightarrow> settlement_obligation \<Rightarrow> bool" where
  "from_source src ob \<longleftrightarrow>
     so_currency ob = os_currency src \<and> so_source_type ob = os_source_type src \<and> so_source_id ob = os_source_id src"

lemma make_settlement_obligation_Ok:
  assumes "wf_context ctx" and "minor_units cur = Ok u" and "grid_fits ctx u (dval amt)" and "0 < dval amt"
    and "cur \<noteq> []" "st \<noteq> []" "sid \<noteq> []" "oid \<noteq> []"
  shows "make_settlement_obligation ctx oid c d amt cur st sid =
    (if c = [] then raise ValueError ''creditor_id is required''
     else if d = [] then raise ValueError ''debtor_id is required''
     else if c = d then raise ValueError ''Self-obligation is not allowed''
     else Ok \<lparr>so_obligation_id = oid, so_creditor_id = c, so_debtor_id = d, so_amount = amt, so_currency = cur,
              so_source_type = st, so_source_id = sid\<rparr>)"
proof -
  have "validate_amount_for_currency ctx (Finite amt) cur = Ok (Finite amt)"
    using assms(2,3) by (simp add: validate_amount_Ok_iff [OF assms(1)])
  moreover have "\<not> dec_le amt ZERO" using assms(4) by (simp add: dec_le_iff)
  ultimately show ?thesis using assms by (simp add: make_settlement_obligation_def)
qed

text \<open>A round on amounts of whole minor units settles the smaller of the two heads.\<close>

lemma settle_round_Ok:
  fixes c d :: "string \<times> dec"
  defines "m \<equiv> min (dval (snd d)) (dval (snd c))"
  assumes wf: "wf_context ctx" and u: "minor_units (os_currency src) = Ok u" and src: "source_ok src"
    and g: "grid_fits ctx u (dval (snd d))" "grid_fits ctx u (dval (snd c))"
    and pos: "0 < dval (snd d)" "0 < dval (snd c)"
  shows "if fst c = [] \<or> fst d = [] \<or> fst c = fst d then \<exists>e. settle_round sha1 ctx src c d obs = Inl e
    else \<exists>c' d' ob. settle_round sha1 ctx src c d obs = Ok (c', d', obs @ [ob]) \<and>
      dval d' = dval (snd d) - m \<and> dval c' = dval (snd c) - m \<and>
      valued_obs [flat_settlement ob] = [(fst d, fst c, m)] \<and> from_source src ob"
proof -
  let ?amt = "dec_min (snd c) (snd d)"
  have amt: "dval ?amt = m" by (simp add: dval_dec_min m_def min.commute)
  have gm: "grid_fits ctx u m" using g by (simp add: m_def min_def)
  obtain a where a: "settlement_round_for_currency ctx ?amt (os_currency src) = Ok a" "dval a = m"
    using settle.rnd_grid [OF wf u, of ?amt] gm amt by auto
  have m: "0 < m" "m \<le> dval (snd d)" "m \<le> dval (snd c)" "on_grid u m" using pos gm by (auto simp: m_def grid_fits_def)
  obtain dx d' where d': "dec_sub ctx (snd d) a = Ok dx" "settlement_round_for_currency ctx dx (os_currency src) = Ok d'"
    "dval d' = dval (snd d) - m"
    using settle.sub_round [OF wf u g(1), of a] m a(2) by (metis less_imp_le)
  obtain cx c' where c': "dec_sub ctx (snd c) a = Ok cx" "settlement_round_for_currency ctx cx (os_currency src) = Ok c'"
    "dval c' = dval (snd c) - m"
    using settle.sub_round [OF wf u g(2), of a] m a(2) by (metis less_imp_le)
  have lt: "dec_lt ZERO a" using a(2) m(1) by (simp add: dec_lt_iff)
  have ob: "make_settlement_obligation ctx (make_obligation_id sha1 (os_source_type src) (os_source_id src) (length obs))
      (fst c) (fst d) a (os_currency src) (os_source_type src) (os_source_id src) =
    (if fst c = [] then raise ValueError ''creditor_id is required''
     else if fst d = [] then raise ValueError ''debtor_id is required''
     else if fst c = fst d then raise ValueError ''Self-obligation is not allowed''
     else Ok \<lparr>so_obligation_id = make_obligation_id sha1 (os_source_type src) (os_source_id src) (length obs),
       so_creditor_id = fst c, so_debtor_id = fst d, so_amount = a, so_currency = os_currency src,
       so_source_type = os_source_type src, so_source_id = os_source_id src\<rparr>)"
    using gm a(2) m(1) src by (intro make_settlement_obligation_Ok [OF wf u]) (simp_all add: make_obligation_id_def)
  show ?thesis
    using a d' c' lt by (simp add: settle_round_def ob) (auto simp: valued_obs_def flat_settlement_def from_source_def)
qed

definition ids_ok :: "(string \<times> dec) list \<Rightarrow> (string \<times> dec) list \<Rightarrow> bool" where
  "ids_ok cs ds \<longleftrightarrow> [] \<notin> fst ` set cs \<and> [] \<notin> fst ` set ds \<and> fst ` set cs \<inter> fst ` set ds = {}"

lemma settle_loop_refines:
  assumes wf: "wf_context ctx" and u: "minor_units (os_currency src) = Ok u" and src: "source_ok src"
    and "entries_ok ctx u ds" and "entries_ok ctx u cs"
  shows "\<exists>r. settle_loop sha1 ctx src cs ds obs = Some r \<and>
    (case r of Inl e \<Rightarrow> \<not> ids_ok cs ds
     | Inr obs1 \<Rightarrow> \<exists>obs'. obs1 = obs @ obs' \<and> list_all (from_source src) obs' \<and>
         valued_obs (map flat_settlement obs') = scaled_obs u (fst (greedy (in_units u ds) (in_units u cs))))"
  using assms(4,5)
proof (induction "length ds + length cs" arbitrary: ds cs obs rule: less_induct)
  case less
  show ?case
  proof (cases "ds = [] \<or> cs = []")
    case True
    then show ?thesis
      by (cases ds; cases cs) (auto simp: settle_loop.simps in_units_def valued_obs_def scaled_obs_def)
  next
    case False
    then obtain d ds1 c cs1 where ds: "ds = d # ds1" and cs: "cs = c # cs1" by (cases ds; cases cs) auto
    have g: "grid_fits ctx u (dval (snd d))" "grid_fits ctx u (dval (snd c))" "0 < dval (snd d)" "0 < dval (snd c)"
      using less.prems by (auto simp: entries_ok_def ds cs)
    note round = settle_round_Ok [OF wf u src g, of sha1 obs]
    show ?thesis
    proof (cases "fst c = [] \<or> fst d = [] \<or> fst c = fst d")
      case True
      then obtain e where "settle_round sha1 ctx src c d obs = Inl e" using round by auto
      moreover have "\<not> ids_ok cs ds" using True by (auto simp: ids_ok_def ds cs)
      ultimately show ?thesis by (simp add: ds cs settle_loop.simps [of _ _ _ "c # cs1"])
    next
      case False
      then obtain c' d' ob where r: "settle_round sha1 ctx src c d obs = Ok (c', d', obs @ [ob])"
        and v: "dval d' = dval (snd d) - min (dval (snd d)) (dval (snd c))"
          "dval c' = dval (snd c) - min (dval (snd d)) (dval (snd c))"
        and ob: "valued_obs [flat_settlement ob] = [(fst d, fst c, min (dval (snd d)) (dval (snd c)))]" "from_source src ob"
        using round by auto
      let ?ds = "if dec_eq d' ZERO then ds1 else (fst d, d') # ds1" and ?cs = "if dec_eq c' ZERO then cs1 else (fst c, c') # cs1"
      note h = matched_heads [OF less.prems [unfolded ds cs] v, folded ds cs]
      have step: "settle_loop sha1 ctx src cs ds obs = settle_loop sha1 ctx src ?cs ?ds (obs @ [ob])"
        using r by (simp add: ds cs settle_loop.simps [of _ _ _ "c # cs1"])
      have ids: "ids_ok cs ds \<Longrightarrow> ids_ok ?cs ?ds" by (auto simp: ids_ok_def ds cs)
      from less.hyps [OF h(3,1,2), of "obs @ [ob]"] obtain q where q: "settle_loop sha1 ctx src cs ds obs = Some q"
        "case q of Inl e \<Rightarrow> \<not> ids_ok ?cs ?ds | Inr obs1 \<Rightarrow> \<exists>obs'. obs1 = (obs @ [ob]) @ obs' \<and> list_all (from_source src) obs' \<and>
          valued_obs (map flat_settlement obs') = scaled_obs u (fst (greedy (in_units u ?ds) (in_units u ?cs)))"
        unfolding step by blast
      then show ?thesis
      proof (cases q)
        case (Inr obs1)
        then obtain obs' where "obs1 = obs @ (ob # obs')" "list_all (from_source src) (ob # obs')"
          "valued_obs (map flat_settlement (ob # obs')) = scaled_obs u (fst (greedy (in_units u ds) (in_units u cs)))"
          using q(2) ob unfolding h(4) by (auto simp: valued_obs_def)
        then show ?thesis using q(1) Inr by auto
      qed (use ids in auto)
    qed
  qed
qed

section \<open>Sums of signed amounts\<close>

lemma dec_sum_signed:
  assumes wf: "wf_context ctx" and u: "u \<le> 2"
    and "on_grid u (dval a)" and "\<forall>x \<in> set xs. on_grid u (dval x)"
    and "(\<bar>dval a\<bar> + sum_list (map (\<lambda>x. \<bar>dval x\<bar>) xs)) * 10 ^ u < 10 ^ prec ctx"
  shows "\<exists>s. dec_sum ctx a xs = Ok s \<and> dval s = dval a + sum_list (map dval xs)"
  using assms(3-5)
proof (induction xs arbitrary: a)
  case Nil
  then show ?case by (simp add: dec_sum_def)
next
  case (Cons x xs)
  let ?S = "sum_list (map (\<lambda>x. \<bar>dval x\<bar>) xs)"
  have rest: "0 \<le> ?S" by (intro sum_list_nonneg) auto
  have le: "\<bar>dval a + dval x\<bar> + ?S \<le> \<bar>dval a\<bar> + sum_list (map (\<lambda>x. \<bar>dval x\<bar>) (x # xs))"
    using abs_triangle_ineq [of "dval a" "dval x"] by simp
  then have vol: "(\<bar>dval a + dval x\<bar> + ?S) * 10 ^ u < 10 ^ prec ctx"
    by (intro order_le_less_trans [OF mult_right_mono Cons.prems(3)]) simp_all
  have "\<bar>dval a + dval x\<bar> * 10 ^ u \<le> (\<bar>dval a + dval x\<bar> + ?S) * 10 ^ u" using rest by (intro mult_right_mono) simp_all
  then have "\<bar>dval a + dval x\<bar> * 10 ^ u < 10 ^ prec ctx" using vol by (rule order_le_less_trans)
  then have "grid_fits ctx u (dval a + dval x)"
    using Cons.prems by (simp add: grid_fits_def on_grid_add)
  then obtain b where b: "dec_add ctx a x = Ok b" "dval b = dval a + dval x"
    using dec_add_exactly [OF grid_fits_representable [OF _ u wf] wf] by blast
  have "\<exists>s. dec_sum ctx b xs = Ok s \<and> dval s = dval b + sum_list (map dval xs)"
    using Cons.prems vol b(2) by (intro Cons.IH) (auto simp: on_grid_add)
  then show ?case using b by (auto simp: dec_sum_def)
qed

abbreviation volume :: "('p \<Rightarrow> rat) \<Rightarrow> 'p list \<Rightarrow> rat" where
  "volume bal ps \<equiv> sum_list (map (\<lambda>p. \<bar>bal p\<bar>) ps)"

lemma sum_list_abs_le: "\<bar>sum_list (map f ps)\<bar> \<le> volume f ps"
  by (rule order_trans [OF sum_list_abs]) (simp add: comp_def)

section \<open>Obligations in another order\<close>

lemma flows_mset:
  fixes obs :: "('p \<times> 'p \<times> 'a :: comm_monoid_add) list"
  assumes "mset obs = mset obs'"
  shows "paid_by obs p = paid_by obs' p" and "received_by obs p = received_by obs' p"
proof -
  have "paid_by xs p = sum_mset (image_mset (\<lambda>ob. snd (snd ob)) (filter_mset (\<lambda>ob. fst ob = p) (mset xs)))"
    and "received_by xs p = sum_mset (image_mset (\<lambda>ob. snd (snd ob)) (filter_mset (\<lambda>ob. fst (snd ob) = p) (mset xs)))"
    for xs :: "('p \<times> 'p \<times> 'a) list"
    by (simp_all add: paid_by_def received_by_def flip: sum_mset_sum_list)
  then show "paid_by obs p = paid_by obs' p" "received_by obs p = received_by obs' p" using assms by simp_all
qed

lemma clears_mset:
  assumes "clears bal ps obs" and "mset obs' = mset obs"
  shows "clears bal ps obs'"
proof -
  have "mset (valued_obs obs') = mset (valued_obs obs)" using assms(2) by (simp add: valued_obs_def)
  note f = flows_mset [OF this]
  have s: "set obs' = set obs" using assms(2) by (rule mset_eq_setD)
  have "mset (map (\<lambda>ob. (fst ob, fst (snd ob))) obs') = mset (map (\<lambda>ob. (fst ob, fst (snd ob))) obs)"
    using assms(2) by simp
  then have d: "distinct (map (\<lambda>ob. (fst ob, fst (snd ob))) obs') \<longleftrightarrow> distinct (map (\<lambda>ob. (fst ob, fst (snd ob))) obs)"
    by (rule mset_eq_imp_distinct_iff)
  have l: "length obs' = length obs" "obs' = [] \<longleftrightarrow> obs = []" using assms(2) by (auto dest: mset_eq_length)
  show ?thesis using assms(1) unfolding clears_def f s d l .
qed

section \<open>Generating obligations\<close>

text \<open>The balance a caller states for a participant.\<close>

definition stated_balance :: "(string, py_value) dict \<Rightarrow> string \<Rightarrow> rat" where
  "stated_balance balances p = (case map_of balances p of Some (PyDec (Finite d)) \<Rightarrow> dval d | _ \<Rightarrow> 0)"

lemma validate_inputs_held:
  assumes wf: "wf_context ctx" and ok: "validate_inputs ctx ps balances cur st sid = Ok m"
  shows "held m = stated_balance balances"
proof -
  have "list_all2 (\<lambda>pv e. validate_balance ctx ps cur pv = Ok e) balances m"
    using ok by (auto simp: validate_inputs_def mapM_Ok_iff split: if_splits)
  then have "held m p = stated_balance balances p" for p
    by (induction rule: list_all2_induct) (auto simp: held_def stated_balance_def validate_balance_Ok_iff [OF wf])
  then show ?thesis by (simp add: fun_eq_iff)
qed

lemma balances_sum:
  fixes f :: "rat \<Rightarrow> rat"
  assumes "balances_ok ctx u ps m" and "distinct ps"
  shows "sum_list (map (\<lambda>y. f (dval y)) (dvalues m)) = sum_list (map (\<lambda>p. f (held m p)) ps)"
proof -
  have "distinct (map fst m)" "set (map fst m) = set ps" using assms(1) by (simp_all add: balances_ok_def dkeys_def)
  then have "mset (map fst m) = mset ps" using assms(2) by (simp only: set_eq_iff_mset_eq_distinct [symmetric])
  then have "mset (map f (map (held m) (map fst m))) = mset (map f (map (held m) ps))" by (metis mset_map)
  then have "mset (map f (map dval (dvalues m))) = mset (map f (map (held m) ps))"
    using map_held [of m] assms(1) unfolding balances_ok_def by (simp only: conj_assoc)
  then have "sum_list (map f (map dval (dvalues m))) = sum_list (map f (map (held m) ps))"
    by (metis sum_mset_sum_list)
  then show ?thesis by (simp add: comp_def)
qed

lemma zero_sum_check:
  assumes wf: "wf_context ctx" and u: "minor_units cur = Ok u" and ok: "balances_ok ctx u ps m" "distinct ps"
    and vol: "volume (held m) ps * 10 ^ u < 10 ^ prec ctx"
  shows "validate_balance_zero_sum ctx m cur =
    ensure (sum_list (map (held m) ps) = 0) ValueError ''Balances must sum to zero''"
proof -
  have u2: "u \<le> 2" using u by (rule minor_units_le)
  have grid: "\<forall>x \<in> set (dvalues m). on_grid u (dval x)" using ok(1) by (simp add: balances_ok_def grid_fits_def)
  have "sum_list (map (\<lambda>y. \<bar>dval y\<bar>) (dvalues m)) = volume (held m) ps" using balances_sum [OF ok, of abs] .
  then obtain s where s: "dec_sum ctx ZERO (dvalues m) = Ok s" "dval s = sum_list (map dval (dvalues m))"
    using dec_sum_signed [OF wf u2, of ZERO "dvalues m"] grid vol by auto
  have sum: "dval s = sum_list (map (held m) ps)" using s(2) balances_sum [OF ok, of "\<lambda>x. x"] by simp
  have "\<bar>dval s\<bar> \<le> volume (held m) ps" unfolding sum by (rule sum_list_abs_le)
  then have "\<bar>dval s\<bar> * 10 ^ u < 10 ^ prec ctx"
    by (intro order_le_less_trans [OF mult_right_mono vol]) simp_all
  moreover have "on_grid u (dval s)" unfolding s(2) using grid by (intro on_grid_sum_list) auto
  ultimately obtain t where t: "settlement_round_for_currency ctx s cur = Ok t" "dval t = dval s"
    using settle.rnd_grid [OF wf u, of s] by (auto simp: grid_fits_def)
  then show ?thesis
    using s(1) sum by (simp add: validate_balance_zero_sum_def dec_eq_iff del: dec_eq_ZERO dval_eq_0_iff)
qed

lemma settle_loop_Ok:
  assumes "wf_context ctx" "minor_units (os_currency src) = Ok u" "source_ok src" "entries_ok ctx u ds" "entries_ok ctx u cs"
    and "ids_ok cs ds"
  obtains obs where "settle_loop sha1 ctx src cs ds [] = Some (Ok obs)"
    and "valued_obs (map flat_settlement obs) = scaled_obs u (fst (greedy (in_units u ds) (in_units u cs)))"
proof -
  obtain r where r: "settle_loop sha1 ctx src cs ds [] = Some r" and c: "case r of Inl e \<Rightarrow> \<not> ids_ok cs ds
     | Inr obs1 \<Rightarrow> \<exists>obs'. obs1 = [] @ obs' \<and> list_all (from_source src) obs' \<and>
         valued_obs (map flat_settlement obs') = scaled_obs u (fst (greedy (in_units u ds) (in_units u cs)))"
    using settle_loop_refines [OF assms(1-5), of sha1 "[]"] by blast
  then show thesis using that assms(6) by (cases r) auto
qed

lemma settle_loop_result:
  assumes "wf_context ctx" "minor_units (os_currency src) = Ok u" "source_ok src" "entries_ok ctx u ds" "entries_ok ctx u cs"
    and run: "settle_loop sha1 ctx src cs ds [] = Some (Ok obs)"
  shows "list_all (from_source src) obs \<and>
    valued_obs (map flat_settlement obs) = scaled_obs u (fst (greedy (in_units u ds) (in_units u cs)))"
  using settle_loop_refines [OF assms(1-5), of sha1 "[]"] by (auto simp: run)

text \<open>The loop of the runtime, for a given source, has the contract of a matching loop.\<close>

definition run_settle_loop :: "digest \<Rightarrow> string \<Rightarrow> string \<Rightarrow> dcontext \<Rightarrow> string \<Rightarrow> (string \<times> dec) list \<Rightarrow>
    (string \<times> dec) list \<Rightarrow> (string \<times> string \<times> dec) list option" where
  "run_settle_loop sha1 st sid ctx cur ds cs =
     (case settle_loop sha1 ctx \<lparr>os_currency = cur, os_source_type = st, os_source_id = sid\<rparr> cs ds [] of
        Some (Inr obs) \<Rightarrow> Some (map flat_settlement obs) | _ \<Rightarrow> None)"

lemma minor_units_nonempty: "minor_units cur = Ok u \<Longrightarrow> cur \<noteq> []"
  by (auto simp: minor_units_def normalize_currency_def py_strip_def py_upper_def)

lemma settle_matching:
  assumes "st \<noteq> []" and "sid \<noteq> []"
  shows "matching_loop (run_settle_loop sha1 st sid) (\<lambda>s. s \<noteq> [])"
proof
  fix ctx cur u ds cs
  assume h: "wf_context ctx" "minor_units cur = Ok u" "entries_ok ctx u ds" "entries_ok ctx u cs"
    and dj: "set (map fst ds) \<inter> set (map fst cs) = {}"
    and ids: "list_all (\<lambda>s. s \<noteq> []) (map fst ds)" "list_all (\<lambda>s. s \<noteq> []) (map fst cs)"
  let ?src = "\<lparr>os_currency = cur, os_source_type = st, os_source_id = sid\<rparr>"
  have ok: "ids_ok cs ds" using dj ids by (auto simp: ids_ok_def list_all_iff)
  have "source_ok ?src" "minor_units (os_currency ?src) = Ok u"
    using assms h(2) minor_units_nonempty by auto
  then obtain obs' where "settle_loop sha1 ctx ?src cs ds [] = Some (Ok obs')"
    "valued_obs (map flat_settlement obs') = scaled_obs u (fst (greedy (in_units u ds) (in_units u cs)))"
    using settle_loop_Ok [OF h(1) _ _ h(3,4) ok] by metis
  then show "\<exists>obs. run_settle_loop sha1 st sid ctx cur ds cs = Some obs \<and>
      valued_obs obs = scaled_obs u (fst (greedy (in_units u ds) (in_units u cs)))"
    by (intro exI [of _ "map flat_settlement obs'"]) (simp add: run_settle_loop_def)
qed

abbreviation so_key :: "settlement_obligation \<Rightarrow> string \<times> string" where
  "so_key ob \<equiv> (so_creditor_id ob, so_debtor_id ob)"

lemma generate_after_checks:
  assumes wf: "wf_context ctx" and u: "minor_units (os_currency src) = Ok u"
    and d: "wf_dict balances"
    and ok: "validate_inputs ctx ps balances (os_currency src) (os_source_type src) (os_source_id src) = Ok m"
    and zs: "validate_balance_zero_sum ctx m (os_currency src) = Ok ()"
  obtains cs ds where "partitioned ctx u (stated_balance balances) ps ds cs"
    and "generate_obligations sha1 ctx ps balances src =
      map_option (\<lambda>r. rbind r (\<lambda>obs. Ok (sort_key so_key obs))) (settle_loop sha1 ctx src cs ds [])"
proof -
  have bal: "balances_ok ctx u ps m" using validate_inputs_Ok(1) [OF wf d ok] u by auto
  obtain ds cs where b: "build_balance_entries ctx ps m = Ok (cs, ds)" "partitioned ctx u (held m) ps ds cs"
    using build_balance_entries_Ok [OF wf minor_units_le [OF u] bal] by blast
  have "generate_obligations sha1 ctx ps balances src =
      map_option (\<lambda>r. rbind r (\<lambda>obs. Ok (sort_key so_key obs))) (settle_loop sha1 ctx src cs ds [])"
    using ok zs b(1) by (simp add: generate_obligations_def split: option.split)
  then show thesis using that b(2) unfolding validate_inputs_held [OF wf ok] by blast
qed

lemma generate_checks:
  assumes "generate_obligations sha1 ctx ps balances src = Some (Ok obs)"
  obtains m where "validate_inputs ctx ps balances (os_currency src) (os_source_type src) (os_source_id src) = Ok m"
    and "validate_balance_zero_sum ctx m (os_currency src) = Ok ()"
  using assms by (auto simp: generate_obligations_def rbind_def split: sum.splits)

section \<open>Properties\<close>

text \<open>
  C12 The runtime always returns. Whatever the participants, balances and source are, the matching
  loop does not run forever: the call ends with obligations or with an exception.
\<close>

theorem generate_obligations_terminates:
  assumes wf: "wf_context ctx" and d: "wf_dict balances"
  shows "\<exists>r. generate_obligations sha1 ctx ps balances src = Some r"
proof (cases "\<exists>m. validate_inputs ctx ps balances (os_currency src) (os_source_type src) (os_source_id src) = Ok m \<and>
    validate_balance_zero_sum ctx m (os_currency src) = Ok ()")
  case True
  then obtain m where m: "validate_inputs ctx ps balances (os_currency src) (os_source_type src) (os_source_id src) = Ok m"
    "validate_balance_zero_sum ctx m (os_currency src) = Ok ()" by blast
  note v = validate_inputs_Ok [OF wf d m(1)]
  then obtain u where u: "minor_units (os_currency src) = Ok u" by blast
  obtain cs ds where p: "partitioned ctx u (stated_balance balances) ps ds cs"
    and g: "generate_obligations sha1 ctx ps balances src =
      map_option (\<lambda>r. rbind r (\<lambda>obs. Ok (sort_key so_key obs))) (settle_loop sha1 ctx src cs ds [])"
    by (rule generate_after_checks [OF wf u d m])
  obtain r where "settle_loop sha1 ctx src cs ds [] = Some r"
    using settle_loop_refines [OF wf u, of ds cs sha1 "[]"] v p by (auto simp: partitioned_def)
  then show ?thesis by (simp add: g)
next
  case False
  then show ?thesis by (auto simp: generate_obligations_def rbind_def split: sum.splits)
qed

text \<open>
  C13 Obligations that are returned clear the balances. As long as the sum of the absolute balances
  fits the decimal precision, every participant receives or pays exactly the stated balance in
  positive obligations from debtors to creditors, no pair meets twice, there are fewer obligations
  than participants, each carries the source it was generated for, and they come sorted by creditor
  and debtor.
\<close>

theorem generate_obligations_clears:
  assumes wf: "wf_context ctx" and d: "wf_dict balances" and u: "minor_units (os_currency src) = Ok u"
    and vol: "volume (stated_balance balances) ps * 10 ^ u < 10 ^ prec ctx"
    and gen: "generate_obligations sha1 ctx ps balances src = Some (Ok obs)"
  shows "clears (stated_balance balances) ps (map flat_settlement obs) \<and>
    sorted (map so_key obs) \<and> list_all (from_source src) obs"
proof -
  obtain m where m: "validate_inputs ctx ps balances (os_currency src) (os_source_type src) (os_source_id src) = Ok m"
    "validate_balance_zero_sum ctx m (os_currency src) = Ok ()" by (rule generate_checks [OF gen])
  note v = validate_inputs_Ok [OF wf d m(1)] and h = validate_inputs_held [OF wf m(1)]
  have "balances_ok ctx u ps m" using v(1) u by auto
  from zero_sum_check [OF wf u this v(3)] have zero: "sum_list (map (stated_balance balances) ps) = 0"
    using m(2) vol by (simp add: h ensure_def split: if_splits)
  obtain cs ds where p: "partitioned ctx u (stated_balance balances) ps ds cs"
    and g: "generate_obligations sha1 ctx ps balances src =
      map_option (\<lambda>r. rbind r (\<lambda>obs. Ok (sort_key so_key obs))) (settle_loop sha1 ctx src cs ds [])"
    by (rule generate_after_checks [OF wf u d m])
  have e: "entries_ok ctx u ds" "entries_ok ctx u cs" using p by (simp_all add: partitioned_def)
  obtain obs' where run: "settle_loop sha1 ctx src cs ds [] = Some (Ok obs')" and so: "obs = sort_key so_key obs'"
    using gen unfolding g by (auto simp: result_simps)
  have obs': "list_all (from_source src) obs'"
    "valued_obs (map flat_settlement obs') = scaled_obs u (fst (greedy (in_units u ds) (in_units u cs)))"
    using settle_loop_result [OF wf u _ e run] v by simp_all
  have "snd (greedy (in_units u ds) (in_units u cs)) = ([], [])" using partitioned_balanced [OF p] zero by simp
  then have "settles (valued ds) (valued cs) (valued_obs (map flat_settlement obs'))"
    using partitioned_keys(1,2) [OF p v(3)] in_units_positive [OF e(1)] in_units_positive [OF e(2)]
    unfolding obs'(2) valued_scaled [OF e(1)] valued_scaled [OF e(2)] by (intro greedy_settles) (simp_all add: in_units_keys)
  then have "clears (stated_balance balances) ps (map flat_settlement obs')" by (rule settles_clears [OF p v(3)])
  then have "clears (stated_balance balances) ps (map flat_settlement obs)" by (rule clears_mset) (simp add: so)
  then show ?thesis using obs'(1) by (simp add: so list_all_iff)
qed

text \<open>
  C14 Valid balances settle exactly when they sum to zero. For inputs that pass the validation, with
  non-empty participant identifiers and a volume that fits the precision, the runtime returns
  obligations when the balances sum to zero and raises the zero-sum error otherwise.
\<close>

theorem generate_obligations_zero_sum:
  assumes wf: "wf_context ctx" and d: "wf_dict balances" and u: "minor_units (os_currency src) = Ok u"
    and vol: "volume (stated_balance balances) ps * 10 ^ u < 10 ^ prec ctx"
    and ok: "validate_inputs ctx ps balances (os_currency src) (os_source_type src) (os_source_id src) = Ok m"
    and ids: "[] \<notin> set ps"
  shows "if sum_list (map (stated_balance balances) ps) = 0
    then \<exists>obs. generate_obligations sha1 ctx ps balances src = Some (Ok obs)
    else generate_obligations sha1 ctx ps balances src = Some (raise ValueError ''Balances must sum to zero'')"
proof -
  note v = validate_inputs_Ok [OF wf d ok] and h = validate_inputs_held [OF wf ok]
  have "balances_ok ctx u ps m" using v(1) u by auto
  note zs = zero_sum_check [OF wf u this v(3), unfolded h, OF vol]
  show ?thesis
  proof (cases "sum_list (map (stated_balance balances) ps) = 0")
    case True
    then have "validate_balance_zero_sum ctx m (os_currency src) = Ok ()" using zs by simp
    then obtain cs ds where p: "partitioned ctx u (stated_balance balances) ps ds cs"
      and g: "generate_obligations sha1 ctx ps balances src =
        map_option (\<lambda>r. rbind r (\<lambda>obs. Ok (sort_key so_key obs))) (settle_loop sha1 ctx src cs ds [])"
      by (rule generate_after_checks [OF wf u d ok])
    have e: "entries_ok ctx u ds" "entries_ok ctx u cs" using p by (simp_all add: partitioned_def)
    note k = partitioned_keys [OF p v(3)]
    have lr: "set (map fst ds) \<inter> set (map fst cs) = {}" "list_all (\<lambda>s. s \<noteq> []) (map fst ds)" "list_all (\<lambda>s. s \<noteq> []) (map fst cs)"
      using k(3,4) ids by (auto simp: list_all_iff)
    have tot: "sum_list (map (\<lambda>e. dval (snd e)) ds) = sum_list (map (\<lambda>e. dval (snd e)) cs)"
      using partitioned_sums [OF p] True by simp
    have eta: "\<lparr>os_currency = os_currency src, os_source_type = os_source_type src, os_source_id = os_source_id src\<rparr> = src"
      by (cases src) simp
    from matching_loop.run_settles [OF settle_matching [OF v(5,6)] wf u e k(1,2) lr tot, of sha1]
    obtain obs' where "settle_loop sha1 ctx src cs ds [] = Some (Ok obs')"
      by (auto simp: run_settle_loop_def eta split: option.splits sum.splits)
    then show ?thesis using True by (simp add: g)
  next
    case False
    then show ?thesis using zs ok by (simp add: generate_obligations_def)
  qed
qed

text \<open>One creditor and two debtors; the digest of every name is the same block of zeros.\<close>

abbreviation zeros :: digest where
  "zeros \<equiv> \<lambda>_. replicate 20 0"

abbreviation dinner_balances :: "(string, py_value) dict" where
  "dinner_balances \<equiv>
     [(''a'', PyDec (Finite (Dec False 1000 (- 2)))), (''b'', PyDec (Finite (Dec True 4 0))), (''c'', PyDec (Finite (Dec True 600 (- 2))))]"

abbreviation dinner_source :: obligation_source where
  "dinner_source \<equiv> \<lparr>os_currency = ''SGD'', os_source_type = ''receipt'', os_source_id = ''r1''\<rparr>"

lemma dinner_facts:
  "wf_dict dinner_balances" "minor_units (os_currency dinner_source) = Ok 2"
  "volume (stated_balance dinner_balances) [''a'', ''b'', ''c''] * 10 ^ 2 < 10 ^ prec nine_digits"
  by code_simp+

theorem generate_obligations_terminates_witness:
  "\<exists>r. generate_obligations zeros nine_digits [''a'', ''b'', ''c''] dinner_balances dinner_source = Some r"
  by (rule generate_obligations_terminates [OF wf_nine_digits dinner_facts(1)])

declare settle_loop.simps [code]

lemma dinner_obligations:
  "map_option (map_sum id (map flat_settlement))
     (generate_obligations zeros nine_digits [''a'', ''b'', ''c''] dinner_balances dinner_source) =
   Some (Ok [(''b'', ''a'', Dec False 400 (- 2)), (''c'', ''a'', Dec False 600 (- 2))])"
  by code_simp

theorem generate_obligations_clears_witness:
  "\<exists>obs. generate_obligations zeros nine_digits [''a'', ''b'', ''c''] dinner_balances dinner_source = Some (Ok obs) \<and>
     clears (stated_balance dinner_balances) [''a'', ''b'', ''c''] (map flat_settlement obs)"
proof -
  obtain obs where "generate_obligations zeros nine_digits [''a'', ''b'', ''c''] dinner_balances dinner_source = Some (Ok obs)"
    using dinner_obligations
    by (cases "generate_obligations zeros nine_digits [''a'', ''b'', ''c''] dinner_balances dinner_source")
       (auto simp: map_sum_def split: sum.splits)
  then show ?thesis using generate_obligations_clears [OF wf_nine_digits dinner_facts] by blast
qed

theorem generate_obligations_zero_sum_witness:
  "(\<exists>obs. generate_obligations zeros nine_digits [''a'', ''b'', ''c''] dinner_balances dinner_source = Some (Ok obs)) \<and>
   [] \<notin> set [''a'', ''b'', ''c'']"
proof -
  have "\<not> isl (validate_inputs nine_digits [''a'', ''b'', ''c''] dinner_balances ''SGD'' ''receipt'' ''r1'')" by code_simp
  then obtain m where "validate_inputs nine_digits [''a'', ''b'', ''c''] dinner_balances (os_currency dinner_source)
      (os_source_type dinner_source) (os_source_id dinner_source) = Ok m"
    by (cases "validate_inputs nine_digits [''a'', ''b'', ''c''] dinner_balances ''SGD'' ''receipt'' ''r1''") auto
  moreover have "sum_list (map (stated_balance dinner_balances) [''a'', ''b'', ''c'']) = 0" by code_simp
  ultimately show ?thesis
    using generate_obligations_zero_sum [OF wf_nine_digits dinner_facts, of _ zeros] by simp
qed

end
