(* ===== verification/Proposal_Lifecycle.thy ===== *)
theory Proposal_Lifecycle
  imports Prelude
begin

text \<open>
  The lifecycle of a parser proposal, \<open>finance_core/parser_proposals/lifecycle.py\<close>: statuses,
  the table of allowed transitions, the transition check, and the coarse status of the raw intake
  a proposal belongs to. The checked transitions are the steps of a state machine.
\<close>

section \<open>Statuses and transitions\<close>

definition PARSED_PENDING_CONFIRMATION :: string where
  "PARSED_PENDING_CONFIRMATION = ''parsed_pending_confirmation''"

definition CONFIRMED :: string where
  "CONFIRMED = ''confirmed''"

definition REJECTED :: string where
  "REJECTED = ''rejected''"

definition EDITED_PENDING_CONFIRMATION :: string where
  "EDITED_PENDING_CONFIRMATION = ''edited_pending_confirmation''"

definition SUPERSEDED :: string where
  "SUPERSEDED = ''superseded''"

definition EXPIRED :: string where
  "EXPIRED = ''expired''"

lemmas status_defs = PARSED_PENDING_CONFIRMATION_def CONFIRMED_def REJECTED_def
  EDITED_PENDING_CONFIRMATION_def SUPERSEDED_def EXPIRED_def

definition INITIAL_STATUS :: string where
  "INITIAL_STATUS = PARSED_PENDING_CONFIRMATION"

definition RAW_INTAKE_PENDING_PARSE :: string where
  "RAW_INTAKE_PENDING_PARSE = ''pending_parse''"

definition ALLOWED_STATUSES :: "string list" where
  "ALLOWED_STATUSES =
     [PARSED_PENDING_CONFIRMATION, CONFIRMED, REJECTED, EDITED_PENDING_CONFIRMATION, SUPERSEDED, EXPIRED]"

definition RAW_INTAKE_STATUSES :: "string list" where
  "RAW_INTAKE_STATUSES = [RAW_INTAKE_PENDING_PARSE, PARSED_PENDING_CONFIRMATION, CONFIRMED, REJECTED]"

definition TERMINAL_STATUSES :: "string list" where
  "TERMINAL_STATUSES = [CONFIRMED, REJECTED, SUPERSEDED, EXPIRED]"

definition ALLOWED_TRANSITIONS :: "(string, string list) dict" where
  "ALLOWED_TRANSITIONS =
     [(PARSED_PENDING_CONFIRMATION, [CONFIRMED, REJECTED, EDITED_PENDING_CONFIRMATION, SUPERSEDED, EXPIRED]),
      (EDITED_PENDING_CONFIRMATION, [CONFIRMED, REJECTED, SUPERSEDED, EXPIRED]),
      (CONFIRMED, []), (REJECTED, []), (SUPERSEDED, []), (EXPIRED, [])]"

definition validate_known_status :: "string \<Rightarrow> unit result" where
  "validate_known_status status =
     ensure (status \<in> set ALLOWED_STATUSES) ValueError ''Unknown parser proposal status''"

definition new_proposal_status :: string where
  "new_proposal_status = INITIAL_STATUS"

definition is_terminal_status :: "string \<Rightarrow> bool result" where
  "is_terminal_status status =
     rbind (validate_known_status status) (\<lambda>_. Ok (status \<in> set TERMINAL_STATUSES))"

definition validate_transition :: "string \<Rightarrow> string \<Rightarrow> bool result" where
  "validate_transition from_status to_status =
     rbind (validate_known_status from_status) (\<lambda>_.
     rbind (validate_known_status to_status) (\<lambda>_.
     rbind (is_terminal_status from_status) (\<lambda>terminal.
       if terminal then raise ValueError ''Terminal parser proposal status cannot transition''
       else
         rbind (dlookup ALLOWED_TRANSITIONS from_status) (\<lambda>allowed.
           if to_status \<notin> set allowed then raise ValueError ''Invalid parser proposal status transition''
           else Ok True))))"

definition status_implies_final_transaction_created :: "string \<Rightarrow> bool result" where
  "status_implies_final_transaction_created status =
     rbind (validate_known_status status) (\<lambda>_. Ok False)"

definition raw_intake_status_for_proposal_status :: "string \<Rightarrow> string result" where
  "raw_intake_status_for_proposal_status status =
     rbind (validate_known_status status) (\<lambda>_.
       if status = CONFIRMED then Ok CONFIRMED
       else if status \<in> set [REJECTED, SUPERSEDED, EXPIRED] then Ok REJECTED
       else Ok PARSED_PENDING_CONFIRMATION)"


section \<open>The state machine\<close>

text \<open>A proposal moves from one status to another when the check allows it.\<close>

inductive proposal_step :: "string \<Rightarrow> string \<Rightarrow> bool" where
  "validate_transition s t = Ok True \<Longrightarrow> proposal_step s t"

inductive_simps proposal_step_iff: "proposal_step s t"

lemma statuses_distinct: "distinct ALLOWED_STATUSES"
  by (simp add: ALLOWED_STATUSES_def status_defs)

lemma validate_transition_Ok_iff:
  "validate_transition s t = Ok b \<longleftrightarrow>
     b \<and> (s = PARSED_PENDING_CONFIRMATION \<and> t \<in> set ALLOWED_STATUSES \<and> t \<noteq> PARSED_PENDING_CONFIRMATION \<or>
      s = EDITED_PENDING_CONFIRMATION \<and> t \<in> set TERMINAL_STATUSES)"
  by (auto simp: validate_transition_def validate_known_status_def is_terminal_status_def result_simps
      ALLOWED_STATUSES_def TERMINAL_STATUSES_def ALLOWED_TRANSITIONS_def dlookup_def status_defs)

lemmas proposal_step_cases = proposal_step_iff [unfolded validate_transition_Ok_iff simp_thms]

lemma terminal_stuck: "s \<in> set TERMINAL_STATUSES \<Longrightarrow> \<not> proposal_step s t"
  by (auto simp: proposal_step_cases TERMINAL_STATUSES_def status_defs)

lemma two_steps_terminal: "proposal_step s t \<Longrightarrow> proposal_step t v \<Longrightarrow> v \<in> set TERMINAL_STATUSES"
  by (auto simp: proposal_step_cases TERMINAL_STATUSES_def status_defs)

section \<open>Properties\<close>

text \<open>
  C15 The lifecycle from its initial status. After any number of allowed transitions a proposal has a
  known status; there are at most two of them, the second always ends in a terminal status, and the
  statuses that allow no further transition are exactly the terminal ones.
\<close>

theorem proposal_lifecycle_bounded:
  assumes "(proposal_step ^^ n) new_proposal_status s"
  shows "s \<in> set ALLOWED_STATUSES \<and> n \<le> 2 \<and> (n = 2 \<longrightarrow> s \<in> set TERMINAL_STATUSES) \<and>
    ((\<nexists>t. proposal_step s t) \<longleftrightarrow> s \<in> set TERMINAL_STATUSES)"
proof -
  have stuck: "(\<nexists>t. proposal_step v t) \<longleftrightarrow> v \<in> set TERMINAL_STATUSES" if "v \<in> set ALLOWED_STATUSES" for v
  proof
    assume "\<nexists>t. proposal_step v t"
    then have "\<not> proposal_step v CONFIRMED" by blast
    then show "v \<in> set TERMINAL_STATUSES"
      using that by (auto simp: proposal_step_cases ALLOWED_STATUSES_def TERMINAL_STATUSES_def status_defs)
  qed (simp add: terminal_stuck)
  have known: "t \<in> set ALLOWED_STATUSES" if "proposal_step v t" for v t
    using that by (auto simp: proposal_step_cases ALLOWED_STATUSES_def TERMINAL_STATUSES_def)
  have le: "n \<le> 2"
  proof (rule ccontr)
    assume "\<not> n \<le> 2"
    then obtain k where "n = 3 + k" by (metis less_eqE not_less_eq_eq numeral_2_eq_2 numeral_3_eq_3)
    then obtain a b c where "proposal_step a b" "proposal_step b c" "proposal_step c s"
      using assms by (auto simp: numeral_3_eq_3)
    then show False using two_steps_terminal terminal_stuck by blast
  qed
  have start: "new_proposal_status \<in> set ALLOWED_STATUSES"
    by (simp add: new_proposal_status_def INITIAL_STATUS_def ALLOWED_STATUSES_def)
  have "s \<in> set ALLOWED_STATUSES" using assms known start by (cases n) auto
  moreover have "n = 2 \<longrightarrow> s \<in> set TERMINAL_STATUSES"
    using assms two_steps_terminal by (auto simp: numeral_2_eq_2)
  ultimately show ?thesis using le stuck by blast
qed

theorem proposal_lifecycle_bounded_witness:
  "(proposal_step ^^ 2) new_proposal_status REJECTED \<and> REJECTED \<in> set TERMINAL_STATUSES"
proof -
  have "proposal_step new_proposal_status EDITED_PENDING_CONFIRMATION" "proposal_step EDITED_PENDING_CONFIRMATION REJECTED"
    by (rule proposal_step.intros, code_simp)+
  then have run: "(proposal_step ^^ 2) new_proposal_status REJECTED" by (auto simp: numeral_2_eq_2)
  then show ?thesis using proposal_lifecycle_bounded [OF run] by simp
qed

text \<open>
  C16 The raw intake follows its proposal. Every known status has a raw intake status; it is one of
  the known ones but never the one before parsing; it is \<open>confirmed\<close> exactly for a confirmed
  proposal, and pending exactly as long as the proposal is not terminal. No status claims that a
  final transaction exists.
\<close>

theorem raw_intake_follows_proposal:
  "case raw_intake_status_for_proposal_status s of
     Inl e \<Rightarrow> s \<notin> set ALLOWED_STATUSES
   | Inr r \<Rightarrow> s \<in> set ALLOWED_STATUSES \<and> r \<in> set RAW_INTAKE_STATUSES \<and> r \<noteq> RAW_INTAKE_PENDING_PARSE \<and>
       (r = CONFIRMED \<longleftrightarrow> s = CONFIRMED) \<and>
       (r = PARSED_PENDING_CONFIRMATION \<longleftrightarrow> s \<notin> set TERMINAL_STATUSES) \<and>
       status_implies_final_transaction_created s = Ok False"
  by (auto simp: raw_intake_status_for_proposal_status_def status_implies_final_transaction_created_def
      validate_known_status_def ensure_def ALLOWED_STATUSES_def RAW_INTAKE_STATUSES_def TERMINAL_STATUSES_def
      RAW_INTAKE_PENDING_PARSE_def status_defs)

end
