(* ===== verification/Py_Float.thy ===== *)
theory Py_Float
  imports Py_Decimal "HOL-Library.Log_Nat"
begin

text \<open>
  Python's floats as far as the program uses them: a finite non-negative float is the rational
  number it stands for. Conversion to a float rounds to the nearest binary64 number, ties to even;
  \<open>repr\<close> writes the shortest decimal text that converts back to the float.
\<close>

definition round_even :: "rat \<Rightarrow> int" where
  "round_even x =
     (let n = \<lfloor>x\<rfloor>; r = x - of_int n
      in if r < 1 / 2 \<or> r = 1 / 2 \<and> even n then n else n + 1)"

text \<open>The exponent that leaves a significand of 53 bits.\<close>

definition binary_exponent :: "rat \<Rightarrow> int" where
  "binary_exponent x =
     (case quotient_of x of (a, b) \<Rightarrow>
        let e = bitlen a - bitlen b - 53 in if x < 2 ^ 53 * 2 powi e then e else e + 1)"

text \<open>The float nearest to a non-negative number; none when it overflows to infinity.\<close>

definition to_float :: "rat \<Rightarrow> rat option" where
  "to_float x =
     (if x = 0 then Some 0
      else
        let e = max (- 1074) (binary_exponent x);
            y = of_int (round_even (x / 2 powi e)) * 2 powi e
        in if y < 2 ^ 1024 then Some y else None)"

definition decimal_point :: "rat \<Rightarrow> int" where
  "decimal_point x =
     (case quotient_of x of (a, b) \<Rightarrow>
        let d = int (ndigits (nat a)) - int (ndigits (nat b)) in if x < 10 powi d then d else d + 1)"

text \<open>
  The shortest significand whose decimal number converts back to \<open>x\<close>: with \<open>n\<close> digits only the
  two neighbours of \<open>x\<close> can, and the nearer one is taken when both do.
\<close>

fun shortest_from :: "nat \<Rightarrow> nat \<Rightarrow> rat \<Rightarrow> int \<Rightarrow> nat \<times> int" where
  "shortest_from 0 n x d = (nat (round_even (x / 10 powi (d - 17))), d - 17)"
| "shortest_from (Suc k) n x d =
     (let q = d - int n; y = x / 10 powi q; lo = \<lfloor>y\<rfloor>;
          down = (to_float (of_int lo * 10 powi q) = Some x);
          up = (to_float (of_int (lo + 1) * 10 powi q) = Some x)
      in if down \<and> up then (nat (round_even y), q)
         else if down then (nat lo, q)
         else if up then (nat (lo + 1), q)
         else shortest_from k (Suc n) x d)"

definition zeros_text :: "int \<Rightarrow> string" where
  "zeros_text n = replicate (nat n) (CHR ''0'')"

definition exponent_text :: "int \<Rightarrow> string" where
  "exponent_text e =
     (if e < 0 then ''-'' else ''+'') @ (if \<bar>e\<bar> < 10 then ''0'' else []) @ string_of_digits (digits (nat \<bar>e\<bar>))"

definition float_repr :: "rat \<Rightarrow> string" where
  "float_repr x =
     (if x = 0 then ''0.0''
      else
        case shortest_from 17 1 x (decimal_point x) of (c, q) \<Rightarrow>
          let ds = string_of_digits (digits c); len = int (length ds); point = len + q
          in if point \<le> - 4 \<or> 16 < point then
               take 1 ds @ (if len = 1 then [] else ''.'' @ drop 1 ds) @ ''e'' @ exponent_text (point - 1)
             else if point \<le> 0 then ''0.'' @ zeros_text (- point) @ ds
             else if len \<le> point then ds @ zeros_text (point - len) @ ''.0''
             else take (nat point) ds @ ''.'' @ drop (nat point) ds)"


section \<open>Bounds of rounding\<close>

lemma round_even_le:
  assumes "x \<le> of_int n"
  shows "round_even x \<le> n"
proof (cases "\<lfloor>x\<rfloor> = n")
  case True
  then have "x = of_int n" using assms by (simp add: floor_eq_iff)
  then show ?thesis by (simp add: round_even_def)
next
  case False
  then have "\<lfloor>x\<rfloor> < n" using floor_mono [OF assms] by simp
  then show ?thesis by (simp add: round_even_def Let_def)
qed

lemma round_even_nonneg: "0 \<le> x \<Longrightarrow> 0 \<le> round_even x"
  by (simp add: round_even_def Let_def)

lemma binary_exponent_le: 
  assumes "0 < x" and "x \<le> 1"
  shows "binary_exponent x \<le> 0"
proof -
  obtain a b where ab: "quotient_of x = (a, b)" by fastforce
  then have b: "0 < b" "x = of_int a / of_int b" by (simp_all add: quotient_of_denom_pos quotient_of_div)
  have "a \<le> b" "0 < a" using assms b(1) unfolding b(2) by (simp_all add: divide_simps)
  then have "bitlen a \<le> bitlen b" using b by (simp add: bitlen_def nat_mono floorlog_mono)
  then show ?thesis using ab by (simp add: binary_exponent_def Let_def)
qed

lemma to_float_zero: "to_float 0 = Some 0"
  by (simp add: to_float_def)

lemma to_float_unit:
  assumes "0 \<le> x" and "x \<le> 1"
  obtains y where "to_float x = Some y" and "0 \<le> y" and "y \<le> 1"
proof (cases "x = 0")
  case True
  then show ?thesis by (intro that [of 0]) (simp_all add: to_float_def)
next
  case False
  define e where "e = max (- 1074) (binary_exponent x)"
  define y where "y = of_int (round_even (x / 2 powi e)) * (2 powi e :: rat)"
  have "e \<le> 0" using binary_exponent_le False assms by (simp add: e_def)
  then have p: "(2 powi e :: rat) = 1 / 2 ^ nat (- e)" by (simp add: power_int_def divide_simps)
  have "x / 2 powi e \<le> of_int (2 ^ nat (- e))" using assms unfolding p by simp
  then have "round_even (x / 2 powi e) \<le> 2 ^ nat (- e)" by (rule round_even_le)
  then have "of_int (round_even (x / 2 powi e)) \<le> (2 ^ nat (- e) :: rat)"
    by (metis of_int_le_iff of_int_numeral of_int_power)
  then have le: "y \<le> 1" unfolding y_def p by (simp add: field_simps)
  moreover have "0 \<le> y" using assms round_even_nonneg [of "x / 2 powi e"] by (simp add: y_def)
  moreover have "to_float x = Some y" using False le by (simp add: to_float_def Let_def y_def e_def)
  ultimately show ?thesis by (intro that)
qed

end
