(* ===== verification/Json.thy ===== *)
theory Json
  imports Py_Float Digests Money
begin

text \<open>
  Python's \<open>json\<close> module as the program uses it: the text \<open>dumps\<close> writes with compact separators,
  with or without sorted keys and with or without ASCII escapes, and what \<open>loads\<close> reads. Strings
  are ASCII; an escape for a character outside ASCII is not read. The reader's recursion is bounded
  by a counter that starts at the length of the text and never runs out on a text the writer wrote.
\<close>

section \<open>Values and their text\<close>

text \<open>A float is a sign and a magnitude; infinities and NaN are the values JSON itself does not have.\<close>

datatype json =
    JNull
  | JBool bool
  | JInt int
  | JFloat bool rat
  | JInfinity bool
  | JNaN
  | JStr string
  | JList "json list"
  | JObj "(string \<times> json) list"

abbreviation QUOTE :: char where
  "QUOTE \<equiv> CHR 0x22"

abbreviation BACKSLASH :: char where
  "BACKSLASH \<equiv> CHR 0x5C"

definition escapes :: "(char, char) dict" where
  "escapes =
     [(QUOTE, QUOTE), (BACKSLASH, BACKSLASH), (CHR 0x08, CHR ''b''), (CHR 0x0C, CHR ''f''),
      (CHR 0x0A, CHR ''n''), (CHR 0x0D, CHR ''r''), (CHR 0x09, CHR ''t'')]"

definition escape_char :: "bool \<Rightarrow> char \<Rightarrow> string" where
  "escape_char ensure_ascii c =
     (case dget escapes c of
        Some e \<Rightarrow> [BACKSLASH, e]
      | None \<Rightarrow>
          let n = of_char c in
          if n < 32 \<or> ensure_ascii \<and> n = 127
          then BACKSLASH # ''u00'' @ hex_byte n
          else [c])"

definition quoted :: "bool \<Rightarrow> string \<Rightarrow> string" where
  "quoted ensure_ascii s = QUOTE # concat (map (escape_char ensure_ascii) s) @ [QUOTE]"

fun commas :: "string list \<Rightarrow> string" where
  "commas [] = []"
| "commas [t] = t"
| "commas (t # u # ts) = t @ '','' @ commas (u # ts)"

fun json_text :: "bool \<Rightarrow> json \<Rightarrow> string" where
  "json_text a JNull = ''null''"
| "json_text a (JBool b) = (if b then ''true'' else ''false'')"
| "json_text a (JInt n) = int_to_string n"
| "json_text a (JFloat neg x) = (if neg then ''-'' else []) @ float_repr x"
| "json_text a (JInfinity neg) = (if neg then ''-'' else []) @ ''Infinity''"
| "json_text a JNaN = ''NaN''"
| "json_text a (JStr s) = quoted a s"
| "json_text a (JList vs) = ''['' @ commas (map (json_text a) vs) @ '']''"
| "json_text a (JObj kvs) =
     ''{'' @ commas (map (\<lambda>kv. quoted a (fst kv) @ '':'' @ json_text a (snd kv)) kvs) @ ''}''"

fun sort_keys :: "json \<Rightarrow> json" where
  "sort_keys (JList vs) = JList (map sort_keys vs)"
| "sort_keys (JObj kvs) = JObj (sort_key fst (map (\<lambda>kv. (fst kv, sort_keys (snd kv))) kvs))"
| "sort_keys v = v"

fun non_finite :: "json \<Rightarrow> bool" where
  "non_finite (JInfinity _) = True"
| "non_finite JNaN = True"
| "non_finite (JList vs) = list_ex non_finite vs"
| "non_finite (JObj kvs) = list_ex (\<lambda>kv. non_finite (snd kv)) kvs"
| "non_finite v = False"

text \<open>\<open>json.dumps(v, sort_keys=True, separators=(",", ":"), ensure_ascii=False, allow_nan=False)\<close>.\<close>

definition dumps :: "json \<Rightarrow> string result" where
  "dumps v =
     (if non_finite v then raise ValueError ''Out of range float values are not JSON compliant''
      else Ok (json_text False (sort_keys v)))"


section \<open>Reading\<close>

definition json_space :: "char \<Rightarrow> bool" where
  "json_space c \<longleftrightarrow> c \<in> set [CHR '' '', CHR 0x09, CHR 0x0A, CHR 0x0D]"

definition skip_space :: "string \<Rightarrow> string" where
  "skip_space s = dropWhile json_space s"

definition starts :: "char \<Rightarrow> string \<Rightarrow> bool" where
  "starts c s \<longleftrightarrow> (case s of [] \<Rightarrow> False | x # _ \<Rightarrow> x = c)"

lemma starts_simps [simp]: "\<not> starts c []" "starts c (x # s) \<longleftrightarrow> x = c"
  by (simp_all add: starts_def)

definition hex_value :: "char \<Rightarrow> nat option" where
  "hex_value c =
     (let n = of_char c in
      if 48 \<le> n \<and> n \<le> 57 then Some (n - 48)
      else if 97 \<le> n \<and> n \<le> 102 then Some (n - 87)
      else if 65 \<le> n \<and> n \<le> 70 then Some (n - 55) else None)"

text \<open>The character a \<open>\u\<close> escape names, when it is an ASCII one.\<close>

definition unicode_escape :: "char \<Rightarrow> char \<Rightarrow> char \<Rightarrow> char \<Rightarrow> char option" where
  "unicode_escape c1 c2 c3 c4 =
     (case (hex_value c1, hex_value c2, hex_value c3, hex_value c4) of
        (Some a, Some b, Some c, Some d) \<Rightarrow>
          let n = ((a * 16 + b) * 16 + c) * 16 + d in if n < 128 then Some (char_of n) else None
      | _ \<Rightarrow> None)"

definition unescapes :: "(char, char) dict" where
  "unescapes = (CHR ''/'', CHR ''/'') # map (\<lambda>ce. (snd ce, fst ce)) escapes"

fun scan_string :: "string \<Rightarrow> (string \<times> string) option" where
  "scan_string [] = None"
| "scan_string (c # cs) =
     (if c = QUOTE then Some ([], cs)
      else if c = BACKSLASH then
        (case cs of
           [] \<Rightarrow> None
         | e # r \<Rightarrow>
             if e = CHR ''u'' then
               (case r of
                  c1 # c2 # c3 # c4 # r' \<Rightarrow>
                    (case unicode_escape c1 c2 c3 c4 of
                       None \<Rightarrow> None
                     | Some x \<Rightarrow> map_option (\<lambda>st. (x # fst st, snd st)) (scan_string r'))
                | _ \<Rightarrow> None)
             else (case dget unescapes e of
                     None \<Rightarrow> None
                   | Some x \<Rightarrow> map_option (\<lambda>st. (x # fst st, snd st)) (scan_string r)))
      else if of_char c < (32 :: nat) then None
      else map_option (\<lambda>st. (c # fst st, snd st)) (scan_string cs))"

text \<open>
  The longest match of \<open>(-?(?:0|[1-9]\d*))(\.\d+)?([eE][-+]?\d+)?\<close>: the digits before the point,
  those behind it, the exponent, and the rest of the text.
\<close>

definition scan_integer :: "string \<Rightarrow> (string \<times> string) option" where
  "scan_integer s =
     (case s of
        [] \<Rightarrow> None
      | c # cs \<Rightarrow>
          if c = CHR ''0'' then Some (''0'', cs)
          else if char_digit c then Some (takeWhile char_digit s, dropWhile char_digit s)
          else None)"

definition scan_fraction :: "string \<Rightarrow> string \<times> string" where
  "scan_fraction s =
     (if starts (CHR ''.'') s \<and> takeWhile char_digit (tl s) \<noteq> []
      then (takeWhile char_digit (tl s), dropWhile char_digit (tl s)) else ([], s))"

definition scan_exponent :: "string \<Rightarrow> int option \<times> string" where
  "scan_exponent s =
     (case s of
        [] \<Rightarrow> (None, s)
      | c # cs \<Rightarrow>
          if c \<noteq> CHR ''e'' \<and> c \<noteq> CHR ''E'' then (None, s)
          else
            let signed = (cs \<noteq> [] \<and> (hd cs = CHR ''+'' \<or> hd cs = CHR ''-''));
                body = (if signed then tl cs else cs);
                ds = takeWhile char_digit body
            in if ds = [] then (None, s)
               else (Some (if signed \<and> hd cs = CHR ''-'' then - int (nat_of_string ds) else int (nat_of_string ds)),
                     dropWhile char_digit body))"

definition scan_number :: "bool \<Rightarrow> string \<Rightarrow> (json \<times> string) option" where
  "scan_number neg s =
     (case scan_integer s of
        None \<Rightarrow> None
      | Some (whole, r) \<Rightarrow>
          (case scan_fraction r of (fracs, r1) \<Rightarrow>
          (case scan_exponent r1 of (expo, r2) \<Rightarrow>
             if fracs = [] \<and> expo = None then
               Some (JInt (if neg then - int (nat_of_string whole) else int (nat_of_string whole)), r2)
             else
               let e = (case expo of None \<Rightarrow> 0 | Some e \<Rightarrow> e);
                   x = of_nat (nat_of_string (whole @ fracs)) * 10 powi (e - int (length fracs))
               in Some (case to_float x of None \<Rightarrow> JInfinity neg | Some y \<Rightarrow> JFloat neg y, r2))))"

definition scan_literal :: "string \<Rightarrow> (json \<times> string) option" where
  "scan_literal s =
     (if take 4 s = ''null'' then Some (JNull, drop 4 s)
      else if take 4 s = ''true'' then Some (JBool True, drop 4 s)
      else if take 5 s = ''false'' then Some (JBool False, drop 5 s)
      else if take 3 s = ''NaN'' then Some (JNaN, drop 3 s)
      else if take 8 s = ''Infinity'' then Some (JInfinity False, drop 8 s)
      else if take 9 s = ''-Infinity'' then Some (JInfinity True, drop 9 s)
      else if take 1 s = ''-'' then scan_number True (drop 1 s)
      else scan_number False s)"

text \<open>A dictionary keeps the first position and the last value of a repeated key.\<close>

definition to_dict :: "(string \<times> json) list \<Rightarrow> (string \<times> json) list" where
  "to_dict kvs = foldl (\<lambda>d kv. dset d (fst kv) (snd kv)) [] kvs"

fun scan_value :: "nat \<Rightarrow> string \<Rightarrow> (json \<times> string) option"
  and scan_elements :: "nat \<Rightarrow> string \<Rightarrow> (json list \<times> string) option"
  and scan_members :: "nat \<Rightarrow> string \<Rightarrow> ((string \<times> json) list \<times> string) option" where
  "scan_value 0 s = None"
| "scan_value (Suc n) s =
     (if starts QUOTE s then map_option (\<lambda>st. (JStr (fst st), snd st)) (scan_string (tl s))
      else if starts (CHR ''{'') s then
        let r = skip_space (tl s) in
        if starts (CHR ''}'') r then Some (JObj [], tl r)
        else map_option (\<lambda>st. (JObj (to_dict (fst st)), snd st)) (scan_members n r)
      else if starts (CHR ''['') s then
        let r = skip_space (tl s) in
        if starts (CHR '']'') r then Some (JList [], tl r)
        else map_option (\<lambda>st. (JList (fst st), snd st)) (scan_elements n r)
      else scan_literal s)"
| "scan_elements 0 s = None"
| "scan_elements (Suc n) s =
     (case scan_value n s of
        None \<Rightarrow> None
      | Some (v, r) \<Rightarrow>
          let r' = skip_space r in
          if starts (CHR '']'') r' then Some ([v], tl r')
          else if starts (CHR '','') r' then
            map_option (\<lambda>st. (v # fst st, snd st)) (scan_elements n (skip_space (tl r')))
          else None)"
| "scan_members 0 s = None"
| "scan_members (Suc n) s =
     (if \<not> starts QUOTE s then None
      else
        case scan_string (tl s) of
          None \<Rightarrow> None
        | Some (k, r) \<Rightarrow>
            let r' = skip_space r in
            if \<not> starts (CHR '':'') r' then None
            else
              case scan_value n (skip_space (tl r')) of
                None \<Rightarrow> None
              | Some (v, t) \<Rightarrow>
                  let t' = skip_space t in
                  if starts (CHR ''}'') t' then Some ([(k, v)], tl t')
                  else if starts (CHR '','') t' then
                    map_option (\<lambda>st. ((k, v) # fst st, snd st)) (scan_members n (skip_space (tl t')))
                  else None)"

text \<open>\<open>json.loads\<close>; nothing stands for the decoding error.\<close>

definition loads :: "string \<Rightarrow> json option" where
  "loads s =
     (case scan_value (length s) (skip_space s) of
        None \<Rightarrow> None
      | Some (v, r) \<Rightarrow> if skip_space r = [] then Some v else None)"

section \<open>Reading back what was written\<close>

text \<open>The values the writer is used on: no floats, ASCII text, distinct keys.\<close>

definition ascii :: "string \<Rightarrow> bool" where
  "ascii s \<longleftrightarrow> list_all (\<lambda>c. of_char c < (128 :: nat)) s"

fun plain :: "json \<Rightarrow> bool" where
  "plain JNull = True"
| "plain (JBool _) = True"
| "plain (JInt _) = True"
| "plain (JStr s) = ascii s"
| "plain (JList vs) = list_all plain vs"
| "plain (JObj kvs) = (distinct (map fst kvs) \<and> list_all (\<lambda>kv. ascii (fst kv) \<and> plain (snd kv)) kvs)"
| "plain v = False"

lemma ascii_simps [simp]: "ascii []" "ascii (c # s) \<longleftrightarrow> of_char c < (128 :: nat) \<and> ascii s"
  "ascii (s @ t) \<longleftrightarrow> ascii s \<and> ascii t"
  by (simp_all add: ascii_def)

lemma hex_value_char: "n < 16 \<Longrightarrow> hex_value (hex_char n) = Some n"
  by (auto simp: hex_value_def hex_char_def Let_def)

lemma unicode_escape_hex: "n < 128 \<Longrightarrow> unicode_escape (CHR ''0'') (CHR ''0'') (hex_char (n div 16)) (hex_char (n mod 16)) = Some (char_of n)"
proof -
  assume n: "n < 128"
  then have "n div 16 < 16" by simp
  moreover have "hex_value (CHR ''0'') = Some 0" by code_simp
  ultimately show ?thesis using n by (simp add: unicode_escape_def hex_value_char Let_def)
qed

lemma scan_escape:
  assumes "of_char c < (128 :: nat)"
  shows "scan_string (escape_char a c @ t) = map_option (\<lambda>st. (c # fst st, snd st)) (scan_string t)"
proof (cases "dget escapes c")
  case (Some e)
  then have "c \<in> {QUOTE, BACKSLASH, CHR 0x08, CHR 0x0C, CHR 0x0A, CHR 0x0D, CHR 0x09}"
    by (auto simp: escapes_def dget_def split: if_splits)
  then show ?thesis by (auto simp: escape_char_def escapes_def unescapes_def dget_def)
next
  case None
  then have q: "c \<noteq> QUOTE" "c \<noteq> BACKSLASH" by (auto simp: escapes_def dget_def)
  let ?n = "of_char c :: nat"
  show ?thesis
  proof (cases "?n < 32 \<or> a \<and> ?n = 127")
    case True
    have "unicode_escape (CHR ''0'') (CHR ''0'') (hex_char (?n div 16)) (hex_char (?n mod 16)) = Some c"
      using unicode_escape_hex [OF assms] by simp
    moreover have "?n div 16 mod 16 = ?n div 16" using assms by simp
    ultimately show ?thesis using True None by (simp add: escape_char_def hex_byte_def Let_def)
  next
    case False
    then show ?thesis using None q by (auto simp: escape_char_def Let_def)
  qed
qed

lemma scan_quoted: "ascii s \<Longrightarrow> scan_string (concat (map (escape_char a) s) @ QUOTE # r) = Some (s, r)"
  by (induction s) (simp_all add: scan_escape)

definition delim :: "string \<Rightarrow> bool" where
  "delim r \<longleftrightarrow> r = [] \<or> hd r \<in> set '',]}''"

lemma delim_simps [simp]: "delim []" "delim (c # r) \<longleftrightarrow> c = CHR '','' \<or> c = CHR '']'' \<or> c = CHR ''}''"
  by (auto simp: delim_def)

lemma delim_not_digit: "delim r \<Longrightarrow> r = [] \<or> \<not> char_digit (hd r)"
  by (auto simp: delim_def char_digit_def)

lemma hd_digits: "0 < n \<Longrightarrow> hd (digits n) \<noteq> 0"
proof (induction n rule: digits.induct)
  case (1 n)
  then show ?case by (cases "n < 10") (simp_all add: digits.simps [of n] hd_append)
qed

lemma digits_text:
  "list_all char_digit (string_of_digits (digits n))" "string_of_digits (digits n) \<noteq> []"
  "nat_of_string (string_of_digits (digits n)) = n"
  "0 < n \<Longrightarrow> hd (string_of_digits (digits n)) \<noteq> CHR ''0''"
proof -
  have d: "\<forall>d \<in> set (digits n). d < 10" using digits_less by blast
  show "list_all char_digit (string_of_digits (digits n))" "string_of_digits (digits n) \<noteq> []"
    "nat_of_string (string_of_digits (digits n)) = n"
    using d by (simp_all add: string_of_digits_all nat_of_string_digits)
  assume "0 < n"
  then have "hd (digits n) \<noteq> 0" "hd (digits n) < 10" using hd_digits d by auto
  moreover have "of_char (char_of_digit (hd (digits n))) = hd (digits n) + 48"
    using calculation(2) by (simp add: char_of_digit_def)
  ultimately show "hd (string_of_digits (digits n)) \<noteq> CHR ''0''" by (auto simp: string_of_digits_def hd_map)
qed

lemma scan_digits:
  assumes "delim r"
  shows "scan_integer (string_of_digits (digits n) @ r) = Some (string_of_digits (digits n), r)"
proof (cases "n = 0")
  case True
  have "string_of_digits (digits 0) = ''0''" by code_simp
  then show ?thesis using True by (simp add: scan_integer_def)
next
  case False
  let ?s = "string_of_digits (digits n)"
  obtain c cs where s: "?s = c # cs" using digits_text(2) [of n] by (cases ?s) auto
  have "takeWhile char_digit (?s @ r) = ?s" "dropWhile char_digit (?s @ r) = r"
    using digits_text(1) [of n] delim_not_digit [OF assms]
    by (cases r; simp add: takeWhile_append list_all_iff dropWhile_append)+
  moreover have "c \<noteq> CHR ''0''" "char_digit c" using False digits_text(1,4) [of n] by (simp_all add: s)
  ultimately show ?thesis by (simp add: s scan_integer_def)
qed

lemma scan_number_digits:
  assumes "delim r"
  shows "scan_number neg (string_of_digits (digits n) @ r) = Some (JInt (if neg then - int n else int n), r)"
proof -
  have "scan_fraction r = ([], r)" "scan_exponent r = (None, r)"
    using assms by (cases r; auto simp: scan_fraction_def scan_exponent_def split: char.splits)+
  then show ?thesis by (simp add: scan_number_def scan_digits [OF assms] digits_text(3))
qed

text \<open>How the text of a value begins.\<close>

lemma json_text_start:
  assumes "plain v"
  obtains c cs where "json_text a v = c # cs" and "\<not> json_space c" and "c \<noteq> CHR '']''" and "c \<noteq> CHR ''}''"
proof -
  have digit: "\<not> json_space c \<and> c \<noteq> CHR '']'' \<and> c \<noteq> CHR ''}''" if "char_digit c" for c
    using that by (auto simp: char_digit_def json_space_def)
  have num: "\<exists>c cs. string_of_digits (digits n) = c # cs \<and> \<not> json_space c \<and> c \<noteq> CHR '']'' \<and> c \<noteq> CHR ''}''" for n
    using digits_text(1,2) [of n] digit by (cases "string_of_digits (digits n)") auto
  have "\<exists>c cs. json_text a v = c # cs \<and> \<not> json_space c \<and> c \<noteq> CHR '']'' \<and> c \<noteq> CHR ''}''"
    using assms num by (cases v) (auto simp: quoted_def json_space_def int_to_string_def)
  then show thesis using that by blast
qed

lemma skip_space_id: "\<not> json_space c \<Longrightarrow> skip_space (c # cs) = c # cs"
  by (simp add: skip_space_def)

lemma skip_space_delim: "delim r \<Longrightarrow> skip_space r = r"
  by (cases r) (auto simp: skip_space_def json_space_def)

lemma scan_int: "delim r \<Longrightarrow> scan_literal (int_to_string n @ r) = Some (JInt n, r)"
proof -
  assume r: "delim r"
  let ?s = "string_of_digits (digits (nat \<bar>n\<bar>))"
  obtain c cs where s: "?s = c # cs" and c: "char_digit c"
    using digits_text(1,2) [of "nat \<bar>n\<bar>"] by (cases ?s) auto
  then have neq: "c \<noteq> CHR ''n''" "c \<noteq> CHR ''t''" "c \<noteq> CHR ''f''" "c \<noteq> CHR ''N''" "c \<noteq> CHR ''I''" "c \<noteq> CHR ''-''"
    by (auto simp: char_digit_def)
  show ?thesis
  proof (cases "n < 0")
    case True
    then have "int_to_string n @ r = CHR ''-'' # ?s @ r" by (simp add: int_to_string_def)
    then have "int_to_string n @ r = CHR ''-'' # (c # cs) @ r" by (simp only: s)
    then have "scan_literal (int_to_string n @ r) = scan_number True (?s @ r)"
      using neq by (simp add: scan_literal_def s)
    then show ?thesis using True scan_number_digits [OF r] by simp
  next
    case False
    then have "int_to_string n @ r = ?s @ r" by (simp add: int_to_string_def)
    then have "int_to_string n @ r = (c # cs) @ r" by (simp only: s)
    then have "scan_literal (int_to_string n @ r) = scan_number False (?s @ r)"
      using neq by (simp add: scan_literal_def s)
    then show ?thesis using False scan_number_digits [OF r] by simp
  qed
qed

text \<open>A reader of single values reads lists and members of them.\<close>

definition reads :: "bool \<Rightarrow> json \<Rightarrow> bool" where
  "reads a v \<longleftrightarrow> (\<forall>n r. delim r \<longrightarrow> length (json_text a v) \<le> n \<longrightarrow> scan_value n (json_text a v @ r) = Some (v, r))"

lemma readsD: "reads a v \<Longrightarrow> delim r \<Longrightarrow> length (json_text a v) \<le> n \<Longrightarrow> scan_value n (json_text a v @ r) = Some (v, r)"
  by (simp add: reads_def)

lemma commas_start: "plain v \<Longrightarrow> \<exists>c cs. commas (json_text a v # ts) = c # cs \<and> \<not> json_space c \<and> c \<noteq> CHR '']'' \<and> c \<noteq> CHR ''}''"
  by (rule json_text_start [of v a]) (simp, cases ts, auto)

lemma scan_elements_text:
  assumes "\<forall>v \<in> set vs. reads a v \<and> plain v" and "vs \<noteq> []" and "length (commas (map (json_text a) vs)) < n"
  shows "scan_elements n (commas (map (json_text a) vs) @ CHR '']'' # r) = Some (vs, r)"
  using assms
proof (induction vs arbitrary: n)
  case (Cons v vs)
  obtain m where n: "n = Suc m" using Cons.prems(3) by (cases n) auto
  have v: "reads a v" using Cons.prems(1) by simp
  show ?case
  proof (cases vs)
    case Nil
    then have "scan_value m (json_text a v @ CHR '']'' # r) = Some (v, CHR '']'' # r)"
      using Cons.prems(3) by (intro readsD [OF v]) (simp_all add: n)
    then show ?thesis by (simp add: n Nil skip_space_delim)
  next
    case (Cons w ws)
    let ?t = "commas (map (json_text a) vs)"
    have "scan_value m (json_text a v @ CHR '','' # ?t @ CHR '']'' # r) = Some (v, CHR '','' # ?t @ CHR '']'' # r)"
      using Cons.prems(3) by (intro readsD [OF v]) (simp_all add: n Cons)
    moreover have "scan_elements m (?t @ CHR '']'' # r) = Some (vs, r)"
      using Cons.prems by (intro Cons.IH) (auto simp: n Cons)
    moreover have "skip_space (?t @ CHR '']'' # r) = ?t @ CHR '']'' # r"
      using commas_start [of w a "map (json_text a) ws"] Cons.prems(1) by (auto simp: Cons skip_space_id)
    ultimately show ?thesis by (simp add: n Cons skip_space_delim)
  qed
qed simp

abbreviation member_text :: "bool \<Rightarrow> string \<times> json \<Rightarrow> string" where
  "member_text a kv \<equiv> quoted a (fst kv) @ '':'' @ json_text a (snd kv)"

lemma scan_member:
  assumes v: "reads a v" "plain v" and k: "ascii k" and n: "length (json_text a v) \<le> n" and r: "delim r" "r \<noteq> []"
  shows "scan_members (Suc n) (member_text a (k, v) @ r) =
    (if starts (CHR ''}'') r then Some ([(k, v)], tl r)
     else if starts (CHR '','') r then map_option (\<lambda>st. ((k, v) # fst st, snd st)) (scan_members n (skip_space (tl r)))
     else None)"
proof -
  obtain c cs where c: "json_text a v = c # cs" "\<not> json_space c" using json_text_start [OF v(2)] by metis
  then have "skip_space (json_text a v @ r) = json_text a v @ r" by (simp add: skip_space_id)
  then have "scan_value n (skip_space (json_text a v @ r)) = Some (v, r)" using readsD [OF v(1) r(1) n] by simp
  moreover have "\<not> json_space (CHR '':'')" by code_simp
  ultimately show ?thesis
    using scan_quoted [OF k] skip_space_delim [OF r(1)] by (simp add: quoted_def skip_space_id)
qed

lemma scan_members_text:
  assumes "\<forall>kv \<in> set kvs. reads a (snd kv) \<and> plain (snd kv) \<and> ascii (fst kv)" and "kvs \<noteq> []"
    and "length (commas (map (member_text a) kvs)) < n"
  shows "scan_members n (commas (map (member_text a) kvs) @ CHR ''}'' # r) = Some (kvs, r)"
  using assms
proof (induction kvs arbitrary: n)
  case (Cons kv kvs)
  obtain m where n: "n = Suc m" using Cons.prems(3) by (cases n) auto
  obtain k v where kv: "kv = (k, v)" by (cases kv)
  have v: "reads a v" "plain v" "ascii k" using Cons.prems(1) by (simp_all add: kv)
  show ?case
  proof (cases kvs)
    case Nil
    have "length (json_text a v) \<le> m" using Cons.prems(3) by (simp add: n Nil kv)
    from scan_member [OF v this, of "CHR ''}'' # r"] show ?thesis by (simp add: n Nil kv)
  next
    case (Cons w ws)
    let ?t = "commas (map (member_text a) kvs)"
    have "length (json_text a v) \<le> m" using Cons.prems(3) by (simp add: n Cons kv)
    note m = scan_member [OF v this, of "CHR '','' # ?t @ CHR ''}'' # r"]
    have "scan_members m (?t @ CHR ''}'' # r) = Some (kvs, r)"
      using Cons.prems by (intro Cons.IH) (auto simp: n Cons kv)
    moreover have "skip_space (?t @ CHR ''}'' # r) = ?t @ CHR ''}'' # r"
      by (cases ws) (simp_all add: Cons quoted_def skip_space_def json_space_def)
    ultimately show ?thesis using m by (simp add: n Cons kv)
  qed
qed simp

lemma to_dict_id: "distinct (map fst kvs) \<Longrightarrow> to_dict kvs = kvs"
proof (induction kvs rule: rev_induct)
  case (snoc kv kvs)
  then show ?case by (simp add: to_dict_def dset_absent)
qed (simp add: to_dict_def)

lemma reads_atoms: "reads a JNull" "reads a (JBool b)" "reads a (JInt i)" "ascii s \<Longrightarrow> reads a (JStr s)"
proof -
  have one: "reads a v"
    if "\<And>r m. delim r \<Longrightarrow> scan_value (Suc m) (json_text a v @ r) = Some (v, r)" "json_text a v \<noteq> []" for v
    unfolding reads_def
  proof (intro allI impI)
    fix n r assume "delim r" "length (json_text a v) \<le> n"
    then show "scan_value n (json_text a v @ r) = Some (v, r)" using that by (cases n) auto
  qed
  show "reads a JNull" "reads a (JBool b)" by (rule one; simp add: scan_literal_def)+
  have start: "\<exists>c cs. int_to_string i = c # cs \<and> c \<notin> {QUOTE, CHR ''{'', CHR ''[''}"
    using digits_text(1,2) [of "nat \<bar>i\<bar>"]
    by (cases "string_of_digits (digits (nat \<bar>i\<bar>))") (auto simp: int_to_string_def char_digit_def)
  show "reads a (JInt i)"
  proof (rule one)
    fix r m assume r: "delim r"
    have "scan_value (Suc m) (int_to_string i @ r) = scan_literal (int_to_string i @ r)" using start by auto
    then show "scan_value (Suc m) (json_text a (JInt i) @ r) = Some (JInt i, r)" using scan_int [OF r] by simp
  qed (use start in auto)
  show "ascii s \<Longrightarrow> reads a (JStr s)" by (rule one) (simp_all add: quoted_def scan_quoted)
qed

lemma reads_plain: "plain v \<Longrightarrow> reads a v"
proof (induction v)
  case (JList vs)
  show ?case
    unfolding reads_def
  proof (intro allI impI)
    fix n r assume r: "delim r" and "length (json_text a (JList vs)) \<le> n"
    then obtain m where n: "n = Suc m" "length (commas (map (json_text a) vs)) < m" by (cases n) auto
    show "scan_value n (json_text a (JList vs) @ r) = Some (JList vs, r)"
    proof (cases vs)
      case (Cons w ws)
      have "scan_elements m (commas (map (json_text a) vs) @ CHR '']'' # r) = Some (vs, r)"
        using JList n(2) by (intro scan_elements_text) (auto simp: list_all_iff Cons)
      then show ?thesis
        using commas_start [of w a "map (json_text a) ws"] JList.prems by (auto simp: n(1) Cons skip_space_id)
    qed (simp add: n(1) skip_space_def json_space_def)
  qed
next
  case (JObj kvs)
  show ?case
    unfolding reads_def
  proof (intro allI impI)
    fix n r assume r: "delim r" and "length (json_text a (JObj kvs)) \<le> n"
    then obtain m where n: "n = Suc m" "length (commas (map (member_text a) kvs)) < m" by (cases n) auto
    show "scan_value n (json_text a (JObj kvs) @ r) = Some (JObj kvs, r)"
    proof (cases kvs)
      case (Cons w ws)
      have "scan_members m (commas (map (member_text a) kvs) @ CHR ''}'' # r) = Some (kvs, r)"
        using JObj n(2) by (intro scan_members_text) (fastforce simp: list_all_iff Cons snds.simps)+
      moreover have "to_dict kvs = kvs" using JObj.prems by (simp add: to_dict_id)
      ultimately show ?thesis by (cases ws) (auto simp: n(1) Cons quoted_def skip_space_def json_space_def)
    qed (simp add: n(1) skip_space_def json_space_def)
  qed
qed (simp_all add: reads_atoms)

lemma loads_text: "plain v \<Longrightarrow> loads (json_text a v) = Some v"
proof -
  assume v: "plain v"
  obtain c cs where "json_text a v = c # cs" "\<not> json_space c" using json_text_start [OF v] by metis
  then have "skip_space (json_text a v) = json_text a v" by (simp add: skip_space_id)
  moreover have "scan_value (length (json_text a v)) (json_text a v) = Some (v, [])"
    using readsD [OF reads_plain [OF v], of "[]"] by simp
  ultimately show ?thesis by (simp add: loads_def skip_space_def)
qed

lemma distinct_sort_key: "distinct (map f (sort_key f xs)) \<longleftrightarrow> distinct (map f xs)"
  by (metis mset_eq_imp_distinct_iff mset_map mset_sort)

lemma plain_sort_keys: "plain v \<Longrightarrow> plain (sort_keys v)"
proof (induction v rule: sort_keys.induct)
  case (2 kvs)
  have "distinct (map fst (sort_key fst (map (\<lambda>kv. (fst kv, sort_keys (snd kv))) kvs)))"
    using 2 by (simp only: distinct_sort_key) (simp add: comp_def)
  then show ?case using 2 by (auto simp: list_all_iff)
qed (auto simp: list_all_iff)

lemma sort_keys_idem: "sort_keys (sort_keys v) = sort_keys v"
proof (induction v rule: sort_keys.induct)
  case (2 kvs)
  let ?s = "sort_key fst (map (\<lambda>kv. (fst kv, sort_keys (snd kv))) kvs)"
  have "map (\<lambda>kv. (fst kv, sort_keys (snd kv))) ?s = ?s" using 2 by (intro map_idI) auto
  then show ?case by (simp add: sort_key_id_if_sorted)
qed auto

lemma plain_finite: "plain v \<Longrightarrow> \<not> non_finite v"
  by (induction v rule: plain.induct) (auto simp: list_all_iff list_ex_iff)

lemma dumps_plain: "plain v \<Longrightarrow> dumps v = Ok (json_text False (sort_keys v))"
  by (simp add: dumps_def plain_finite)

lemma loads_dumps:
  assumes "plain v" and "dumps v = Ok t"
  shows "loads t = Some (sort_keys v)"
  using assms loads_text [OF plain_sort_keys [OF assms(1)], of False] by (simp add: dumps_plain)

lemma dumps_inject:
  assumes "plain v" and "plain w"
  shows "dumps v = dumps w \<longleftrightarrow> sort_keys v = sort_keys w"
  using assms loads_dumps by (metis dumps_plain option.inject)

lemma non_finite_sort_keys [simp]: "non_finite (sort_keys v) \<longleftrightarrow> non_finite v"
  by (induction v rule: sort_keys.induct) (auto simp: list_ex_iff)

lemma dumps_sort_keys [simp]: "dumps (sort_keys v) = dumps v"
  by (simp add: dumps_def sort_keys_idem)

end
