(* ===== verification/Py_Date.thy ===== *)
theory Py_Date
  imports Money
begin

text \<open>
  Python's \<open>date\<close> and \<open>datetime\<close> as far as the program uses them: the proleptic Gregorian calendar
  with its day numbers, ISO texts, and the conversion of an aware time to UTC.
\<close>

section \<open>Dates\<close>

datatype date = Date (dyear: nat) (dmonth: nat) (dday: nat)

definition is_leap :: "nat \<Rightarrow> bool" where
  "is_leap y \<longleftrightarrow> 4 dvd y \<and> (\<not> 100 dvd y \<or> 400 dvd y)"

definition days_in_month :: "nat \<Rightarrow> nat \<Rightarrow> nat" where
  "days_in_month y m =
     (if m = 2 then (if is_leap y then 29 else 28) else if m \<in> set [4, 6, 9, 11] then 30 else 31)"

definition valid_date :: "date \<Rightarrow> bool" where
  "valid_date d \<longleftrightarrow>
     1 \<le> dyear d \<and> dyear d \<le> 9999 \<and> 1 \<le> dmonth d \<and> dmonth d \<le> 12 \<and>
     1 \<le> dday d \<and> dday d \<le> days_in_month (dyear d) (dmonth d)"

definition days_before_year :: "nat \<Rightarrow> int" where
  "days_before_year y = (let n = int y - 1 in n * 365 + n div 4 - n div 100 + n div 400)"

definition days_before_month :: "nat \<Rightarrow> nat \<Rightarrow> int" where
  "days_before_month y m = sum_list (map (\<lambda>k. int (days_in_month y k)) [1..<m])"

definition toordinal :: "date \<Rightarrow> int" where
  "toordinal d = days_before_year (dyear d) + days_before_month (dyear d) (dmonth d) + int (dday d)"

text \<open>\<open>(a - b).days\<close>.\<close>

definition days_between :: "date \<Rightarrow> date \<Rightarrow> int" where
  "days_between a b = toordinal a - toordinal b"

text \<open>The date of a day number: the year first, then the month and the day within it.\<close>

definition year_of_ordinal :: "int \<Rightarrow> nat \<times> int" where
  "year_of_ordinal ord =
     (let n = ord - 1;
          n400 = n div 146097; n = n mod 146097;
          n100 = n div 36524; n = n mod 36524;
          n4 = n div 1461; n = n mod 1461;
          n1 = n div 365; n = n mod 365;
          y = n400 * 400 + n100 * 100 + n4 * 4 + n1 + 1
      in if n1 = 4 \<or> n100 = 4 then (nat (y - 1), 365) else (nat y, n))"

fun month_of_day :: "nat list \<Rightarrow> nat \<Rightarrow> int \<Rightarrow> nat \<times> int" where
  "month_of_day [] y n = (12, n)"
| "month_of_day (m # ms) y n =
     (if n < int (days_in_month y m) then (m, n) else month_of_day ms y (n - int (days_in_month y m)))"

definition fromordinal :: "int \<Rightarrow> date" where
  "fromordinal ord =
     (case year_of_ordinal ord of (y, n) \<Rightarrow>
      case month_of_day [1..<13] y n of (m, k) \<Rightarrow> Date y m (nat (k + 1)))"

definition zero_padded :: "nat \<Rightarrow> nat \<Rightarrow> string" where
  "zero_padded w n =
     (let s = string_of_digits (digits n) in replicate (w - length s) (CHR ''0'') @ s)"

definition date_isoformat :: "date \<Rightarrow> string" where
  "date_isoformat d = zero_padded 4 (dyear d) @ ''-'' @ zero_padded 2 (dmonth d) @ ''-'' @ zero_padded 2 (dday d)"


section \<open>Times\<close>

text \<open>A time of day with its offset from UTC in microseconds; a naive time has none.\<close>

record datetime =
  dt_date :: date
  dt_hour :: nat
  dt_minute :: nat
  dt_second :: nat
  dt_microsecond :: nat
  dt_utcoffset :: "int option"

definition valid_datetime :: "datetime \<Rightarrow> bool" where
  "valid_datetime t \<longleftrightarrow>
     valid_date (dt_date t) \<and> dt_hour t < 24 \<and> dt_minute t < 60 \<and> dt_second t < 60 \<and> dt_microsecond t < 1000000"

definition DAY_MICROSECONDS :: int where
  "DAY_MICROSECONDS = 86400000000"

definition microseconds :: "datetime \<Rightarrow> int" where
  "microseconds t =
     toordinal (dt_date t) * DAY_MICROSECONDS +
     ((int (dt_hour t) * 60 + int (dt_minute t)) * 60 + int (dt_second t)) * 1000000 + int (dt_microsecond t)"

definition MAX_ORDINAL :: int where
  "MAX_ORDINAL = 3652059"

definition utc_of_microseconds :: "int \<Rightarrow> datetime" where
  "utc_of_microseconds u =
     (let day = u div DAY_MICROSECONDS; r = u mod DAY_MICROSECONDS
      in \<lparr>dt_date = fromordinal day, dt_hour = nat (r div 3600000000), dt_minute = nat (r div 60000000 mod 60),
          dt_second = nat (r div 1000000 mod 60), dt_microsecond = nat (r mod 1000000), dt_utcoffset = Some 0\<rparr>)"

text \<open>\<open>t.astimezone(timezone.utc)\<close> of an aware time; a time in UTC is returned as it is.\<close>

definition to_utc :: "datetime \<Rightarrow> int \<Rightarrow> datetime result" where
  "to_utc t offset =
     (if offset = 0 then Ok t
      else
        let u = microseconds t - offset; day = u div DAY_MICROSECONDS
        in if day < 1 \<or> MAX_ORDINAL < day then raise OverflowError ''date value out of range''
           else Ok (utc_of_microseconds u))"

text \<open>\<open>isoformat(timespec="microseconds").replace("+00:00", "Z")\<close> of a time in UTC.\<close>

definition utc_text :: "datetime \<Rightarrow> string" where
  "utc_text t =
     date_isoformat (dt_date t) @ ''T'' @ zero_padded 2 (dt_hour t) @ '':'' @ zero_padded 2 (dt_minute t) @ '':'' @
     zero_padded 2 (dt_second t) @ ''.'' @ zero_padded 6 (dt_microsecond t) @ ''Z''"

end
