(* ===== verification/Canonical_Json.thy ===== *)
theory Canonical_Json
  imports Json Py_Date
begin

text \<open>
  Canonical JSON, the first part of \<open>finance_core/calculation/authoritative_snapshot.py\<close>: the
  normalization of Python objects, the versioned envelope, the check that a stored text is
  canonical, and the domain-separated digests computed over such texts. The canonical references
  and the timestamp normalization of \<open>financial_audit/chain.py\<close> are here too, since snapshots and
  audit events share them. On ASCII text Unicode normalization does nothing.

  SHA-256 and the standard library's reader of ISO 8601 texts are fields of a record of library
  functions that the definitions take as an argument.
\<close>

section \<open>Objects\<close>

text \<open>A key of a mapping is absent when it is not a string.\<close>

datatype py_object =
    ONone
  | OBool bool
  | OStr string
  | ODecimal py_decimal
  | OFloat
  | OInt int
  | ODatetime datetime
  | ODate date
  | OMap "(string option \<times> py_object) list"
  | OList "py_object list"
  | OOther

text \<open>Python dictionaries with string keys, and optional strings, as objects.\<close>

definition mapping_of :: "(string \<times> py_object) list \<Rightarrow> py_object" where
  "mapping_of kvs = OMap (map (\<lambda>(k, v). (Some k, v)) kvs)"

definition optional_str :: "string option \<Rightarrow> py_object" where
  "optional_str value = (case value of None \<Rightarrow> ONone | Some s \<Rightarrow> OStr s)"

record stdlib =
  sha256 :: digest
  fromisoformat :: "string \<Rightarrow> datetime option"

definition CANONICAL_JSON_CONTRACT_VERSION :: string where
  "CANONICAL_JSON_CONTRACT_VERSION = ''finance-canonical-json-v1''"

definition tagged :: "string \<Rightarrow> string \<Rightarrow> json" where
  "tagged tag s = JObj [(tag, JStr s)]"

definition normalize_datetime :: "datetime \<Rightarrow> json result" where
  "normalize_datetime t =
     (case dt_utcoffset t of
        None \<Rightarrow> raise CanonicalSerializationError ''datetime must be timezone-aware''
      | Some off \<Rightarrow> rbind (to_utc t off) (\<lambda>u. Ok (tagged ''$datetime'' (utc_text u))))"

fun normalize :: "py_object \<Rightarrow> json result"
  and normalize_items :: "(string \<times> json) list \<Rightarrow> (string option \<times> py_object) list \<Rightarrow> (string \<times> json) list result"
  and normalize_list :: "py_object list \<Rightarrow> json list result" where
  "normalize ONone = Ok JNull"
| "normalize (OBool b) = Ok (JBool b)"
| "normalize (OStr s) = Ok (JStr s)"
| "normalize (ODecimal x) =
     (case x of
        Finite d \<Rightarrow> rbind (canonical_decimal_str x) (\<lambda>s. Ok (tagged ''$decimal'' s))
      | _ \<Rightarrow> raise CanonicalSerializationError ''Decimal must be finite'')"
| "normalize OFloat = raise CanonicalSerializationError ''float is not supported in authoritative JSON''"
| "normalize (OInt n) = Ok (JInt n)"
| "normalize (ODatetime t) = normalize_datetime t"
| "normalize (ODate d) = Ok (tagged ''$date'' (date_isoformat d))"
| "normalize (OMap kvs) = rbind (normalize_items [] kvs) (\<lambda>r. Ok (JObj r))"
| "normalize (OList vs) = rbind (normalize_list vs) (\<lambda>r. Ok (JList r))"
| "normalize OOther = raise CanonicalSerializationError ''unsupported authoritative JSON value''"
| "normalize_items acc [] = Ok acc"
| "normalize_items acc ((k, v) # kvs) =
     (case k of
        None \<Rightarrow> raise CanonicalSerializationError ''mapping keys must be strings''
      | Some key \<Rightarrow>
          if dhas acc key then
            raise CanonicalSerializationError ''Unicode normalization produced duplicate keys''
          else rbind (normalize v) (\<lambda>j. normalize_items (acc @ [(key, j)]) kvs))"
| "normalize_list [] = Ok []"
| "normalize_list (v # vs) =
     rbind (normalize v) (\<lambda>j. rbind (normalize_list vs) (\<lambda>js. Ok (j # js)))"

definition envelope :: "json \<Rightarrow> json" where
  "envelope j = JObj [(''contract_version'', JStr CANONICAL_JSON_CONTRACT_VERSION), (''value'', j)]"

definition canonical_json_text :: "py_object \<Rightarrow> string result" where
  "canonical_json_text value = rbind (normalize value) (\<lambda>j. dumps (envelope j))"

definition canonical_json_bytes :: "py_object \<Rightarrow> bytes result" where
  "canonical_json_bytes value = rbind (canonical_json_text value) (\<lambda>t. Ok (encode t))"

text \<open>
  The check of a stored text, with the exception class of the caller's module. Its value is the
  parsed envelope, from which the caller may read on.
\<close>

definition verified_canonical :: "exc_class \<Rightarrow> string \<Rightarrow> json result" where
  "verified_canonical err value =
     (case loads value of
        None \<Rightarrow> raise err ''Stored payload is invalid JSON''
      | Some parsed \<Rightarrow>
          rbind (dumps parsed) (\<lambda>canonical.
            if canonical \<noteq> value then raise err ''Stored payload is not canonical JSON''
            else
              case parsed of
                JObj kvs \<Rightarrow>
                  if set (dkeys kvs) = {''contract_version'', ''value''} \<and>
                     dget kvs ''contract_version'' = Some (JStr CANONICAL_JSON_CONTRACT_VERSION)
                  then Ok parsed
                  else raise err ''Stored payload has an unsupported canonical JSON contract''
              | _ \<Rightarrow> raise err ''Stored payload has an unsupported canonical JSON contract''))"

definition canonical_json_value :: "string \<Rightarrow> json result" where
  "canonical_json_value payload_json =
     rbind (verified_canonical SnapshotVerificationError payload_json) (\<lambda>parsed.
       case parsed of JObj kvs \<Rightarrow> dlookup kvs ''value'' | _ \<Rightarrow> raise TypeError ''not a mapping'')"

definition domain_hash :: "stdlib \<Rightarrow> string \<Rightarrow> bytes \<Rightarrow> string" where
  "domain_hash lib domain payload = hexdigest (sha256 lib (encode domain @ [0] @ payload))"

definition canonical_references :: "exc_class \<Rightarrow> string list \<Rightarrow> string list result" where
  "canonical_references err values =
     (if list_ex (\<lambda>v. py_strip v = []) values then raise err ''source references must be non-empty strings''
      else
        let normalized = sort values in
        if \<not> distinct normalized then raise err ''source references must be unique'' else Ok normalized)"

definition replace_Z :: "string \<Rightarrow> string" where
  "replace_Z s = concat (map (\<lambda>c. if c = CHR ''Z'' then ''+00:00'' else [c]) s)"

definition aware_timestamp :: "stdlib \<Rightarrow> exc_class \<Rightarrow> string \<Rightarrow> (datetime \<times> int) result" where
  "aware_timestamp lib err value =
     (case fromisoformat lib (replace_Z value) of
        None \<Rightarrow> raise err ''created_at must be ISO 8601''
      | Some t \<Rightarrow>
          (case dt_utcoffset t of
             None \<Rightarrow> raise err ''created_at must be timezone-aware''
           | Some off \<Rightarrow> Ok (t, off)))"

definition normalize_timestamp :: "stdlib \<Rightarrow> string \<Rightarrow> string result" where
  "normalize_timestamp lib value =
     rbind (aware_timestamp lib AuditVerificationError value) (\<lambda>(t, off).
     rbind (to_utc t off) (\<lambda>u. Ok (utc_text u)))"

text \<open>A parsed JSON value as a Python object.\<close>

fun json_object :: "json \<Rightarrow> py_object" where
  "json_object JNull = ONone"
| "json_object (JBool b) = OBool b"
| "json_object (JInt n) = OInt n"
| "json_object (JStr s) = OStr s"
| "json_object (JList vs) = OList (map json_object vs)"
| "json_object (JObj kvs) = OMap (map (\<lambda>kv. (Some (fst kv), json_object (snd kv))) kvs)"
| "json_object _ = OFloat"

section \<open>ASCII texts\<close>

lemma ascii_digits [simp]: "ascii (string_of_digits (digits n))"
proof -
  have "char_digit c \<Longrightarrow> of_char c < (128 :: nat)" for c by (simp add: char_digit_def Let_def)
  then show ?thesis using digits_text(1) [of n] by (simp add: ascii_def list_all_iff)
qed

lemma ascii_sub [simp]: "ascii s \<Longrightarrow> ascii (take n s)" "ascii s \<Longrightarrow> ascii (drop n s)"
  by (auto simp: ascii_def list_all_iff dest: in_set_takeD in_set_dropD)

lemma ascii_replicate [simp]: "of_char c < (128 :: nat) \<Longrightarrow> ascii (replicate n c)"
  by (simp add: ascii_def list_all_iff)

lemma ascii_dates [simp]: "ascii (zero_padded w n)" "ascii (date_isoformat d)" "ascii (utc_text t)"
  by (simp_all add: zero_padded_def date_isoformat_def utc_text_def Let_def)

lemma string_of_digits_prefix: "string_of_digits (take n ds) = take n (string_of_digits ds)"
  by (simp add: string_of_digits_def take_map)

lemma ascii_canonical_decimal: "canonical_decimal_str x = Ok s \<Longrightarrow> ascii s"
  by (auto simp: canonical_decimal_str_def Let_def string_of_digits_prefix split: py_decimal.splits if_splits)

lemma ascii_escape:
  assumes "of_char c < (128 :: nat)"
  shows "ascii (escape_char a c)"
proof -
  have "\<forall>n \<in> set [0..<128]. \<forall>a \<in> set [True, False]. ascii (escape_char a (char_of n))" by code_simp
  then have "ascii (escape_char a (char_of n))" if "n < 128" for n :: nat using that by (cases a) auto
  from this [OF assms] show ?thesis by simp
qed

lemma ascii_quoted: "ascii s \<Longrightarrow> ascii (quoted a s)"
  by (induction s) (simp_all add: quoted_def ascii_escape)

lemma ascii_commas: "list_all ascii ts \<Longrightarrow> ascii (commas ts)"
  by (induction ts rule: commas.induct) simp_all

lemma ascii_json_text: "plain v \<Longrightarrow> ascii (json_text a v)"
proof (induction v rule: plain.induct)
  case (5 vs)
  then show ?case by (auto simp: list_all_iff intro!: ascii_commas)
next
  case (6 kvs)
  then show ?case by (auto simp: list_all_iff ascii_quoted intro!: ascii_commas)
qed (auto simp: ascii_quoted int_to_string_def)

text \<open>Objects whose texts are ASCII.\<close>

fun ascii_object :: "py_object \<Rightarrow> bool" where
  "ascii_object (OStr s) = ascii s"
| "ascii_object (OMap kvs) = list_all (\<lambda>kv. (case fst kv of None \<Rightarrow> True | Some k \<Rightarrow> ascii k) \<and> ascii_object (snd kv)) kvs"
| "ascii_object (OList vs) = list_all ascii_object vs"
| "ascii_object _ = True"

abbreviation plain_items :: "(string \<times> json) list \<Rightarrow> bool" where
  "plain_items kvs \<equiv> plain (JObj kvs)"

lemma plain_tagged [simp]: "ascii t \<Longrightarrow> ascii s \<Longrightarrow> plain (tagged t s)"
  by (simp add: tagged_def)

lemma normalize_plain:
  "normalize v = Ok j \<Longrightarrow> ascii_object v \<Longrightarrow> plain j"
  "normalize_items acc kvs = Ok r \<Longrightarrow> ascii_object (OMap kvs) \<Longrightarrow> plain_items acc \<Longrightarrow> plain_items r"
  "normalize_list vs = Ok js \<Longrightarrow> ascii_object (OList vs) \<Longrightarrow> plain (JList js)"
proof (induction v and acc kvs and vs arbitrary: j and r and js rule: normalize_normalize_items_normalize_list.induct)
  case (4 x)
  then show ?case by (auto simp: result_simps ascii_canonical_decimal split: py_decimal.splits)
next
  case (7 t)
  then show ?case by (auto simp: normalize_datetime_def result_simps split: option.splits)
next
  case (13 acc k v kvs)
  then show ?case by (auto simp: result_simps dhas_def split: option.splits if_splits)
qed (auto simp: result_simps)

lemma plain_envelope [simp]: "plain (envelope j) \<longleftrightarrow> plain j"
proof -
  have "ascii ''contract_version''" "ascii ''value''" "ascii CANONICAL_JSON_CONTRACT_VERSION" by code_simp+
  then show ?thesis by (simp add: envelope_def)
qed

section \<open>Canonical texts\<close>

lemma sort_envelope: "sort_keys (envelope j) = envelope (sort_keys j)"
  by (simp add: envelope_def)

lemma canonical_json_text_Ok:
  assumes "canonical_json_text v = Ok t" and "ascii_object v"
  obtains j where "normalize v = Ok j" and "plain j" and "dumps (envelope j) = Ok t"
    and "loads t = Some (envelope (sort_keys j))"
proof -
  from assms(1) obtain j where j: "normalize v = Ok j" "dumps (envelope j) = Ok t"
    by (auto simp: canonical_json_text_def result_simps)
  have p: "plain j" by (rule normalize_plain(1) [OF j(1) assms(2)])
  then show thesis using that j loads_dumps [of "envelope j" t] by (simp add: sort_envelope)
qed

lemma ascii_hex: "list_all (\<lambda>c. c \<in> set ''0123456789abcdef'') h \<Longrightarrow> ascii h"
proof -
  have "\<forall>c \<in> set ''0123456789abcdef''. of_char c < (128 :: nat)" by code_simp
  then show "list_all (\<lambda>c. c \<in> set ''0123456789abcdef'') h \<Longrightarrow> ascii h" by (auto simp: ascii_def list_all_iff simp del: list.set)
qed

lemma ascii_canonical_text:
  assumes "canonical_json_text v = Ok t" and "ascii_object v"
  shows "ascii t"
proof -
  obtain j where "plain j" "dumps (envelope j) = Ok t" by (rule canonical_json_text_Ok [OF assms]) (rule that)
  then show ?thesis using ascii_json_text [of "sort_keys (envelope j)"] plain_sort_keys [of "envelope j"]
    by (auto simp: dumps_plain)
qed

lemma verified_envelope:
  assumes "loads t = Some (envelope j)" and "dumps (envelope j) = Ok t"
  shows "verified_canonical err t = Ok (envelope j)"
  using assms by (auto simp: verified_canonical_def envelope_def dkeys_def dget_def)

lemma canonical_json_verified:
  assumes "canonical_json_text v = Ok t" and "ascii_object v" and "normalize v = Ok j"
  shows "verified_canonical err t = Ok (envelope (sort_keys j))"
proof -
  have "loads t = Some (envelope (sort_keys j))" "dumps (envelope j) = Ok t"
    using canonical_json_text_Ok [OF assms(1,2)] assms(3) by auto
  moreover have "dumps (envelope (sort_keys j)) = Ok t"
    using calculation(2) dumps_sort_keys [of "envelope j"] by (simp add: sort_envelope)
  ultimately show ?thesis by (intro verified_envelope)
qed

lemma canonical_json_text_plain:
  assumes "normalize v = Ok j" and "ascii_object v"
  shows "canonical_json_text v = Ok (json_text False (envelope (sort_keys j)))"
  using assms normalize_plain(1) by (simp add: canonical_json_text_def dumps_plain sort_envelope)

section \<open>Dictionaries of simple values\<close>

text \<open>
  The objects that always have a normal form: no decimals, no dates, no nested dictionaries. The
  dictionaries that are hashed have such values.
\<close>

fun simple :: "py_object \<Rightarrow> bool" where
  "simple ONone = True"
| "simple (OBool b) = True"
| "simple (OStr s) = True"
| "simple (OInt n) = True"
| "simple (OList vs) = list_all simple vs"
| "simple _ = False"

fun simple_json :: "py_object \<Rightarrow> json" where
  "simple_json (OBool b) = JBool b"
| "simple_json (OStr s) = JStr s"
| "simple_json (OInt n) = JInt n"
| "simple_json (OList vs) = JList (map simple_json vs)"
| "simple_json _ = JNull"

lemma normalize_simple [simp]: "simple v \<Longrightarrow> normalize v = Ok (simple_json v)"
proof (induction v rule: simple.induct)
  case (5 vs)
  have "list_all simple us \<Longrightarrow> set us \<subseteq> set vs \<Longrightarrow> normalize_list us = Ok (map simple_json us)" for us
    by (induction us) (simp_all add: 5)
  then show ?case using 5 by simp
qed simp_all

lemma sort_simple [simp]: "sort_keys (simple_json v) = simple_json v"
  by (induction v rule: simple_json.induct) (simp_all add: map_idI)

lemma simple_json_inject: "simple v \<Longrightarrow> simple w \<Longrightarrow> simple_json v = simple_json w \<longleftrightarrow> v = w"
proof (induction v arbitrary: w rule: simple.induct)
  case (5 vs)
  have "list_all simple us \<Longrightarrow> list_all simple ws \<Longrightarrow> set us \<subseteq> set vs \<Longrightarrow>
    map simple_json us = map simple_json ws \<longleftrightarrow> us = ws" for us ws
    by (induction us ws rule: list_induct2') (auto simp: 5)
  then show ?case using 5 by (cases w) auto
next
  case 1
  then show ?case by (cases w) auto
next
  case (2 b)
  then show ?case by (cases w) auto
next
  case (3 s)
  then show ?case by (cases w) auto
next
  case (4 n)
  then show ?case by (cases w) auto
qed simp_all

lemma simple_optional_str [simp]: "simple (optional_str v)"
  by (simp add: optional_str_def split: option.splits)

lemma optional_str_inject [simp]: "optional_str v = optional_str w \<longleftrightarrow> v = w"
  by (auto simp: optional_str_def split: option.splits)

lemma simple_strs [simp]: "simple (OList (map OStr ss))"
  by (simp add: list_all_iff)

abbreviation simple_items :: "(string \<times> py_object) list \<Rightarrow> bool" where
  "simple_items kvs \<equiv> distinct (map fst kvs) \<and> list_all (\<lambda>kv. simple (snd kv)) kvs"

abbreviation ascii_items :: "(string \<times> py_object) list \<Rightarrow> bool" where
  "ascii_items kvs \<equiv> list_all (\<lambda>kv. ascii (fst kv) \<and> ascii_object (snd kv)) kvs"

lemma normalize_mapping:
  assumes "simple_items kvs"
  shows "normalize (mapping_of kvs) = Ok (JObj (map (\<lambda>(k, v). (k, simple_json v)) kvs))"
proof -
  have "normalize_items acc (map (\<lambda>(k, v). (Some k, v)) us) = Ok (acc @ map (\<lambda>(k, v). (k, simple_json v)) us)"
    if "simple_items us" and "fst ` set acc \<inter> fst ` set us = {}" for acc us
    using that
  proof (induction us arbitrary: acc)
    case (Cons kv us)
    obtain k v where kv: "kv = (k, v)" by (cases kv)
    have "\<not> dhas acc k" using Cons.prems kv by (auto simp: dhas_def dget_def map_of_eq_None_iff)
    moreover have "fst ` set (acc @ [(k, simple_json v)]) \<inter> fst ` set us = {}" using Cons.prems kv by auto
    moreover have "simple_items us" using Cons.prems by auto
    ultimately show ?case using Cons.IH [of "acc @ [(k, simple_json v)]"] Cons.prems kv by simp
  qed simp
  then show ?thesis using assms by (simp add: mapping_of_def)
qed

lemma sort_key_fst_inject:
  fixes xs ys :: "('a :: linorder \<times> 'b) list"
  assumes "sort_key fst xs = sort_key fst ys" and "map fst xs = map fst ys" and "distinct (map fst xs)"
  shows "xs = ys"
proof -
  have "set xs = set ys" using assms(1) by (metis set_sort)
  then have m: "map_of xs = map_of ys" using assms(2,3) by (metis map_of_inject_set)
  have "zs = map (\<lambda>k. (k, the (map_of zs k))) (map fst zs)" if "distinct (map fst zs)" for zs :: "('a \<times> 'b) list"
  proof (rule nth_equalityI)
    fix i assume i: "i < length zs"
    then have "map_of zs (fst (zs ! i)) = Some (snd (zs ! i))" using that by (intro map_of_is_SomeI) simp_all
    then show "zs ! i = map (\<lambda>k. (k, the (map_of zs k))) (map fst zs) ! i" using i by (simp add: prod_eq_iff)
  qed simp
  then show ?thesis using m assms(2,3) by metis
qed

lemma ascii_mapping: "ascii_object (mapping_of kvs) \<longleftrightarrow> ascii_items kvs"
  by (simp add: mapping_of_def list_all_iff split_beta)

lemma mapping_text_Ok:
  "simple_items kvs \<Longrightarrow> ascii_items kvs \<Longrightarrow> \<exists>t. canonical_json_text (mapping_of kvs) = Ok t"
  using canonical_json_text_plain [OF normalize_mapping] ascii_mapping by blast

lemma mapping_text_inject:
  assumes "simple_items kvs" and "simple_items us" and "ascii_items kvs" and "ascii_items us"
    and "map fst kvs = map fst us"
    and "canonical_json_text (mapping_of kvs) = canonical_json_text (mapping_of us)"
  shows "kvs = us"
proof -
  let ?j = "\<lambda>kvs. map (\<lambda>(k, v). (k, simple_json v)) kvs"
  have p: "plain (envelope (JObj (?j kvs)))" "plain (envelope (JObj (?j us)))"
    using normalize_plain(1) [OF normalize_mapping] assms ascii_mapping by simp_all
  have s: "map (\<lambda>kv. (fst kv, sort_keys (snd kv))) (?j ws) = ?j ws" for ws by (simp add: split_beta)
  have f: "map fst (?j ws) = map fst ws" for ws by (simp add: split_beta)
  have "sort_keys (JObj (?j kvs)) = sort_keys (JObj (?j us))"
    using assms(6) dumps_inject [OF p]
    by (simp add: canonical_json_text_def normalize_mapping assms(1,2) sort_envelope) (simp add: envelope_def)
  then have "sort_key fst (?j kvs) = sort_key fst (?j us)" by (simp only: sort_keys.simps s json.inject)
  then have e: "?j kvs = ?j us" using sort_key_fst_inject assms(1,5) f by metis
  then have l: "length kvs = length us" by (metis length_map)
  show ?thesis
  proof (rule nth_equalityI [OF l])
    fix i assume i: "i < length kvs"
    then have "(fst (kvs ! i), simple_json (snd (kvs ! i))) = (fst (us ! i), simple_json (snd (us ! i)))"
      using arg_cong [OF e, of "\<lambda>xs. xs ! i"] l by (simp add: split_beta)
    moreover have "simple (snd (kvs ! i))" "simple (snd (us ! i))" using assms(1,2) i l by (auto simp: list_all_length)
    ultimately show "kvs ! i = us ! i" using simple_json_inject by (simp add: prod_eq_iff)
  qed
qed

section \<open>Nested mappings\<close>

fun structured :: "py_object \<Rightarrow> bool" where
  "structured (OList vs) = list_all structured vs"
| "structured (OMap kvs) \<longleftrightarrow> distinct (map fst kvs) \<and> list_all (\<lambda>kv. fst kv \<noteq> None \<and> structured (snd kv)) kvs"
| "structured v = simple v"

fun object_json :: "py_object \<Rightarrow> json" where
  "object_json (OList vs) = JList (map object_json vs)"
| "object_json (OMap kvs) = JObj (map (\<lambda>kv. (the (fst kv), object_json (snd kv))) kvs)"
| "object_json v = simple_json v"

lemma simple_structured: "simple v \<Longrightarrow> structured v"
  by (induction v rule: simple.induct) (auto simp: list_all_iff)

lemma simple_object_json: "simple v \<Longrightarrow> object_json v = simple_json v"
  by (induction v rule: simple.induct) (auto simp: list_all_iff)

lemma structured_mapping:
  "structured (mapping_of kvs) \<longleftrightarrow> distinct (map fst kvs) \<and> list_all (\<lambda>kv. structured (snd kv)) kvs"
  by (auto simp: mapping_of_def list_all_iff split_beta distinct_map comp_def inj_on_def)

lemma object_json_mapping: "object_json (mapping_of kvs) = JObj (map (\<lambda>kv. (fst kv, object_json (snd kv))) kvs)"
  by (simp add: mapping_of_def split_beta comp_def)

lemma normalize_structured: "structured v \<Longrightarrow> normalize v = Ok (object_json v)"
proof (induction v rule: structured.induct)
  case (1 vs)
  have "list_all structured us \<Longrightarrow> set us \<subseteq> set vs \<Longrightarrow> normalize_list us = Ok (map object_json us)" for us
    by (induction us) (simp_all add: 1)
  then show ?case using 1 by simp
next
  case (2 kvs)
  have "normalize_items acc us = Ok (acc @ map (\<lambda>kv. (the (fst kv), object_json (snd kv))) us)"
    if "structured (OMap us)" and "set us \<subseteq> set kvs" and "Some ` fst ` set acc \<inter> fst ` set us = {}" for acc us
    using that
  proof (induction us arbitrary: acc)
    case (Cons kv us)
    obtain k v where kv: "kv = (Some k, v)" using Cons.prems by (cases kv) auto
    have "normalize v = Ok (object_json v)" using 2(1) [of kv] Cons.prems kv by auto
    moreover have "\<not> dhas acc k" using Cons.prems kv by (auto simp: dhas_def dget_def map_of_eq_None_iff)
    moreover have "Some ` fst ` set (acc @ [(k, object_json v)]) \<inter> fst ` set us = {}" using Cons.prems kv by auto
    ultimately show ?case using Cons.IH [of "acc @ [(k, object_json v)]"] Cons.prems kv by simp
  qed simp
  then show ?case using 2(2) by (simp del: structured.simps(2))
qed simp_all

lemma finite_object_json: "\<not> non_finite (object_json v)"
proof (induction v rule: object_json.induct)
  case (1 vs)
  then show ?case by (auto simp: list_ex_iff)
next
  case (2 kvs)
  then show ?case by (fastforce simp: list_ex_iff)
qed simp_all

lemma structured_text: "structured v \<Longrightarrow> canonical_json_text v = Ok (json_text False (sort_keys (envelope (object_json v))))"
  by (simp add: canonical_json_text_def normalize_structured dumps_def envelope_def finite_object_json)

section \<open>Objects read from JSON\<close>

lemma normalize_json_object: "plain j \<Longrightarrow> normalize (json_object j) = Ok j"
proof (induction j rule: plain.induct)
  case (5 vs)
  have "list_all plain us \<Longrightarrow> set us \<subseteq> set vs \<Longrightarrow> normalize_list (map json_object us) = Ok us" for us
    by (induction us) (simp_all add: 5)
  then show ?case using 5 by simp
next
  case (6 kvs)
  have "normalize_items acc (map (\<lambda>kv. (Some (fst kv), json_object (snd kv))) us) = Ok (acc @ us)"
    if "set us \<subseteq> set kvs" and "distinct (map fst us)" and "fst ` set acc \<inter> fst ` set us = {}" for acc us
    using that
  proof (induction us arbitrary: acc)
    case (Cons kv us)
    obtain k v where kv: "kv = (k, v)" by (cases kv)
    have "normalize (json_object v) = Ok v" using 6 Cons.prems(1) kv by (force simp: list_all_iff)
    moreover have "\<not> dhas acc k" using Cons.prems kv by (auto simp: dhas_def dget_def map_of_eq_None_iff)
    moreover have "fst ` set (acc @ [(k, v)]) \<inter> fst ` set us = {}" using Cons.prems kv by auto
    moreover have "set us \<subseteq> set kvs" "distinct (map fst us)" using Cons.prems by auto
    ultimately show ?case using Cons.IH [of "acc @ [(k, v)]"] kv by simp
  qed simp
  from this [of kvs "[]"] show ?case using 6 by simp
qed simp_all

lemma ascii_json_object: "plain j \<Longrightarrow> ascii_object (json_object j)"
  by (induction j rule: plain.induct) (auto simp: list_all_iff)

lemma json_text_inject: "plain v \<Longrightarrow> plain w \<Longrightarrow> json_text a v = json_text a w \<longleftrightarrow> v = w"
  using loads_text by (metis option.inject)

section \<open>What the texts of nested mappings determine\<close>

lemma structured_simple_items: "simple_items kvs \<Longrightarrow> structured (mapping_of kvs)"
  by (auto simp: structured_mapping list_all_iff simple_structured)

lemma sort_mapping_fields:
  assumes "structured (mapping_of kvs)" and "map fst kvs = map fst us"
    and "sort_keys (object_json (mapping_of kvs)) = sort_keys (object_json (mapping_of us))"
  shows "map (\<lambda>kv. sort_keys (object_json (snd kv))) kvs = map (\<lambda>kv. sort_keys (object_json (snd kv))) us"
proof -
  let ?j = "map (\<lambda>kv. (fst kv, sort_keys (object_json (snd kv))))"
  have f: "map fst (?j ws) = map fst ws" for ws :: "(string \<times> py_object) list" by simp
  have "sort_key fst (?j kvs) = sort_key fst (?j us)"
    using assms(3) by (simp add: object_json_mapping comp_def)
  moreover have "distinct (map fst (?j kvs))" using assms(1) unfolding f structured_mapping by blast
  moreover have "map fst (?j kvs) = map fst (?j us)" unfolding f by (rule assms(2))
  ultimately have "?j kvs = ?j us" by (metis (no_types) sort_key_fst_inject)
  then have "map snd (?j kvs) = map snd (?j us)" by (rule arg_cong)
  then show ?thesis by (simp add: comp_def)
qed

lemma structured_text_inject:
  assumes "structured v" and "structured w" and "ascii_object v" and "ascii_object w"
    and "canonical_json_text v = canonical_json_text w"
  shows "sort_keys (object_json v) = sort_keys (object_json w)"
proof -
  have p: "plain (sort_keys (envelope (object_json v)))" "plain (sort_keys (envelope (object_json w)))"
    using assms normalize_plain(1) [OF normalize_structured] plain_sort_keys by simp_all
  have "sort_keys (envelope (object_json v)) = sort_keys (envelope (object_json w))"
    using assms(5) json_text_inject [OF p] by (simp add: structured_text assms(1,2))
  then show ?thesis by (simp add: envelope_def)
qed

lemma sort_simple_inject:
  "simple v \<Longrightarrow> simple w \<Longrightarrow> sort_keys (object_json v) = sort_keys (object_json w) \<longleftrightarrow> v = w"
  by (simp add: simple_object_json simple_json_inject)

lemma simple_mapping_inject:
  assumes "simple_items kvs" and "simple_items us" and "map fst kvs = map fst us"
    and "sort_keys (object_json (mapping_of kvs)) = sort_keys (object_json (mapping_of us))"
  shows "kvs = us"
proof -
  have m: "map (\<lambda>kv. sort_keys (object_json (snd kv))) kvs = map (\<lambda>kv. sort_keys (object_json (snd kv))) us"
    using assms by (intro sort_mapping_fields structured_simple_items) simp_all
  have l: "length kvs = length us" using assms(3) by (metis length_map)
  show ?thesis
  proof (rule nth_equalityI [OF l])
    fix i assume i: "i < length kvs"
    then have "simple (snd (kvs ! i))" "simple (snd (us ! i))" using assms(1,2) l by (auto simp: list_all_length)
    moreover have "sort_keys (object_json (snd (kvs ! i))) = sort_keys (object_json (snd (us ! i)))"
      using arg_cong [OF m, of "\<lambda>xs. xs ! i"] i l by simp
    moreover have "fst (kvs ! i) = fst (us ! i)" using arg_cong [OF assms(3), of "\<lambda>xs. xs ! i"] i l by simp
    ultimately show "kvs ! i = us ! i" by (simp add: prod_eq_iff sort_simple_inject)
  qed
qed

section \<open>Properties\<close>

text \<open>
  C17 Canonical text is read back. The canonical text of an object passes the check of stored texts
  and carries the object's normal form with sorted keys.
\<close>

theorem canonical_json_round_trip:
  assumes "canonical_json_text v = Ok t" and "ascii_object v"
  shows "\<exists>j. normalize v = Ok j \<and> canonical_json_value t = Ok (sort_keys j)"
proof -
  obtain j where j: "normalize v = Ok j" using canonical_json_text_Ok [OF assms] by metis
  then show ?thesis
    using canonical_json_verified [OF assms j] by (simp add: canonical_json_value_def envelope_def dlookup_def)
qed

text \<open>
  C18 Canonical text determines the value. Two objects have the same canonical text exactly when
  their normal forms agree up to the order of keys, so that a digest of the text commits to the
  value.
\<close>

theorem canonical_json_injective:
  assumes "normalize v = Ok j" and "normalize w = Ok k" and "ascii_object v" and "ascii_object w"
  shows "canonical_json_text v = canonical_json_text w \<longleftrightarrow> sort_keys j = sort_keys k"
proof -
  have "plain (envelope j)" "plain (envelope k)" using assms normalize_plain(1) by auto
  then have "dumps (envelope j) = dumps (envelope k) \<longleftrightarrow> envelope (sort_keys j) = envelope (sort_keys k)"
    using dumps_inject by (simp add: sort_envelope)
  then show ?thesis using assms(1,2) by (simp add: canonical_json_text_def envelope_def)
qed

definition sample_object :: py_object where
  "sample_object = OMap [(Some ''total'', ODecimal (Finite (Dec False 1050 (- 2)))),
     (Some ''paid_on'', ODate (Date 2024 2 29)), (Some ''items'', OList [OInt 3, ONone, OBool True])]"

lemma sample_normal:
  "normalize sample_object = Ok (JObj [(''total'', JObj [(''$decimal'', JStr ''10.5'')]),
     (''paid_on'', JObj [(''$date'', JStr ''2024-02-29'')]), (''items'', JList [JInt 3, JNull, JBool True])])"
  by code_simp

lemma sample_ascii: "ascii_object sample_object" by code_simp

theorem canonical_json_round_trip_witness:
  "\<exists>t j. canonical_json_text sample_object = Ok t \<and> canonical_json_value t = Ok (sort_keys j)"
  using canonical_json_text_plain [OF sample_normal sample_ascii]
    canonical_json_round_trip [OF canonical_json_text_plain [OF sample_normal sample_ascii] sample_ascii] by blast

theorem canonical_json_injective_witness:
  "normalize sample_object \<noteq> normalize (OMap [(Some ''b'', OInt 1), (Some ''a'', OInt 2)]) \<and>
   canonical_json_text (OMap [(Some ''b'', OInt 1), (Some ''a'', OInt 2)]) =
   canonical_json_text (OMap [(Some ''a'', OInt 2), (Some ''b'', OInt 1)])"
proof -
  have n: "normalize (OMap [(Some ''b'', OInt 1), (Some ''a'', OInt 2)]) = Ok (JObj [(''b'', JInt 1), (''a'', JInt 2)])"
    "normalize (OMap [(Some ''a'', OInt 2), (Some ''b'', OInt 1)]) = Ok (JObj [(''a'', JInt 2), (''b'', JInt 1)])"
    by code_simp+
  moreover have "sort_keys (JObj [(''b'', JInt 1), (''a'', JInt 2)]) = sort_keys (JObj [(''a'', JInt 2), (''b'', JInt 1)])"
    by code_simp
  moreover have "ascii_object (OMap [(Some ''b'', OInt 1), (Some ''a'', OInt 2)])"
    "ascii_object (OMap [(Some ''a'', OInt 2), (Some ''b'', OInt 1)])" by code_simp+
  ultimately show ?thesis using canonical_json_injective [OF n] by (simp add: sample_normal)
qed

text \<open>A concrete library for the examples: a toy digest of the right shape and one readable timestamp.\<close>

definition sample_time :: string where
  "sample_time = ''2024-05-01T10:00:00.000000Z''"

definition sample_lib :: stdlib where
  "sample_lib =
     \<lparr>sha256 = (\<lambda>m. replicate 32 (sum_list m mod 256)),
      fromisoformat = (\<lambda>s.
        if s = ''2024-05-01T10:00:00.000000+00:00''
        then Some \<lparr>dt_date = Date 2024 5 1, dt_hour = 10, dt_minute = 0, dt_second = 0, dt_microsecond = 0,
          dt_utcoffset = Some 0\<rparr>
        else None)\<rparr>"

lemma sample_shape: "digest_shape (sha256 sample_lib)"
  by (simp add: digest_shape_def sample_lib_def)

end
