(* ===== verification/Transactions.thy ===== *)
theory Transactions
  imports Prelude
begin

text \<open>
  Database connections with explicit transactions. A connection holds the tables it sees, the tables
  to go back to when a transaction is open, the outcome of the admission check for writing, which
  depends on locks and files of the process, and the outcomes of BEGIN and COMMIT, which depend on the
  locks of other connections and on the disk. Access by other connections in between is not modelled:
  writes run inside a write transaction.

  An operation returns the connection in all cases, with its result or with the exception: what was
  written before an exception stays in the open transaction until it is rolled back. Services that own
  their transaction share one shape: check admission and that no transaction is pending, begin, run a
  body, commit, and roll back when the body or the commit raises.
\<close>

text \<open>
  A failing COMMIT leaves the transaction open (another connection holds a lock) or SQLite has already
  rolled it back (the disk is full).
\<close>

datatype commit_outcome = Commits | Stays_Open py_error | Rolls_Back py_error

record 't connection =
  write_admission :: "unit result"
  begin_outcome :: "unit result"
  commit_outcome :: commit_outcome
  tables :: 't
  rollback_tables :: "'t option"

abbreviation in_transaction :: "'t connection \<Rightarrow> bool" where
  "in_transaction conn \<equiv> rollback_tables conn \<noteq> None"

type_synonym ('t, 'r) effect = "'t connection \<times> 'r result"

text \<open>The next step runs on the connection that the step before it left, unless that one raised.\<close>

definition ebind :: "('t, 'a) effect \<Rightarrow> ('t connection \<Rightarrow> 'a \<Rightarrow> ('t, 'b) effect) \<Rightarrow> ('t, 'b) effect" where
  "ebind m k = (case m of (conn, Inl e) \<Rightarrow> (conn, Inl e) | (conn, Inr x) \<Rightarrow> k conn x)"

definition begin_immediate :: "'t connection \<Rightarrow> ('t, unit) effect" where
  "begin_immediate conn =
     (case begin_outcome conn of
        Inl e \<Rightarrow> (conn, Inl e)
      | Inr _ \<Rightarrow> (conn\<lparr>rollback_tables := Some (tables conn)\<rparr>, Ok ()))"

definition rollback :: "'t connection \<Rightarrow> 't connection" where
  "rollback conn =
     (case rollback_tables conn of
        None \<Rightarrow> conn
      | Some saved \<Rightarrow> conn\<lparr>tables := saved, rollback_tables := None\<rparr>)"

definition commit :: "'t connection \<Rightarrow> ('t, unit) effect" where
  "commit conn =
     (case commit_outcome conn of
        Commits \<Rightarrow> (conn\<lparr>rollback_tables := None\<rparr>, Ok ())
      | Stays_Open e \<Rightarrow> (conn, Inl e)
      | Rolls_Back e \<Rightarrow> (rollback conn, Inl e))"

definition own_transaction ::
  "py_error \<Rightarrow> ('t connection \<Rightarrow> ('t, 'r) effect) \<Rightarrow> 't connection \<Rightarrow> ('t, 'r) effect" where
  "own_transaction busy body conn =
     ebind (conn, write_admission conn) (\<lambda>conn _.
     if in_transaction conn then (conn, Inl busy)
     else
       ebind (begin_immediate conn) (\<lambda>conn _.
       case ebind (body conn) (\<lambda>conn r. ebind (commit conn) (\<lambda>conn _. (conn, Ok r))) of
         (conn, Inl e) \<Rightarrow> (if in_transaction conn then rollback conn else conn, Inl e)
       | (conn, Inr r) \<Rightarrow> (conn, Ok r)))"

lemma ebind_simps [simp]:
  "ebind (conn, Inl e) k = (conn, Inl e)" "ebind (conn, Inr x) k = k conn x"
  by (simp_all add: ebind_def)

lemma ebind_Ok_iff [result_simps]:
  "ebind m k = (conn, Inr y) \<longleftrightarrow> (\<exists>c x. m = (c, Inr x) \<and> k c x = (conn, Inr y))"
  by (auto simp: ebind_def split: prod.splits sum.splits)

text \<open>What every step keeps of the connection, the whole sequence keeps.\<close>

lemma ebind_keeps:
  assumes "P (fst m)" and "\<And>c x. m = (c, Inr x) \<Longrightarrow> P (fst (k c x))"
  shows "P (fst (ebind m k))"
  using assms by (auto simp: ebind_def split: prod.splits sum.splits)

abbreviation begun :: "'t connection \<Rightarrow> 't connection" where
  "begun conn \<equiv> conn\<lparr>rollback_tables := Some (tables conn)\<rparr>"

abbreviation closed :: "'t connection \<Rightarrow> 't connection" where
  "closed conn \<equiv> conn\<lparr>rollback_tables := None\<rparr>"

lemma rollback_begun: "\<not> in_transaction conn \<Longrightarrow> rollback ((begun conn)\<lparr>tables := t\<rparr>) = conn"
  by (cases conn) (simp add: rollback_def)

lemma own_transaction_refused:
  assumes "\<not> (write_admission conn = Ok () \<and> \<not> in_transaction conn \<and> begin_outcome conn = Ok ())"
  obtains e where "own_transaction busy body conn = (conn, Inl e)"
proof (cases "write_admission conn")
  case (Inl e)
  then show ?thesis by (intro that) (simp add: own_transaction_def)
next
  case adm: (Inr u)
  show ?thesis
  proof (cases "in_transaction conn")
    case True
    then show ?thesis using adm by (intro that) (simp add: own_transaction_def)
  next
    case False
    then obtain e where "begin_outcome conn = Inl e" using assms adm by (cases "begin_outcome conn") auto
    then show ?thesis using adm False by (intro that) (simp add: own_transaction_def begin_immediate_def)
  qed
qed

lemma own_transaction_begun:
  assumes "write_admission conn = Ok ()" and "\<not> in_transaction conn" and "begin_outcome conn = Ok ()"
  shows "own_transaction busy body conn =
    (case ebind (body (begun conn)) (\<lambda>conn r. ebind (commit conn) (\<lambda>conn _. (conn, Ok r))) of
       (conn, Inl e) \<Rightarrow> (if in_transaction conn then rollback conn else conn, Inl e)
     | (conn, Inr r) \<Rightarrow> (conn, Ok r))"
  using assms by (simp add: own_transaction_def begin_immediate_def del: not_None_eq)

text \<open>
  What a service needs of its body: whether it returns or raises, it has only changed tables. Then the
  service is all or nothing.
\<close>

locale transaction_body =
  fixes body :: "'t connection \<Rightarrow> ('t, 'r) effect"
  assumes body_changes_tables: "\<exists>t. fst (body conn) = conn\<lparr>tables := t\<rparr>"
begin

lemma body_result: obtains t r where "body conn = (conn\<lparr>tables := t\<rparr>, r)"
  using body_changes_tables [of conn] by (cases "body conn") auto

lemma all_or_nothing:
  "case own_transaction busy body conn of
     (conn', Inl err) \<Rightarrow> conn' = conn
   | (conn', Inr r) \<Rightarrow>
       \<not> in_transaction conn \<and> write_admission conn = Ok () \<and> \<not> in_transaction conn' \<and> write_admission conn' = Ok () \<and>
       conn' = conn\<lparr>tables := tables conn'\<rparr> \<and>
       body (begun conn) = ((begun conn)\<lparr>tables := tables conn'\<rparr>, Ok r)"
proof (cases "write_admission conn = Ok () \<and> \<not> in_transaction conn \<and> begin_outcome conn = Ok ()")
  case False
  then obtain e where "own_transaction busy body conn = (conn, Inl e)" by (rule own_transaction_refused)
  then show ?thesis by simp
next
  case True
  then have own: "own_transaction busy body conn =
    (case ebind (body (begun conn)) (\<lambda>conn r. ebind (commit conn) (\<lambda>conn _. (conn, Ok r))) of
       (conn, Inl e) \<Rightarrow> (if in_transaction conn then rollback conn else conn, Inl e)
     | (conn, Inr r) \<Rightarrow> (conn, Ok r))" by (intro own_transaction_begun) simp_all
  obtain t r where b: "body (begun conn) = ((begun conn)\<lparr>tables := t\<rparr>, r)" by (rule body_result)
  have rb: "rollback ((begun conn)\<lparr>tables := t\<rparr>) = conn" using True by (intro rollback_begun) simp
  show ?thesis
  proof (cases r)
    case (Inl e)
    then show ?thesis unfolding own b by (simp add: rb)
  next
    case (Inr x)
    show ?thesis
    proof (cases "commit_outcome conn")
      case Commits
      have "(begun conn)\<lparr>tables := t, rollback_tables := None\<rparr> = conn\<lparr>tables := t\<rparr>" using True by (cases conn) simp
      then show ?thesis using True Inr Commits unfolding own b by (simp add: commit_def)
    next
      case (Stays_Open e)
      then show ?thesis using Inr unfolding own b by (simp add: commit_def rb)
    next
      case (Rolls_Back e)
      then show ?thesis using Inr True unfolding own b by (simp add: commit_def rb)
    qed
  qed
qed

end

end
