(* ===== verification/Audit_Chain.thy ===== *)
theory Audit_Chain
  imports Canonical_Json Transactions
begin

text \<open>
  The append-only audit chains of \<open>finance_core/financial_audit/chain.py\<close>: commands, events, the
  rows of the table \<open>financial_audit_events\<close> with its identities and checks (migrations 025 and
  035), the repository, the verification of a chain and the two ways of appending to it.

  An append runs inside a transaction of its caller, or in one of its own.
\<close>

section \<open>Commands, events and rows\<close>

text \<open>
  The source evidence references are a list in commands and events, and a JSON text in rows.
\<close>

record 'r audit_fields =
  event_public_id :: string
  audit_schema_version :: string
  aggregate_type :: string
  aggregate_public_id :: string
  event_type :: string
  actor_type :: string
  actor_public_id :: string
  authorization_public_id :: "string option"
  calculation_snapshot_public_id :: "string option"
  calculation_snapshot_hash :: "string option"
  source_evidence_references :: 'r
  correlation_public_id :: string
  causation_public_id :: string
  created_at :: string

record audit_event_command = "string list audit_fields" +
  event_payload :: py_object
  new_state :: py_object
  previous_state :: "py_object option"
  expected_previous_event_hash :: "string option"

record 'r audit_columns = "'r audit_fields" +
  event_payload_json :: string
  previous_state_json :: string
  new_state_json :: string
  previous_state_hash :: string
  new_state_hash :: string
  previous_event_hash :: string
  event_hash :: string
  sequence_number :: int

type_synonym financial_audit_event = "string list audit_columns"
type_synonym audit_row = "string audit_columns"

record audit_chain_verification =
  valid :: bool
  chain_aggregate_type :: string
  chain_aggregate_public_id :: string
  event_count :: int
  first_invalid_event_public_id :: "string option"
  first_invalid_sequence_number :: "int option"
  reason :: "string option"
  legacy_without_chain :: bool

record tables =
  financial_audit_events :: "audit_row list"

definition AUDIT_SCHEMA_VERSION :: string where
  "AUDIT_SCHEMA_VERSION = ''v1''"

definition SUPPORTED_AUDIT_SCHEMA_VERSIONS :: "string list" where
  "SUPPORTED_AUDIT_SCHEMA_VERSIONS = [AUDIT_SCHEMA_VERSION]"

definition ZERO_AUDIT_HASH :: string where
  "ZERO_AUDIT_HASH = replicate 64 (CHR ''0'')"

definition MIGRATION_035_AUDIT_COLLISION_MESSAGE :: string where
  "MIGRATION_035_AUDIT_COLLISION_MESSAGE =
     ''UNIQUE audit event identity collision: financial_audit_events rows are append-only and cannot be replaced''"


section \<open>Validation\<close>

definition is_sha256_text :: "string \<Rightarrow> bool" where
  "is_sha256_text value \<longleftrightarrow>
     length value = 64 \<and> list_all (\<lambda>c. c \<in> set ''0123456789abcdef'') value"

definition validate_hash :: "string \<Rightarrow> unit result" where
  "validate_hash value = ensure (is_sha256_text value) AuditVerificationError ''Invalid SHA-256 hash''"

definition validate_optional_hash :: "string option \<Rightarrow> unit result" where
  "validate_optional_hash value = (case value of None \<Rightarrow> Ok () | Some h \<Rightarrow> validate_hash h)"

definition blank_option :: "string option \<Rightarrow> bool" where
  "blank_option value = (case value of None \<Rightarrow> False | Some s \<Rightarrow> py_strip s = [])"

definition validate_command :: "stdlib \<Rightarrow> audit_event_command \<Rightarrow> unit result" where
  "validate_command lib command =
     (if audit_schema_version command \<notin> set SUPPORTED_AUDIT_SCHEMA_VERSIONS
      then raise UnsupportedAuditVersionError ''Unsupported audit schema version''
      else if list_ex (\<lambda>value. py_strip value = [])
        [event_public_id command, aggregate_type command, aggregate_public_id command,
         event_type command, actor_type command, actor_public_id command,
         correlation_public_id command, causation_public_id command]
      then raise AuditVerificationError ''Missing audit fields''
      else
        rbind (validate_optional_hash (expected_previous_event_hash command)) (\<lambda>_.
        rbind (ensure ((calculation_snapshot_public_id command = None) = (calculation_snapshot_hash command = None))
          AuditVerificationError ''Calculation snapshot ID and hash must be supplied together'') (\<lambda>_.
        rbind (ensure (\<not> blank_option (calculation_snapshot_public_id command))
          AuditVerificationError ''Calculation snapshot public ID must not be empty'') (\<lambda>_.
        rbind (validate_optional_hash (calculation_snapshot_hash command)) (\<lambda>_.
        rbind (ensure (\<not> blank_option (authorization_public_id command))
          AuditVerificationError ''Authorization public ID must not be empty'') (\<lambda>_.
        rbind (normalize_timestamp lib (created_at command)) (\<lambda>_.
        rbind (canonical_references AuditVerificationError (source_evidence_references command)) (\<lambda>_.
        Ok ()))))))))"

definition validate_event_fields :: "stdlib \<Rightarrow> financial_audit_event \<Rightarrow> unit result" where
  "validate_event_fields lib event =
     rbind (validate_command lib
       \<lparr>event_public_id = event_public_id event,
        audit_schema_version = audit_schema_version event,
        aggregate_type = aggregate_type event,
        aggregate_public_id = aggregate_public_id event,
        event_type = event_type event,
        actor_type = actor_type event,
        actor_public_id = actor_public_id event,
        authorization_public_id = authorization_public_id event,
        calculation_snapshot_public_id = calculation_snapshot_public_id event,
        calculation_snapshot_hash = calculation_snapshot_hash event,
        source_evidence_references = source_evidence_references event,
        correlation_public_id = correlation_public_id event,
        causation_public_id = causation_public_id event,
        created_at = created_at event,
        event_payload = ONone,
        new_state = ONone,
        previous_state = None,
        expected_previous_event_hash = Some (previous_event_hash event)\<rparr>) (\<lambda>_.
     rbind (ensure (0 < sequence_number event) AuditVerificationError ''Audit sequence number must be positive'') (\<lambda>_.
     rbind (validate_hash (previous_state_hash event)) (\<lambda>_.
     rbind (validate_hash (new_state_hash event)) (\<lambda>_.
     rbind (validate_hash (previous_event_hash event)) (\<lambda>_.
     rbind (validate_hash (event_hash event)) (\<lambda>_.
     rbind (normalize_timestamp lib (created_at event)) (\<lambda>t.
     rbind (ensure (t = created_at event) AuditVerificationError ''Audit created_at is not canonical UTC'') (\<lambda>_.
     rbind (canonical_references AuditVerificationError (source_evidence_references event)) (\<lambda>refs.
     ensure (refs = source_evidence_references event)
       AuditVerificationError ''Audit source references are not canonical'')))))))))"

definition verified_canonical_json_bytes :: "string \<Rightarrow> bytes result" where
  "verified_canonical_json_bytes value =
     rbind (verified_canonical AuditVerificationError value) (\<lambda>_. Ok (encode value))"


section \<open>Event hashes\<close>

definition event_material :: "financial_audit_event \<Rightarrow> string \<Rightarrow> string \<Rightarrow> (string \<times> py_object) list" where
  "event_material event previous_state_digest new_state_digest =
     [(''event_public_id'', OStr (event_public_id event)),
      (''audit_schema_version'', OStr (audit_schema_version event)),
      (''aggregate_type'', OStr (aggregate_type event)),
      (''aggregate_public_id'', OStr (aggregate_public_id event)),
      (''event_type'', OStr (event_type event)),
      (''event_payload_json'', OStr (event_payload_json event)),
      (''previous_state_json'', OStr (previous_state_json event)),
      (''new_state_json'', OStr (new_state_json event)),
      (''previous_state_hash'', OStr previous_state_digest),
      (''new_state_hash'', OStr new_state_digest),
      (''previous_event_hash'', OStr (previous_event_hash event)),
      (''actor_type'', OStr (actor_type event)),
      (''actor_public_id'', OStr (actor_public_id event)),
      (''authorization_public_id'', optional_str (authorization_public_id event)),
      (''calculation_snapshot_public_id'', optional_str (calculation_snapshot_public_id event)),
      (''calculation_snapshot_hash'', optional_str (calculation_snapshot_hash event)),
      (''source_evidence_references'', OList (map OStr (source_evidence_references event))),
      (''correlation_public_id'', OStr (correlation_public_id event)),
      (''causation_public_id'', OStr (causation_public_id event)),
      (''sequence_number'', OInt (sequence_number event)),
      (''created_at'', OStr (created_at event))]"

definition compute_event_hash :: "stdlib \<Rightarrow> financial_audit_event \<Rightarrow> string \<Rightarrow> string \<Rightarrow> string result" where
  "compute_event_hash lib event previous_state_digest new_state_digest =
     rbind (canonical_json_bytes (mapping_of (event_material event previous_state_digest new_state_digest)))
       (\<lambda>material. Ok (domain_hash lib ''finance-audit-event-v1'' material))"

definition state_hash :: "stdlib \<Rightarrow> bytes \<Rightarrow> string" where
  "state_hash lib payload = domain_hash lib ''finance-audit-state-v1'' payload"

definition financial_state_hash :: "stdlib \<Rightarrow> py_object \<Rightarrow> string result" where
  "financial_state_hash lib state = rbind (canonical_json_bytes state) (\<lambda>b. Ok (state_hash lib b))"

definition derive_audit_event_public_id :: "stdlib \<Rightarrow> string \<Rightarrow> string \<Rightarrow> string \<Rightarrow> string \<Rightarrow> string result" where
  "derive_audit_event_public_id lib kind public_id event causation =
     rbind (canonical_json_bytes (mapping_of
       [(''aggregate_type'', OStr kind),
        (''aggregate_public_id'', OStr public_id),
        (''event_type'', OStr event),
        (''causation_public_id'', OStr causation)]))
       (\<lambda>material. Ok (''fae-'' @ take 24 (domain_hash lib ''finance-audit-event-id-v1'' material)))"

definition verify_event :: "stdlib \<Rightarrow> financial_audit_event \<Rightarrow> unit result" where
  "verify_event lib event =
     (if audit_schema_version event \<notin> set SUPPORTED_AUDIT_SCHEMA_VERSIONS
      then raise UnsupportedAuditVersionError ''Unsupported audit schema version''
      else
        rbind (validate_event_fields lib event) (\<lambda>_.
        rbind (verified_canonical_json_bytes (event_payload_json event)) (\<lambda>_.
        rbind (verified_canonical_json_bytes (previous_state_json event)) (\<lambda>previous_state_bytes.
        rbind (verified_canonical_json_bytes (new_state_json event)) (\<lambda>new_state_bytes.
        let expected_previous_state = state_hash lib previous_state_bytes;
            expected_new_state = state_hash lib new_state_bytes in
        rbind (ensure (previous_state_hash event = expected_previous_state)
          AuditVerificationError ''Audit previous-state hash mismatch'') (\<lambda>_.
        rbind (ensure (new_state_hash event = expected_new_state)
          AuditVerificationError ''Audit new-state hash mismatch'') (\<lambda>_.
        rbind (compute_event_hash lib event expected_previous_state expected_new_state) (\<lambda>expected_event.
        ensure (event_hash event = expected_event) AuditVerificationError ''Audit event hash mismatch''))))))))"

definition build_event ::
  "stdlib \<Rightarrow> audit_event_command \<Rightarrow> int \<Rightarrow> string \<Rightarrow> string \<Rightarrow> string \<Rightarrow> financial_audit_event result" where
  "build_event lib command number previous_hash previous_json created =
     rbind (canonical_json_text (event_payload command)) (\<lambda>payload_json.
     rbind (canonical_json_text (new_state command)) (\<lambda>new_json.
     rbind (canonical_references AuditVerificationError (source_evidence_references command)) (\<lambda>references.
     let provisional =
       \<lparr>event_public_id = event_public_id command,
        audit_schema_version = audit_schema_version command,
        aggregate_type = aggregate_type command,
        aggregate_public_id = aggregate_public_id command,
        event_type = event_type command,
        actor_type = actor_type command,
        actor_public_id = actor_public_id command,
        authorization_public_id = authorization_public_id command,
        calculation_snapshot_public_id = calculation_snapshot_public_id command,
        calculation_snapshot_hash = calculation_snapshot_hash command,
        source_evidence_references = references,
        correlation_public_id = correlation_public_id command,
        causation_public_id = causation_public_id command,
        created_at = created,
        event_payload_json = payload_json,
        previous_state_json = previous_json,
        new_state_json = new_json,
        previous_state_hash = state_hash lib (encode previous_json),
        new_state_hash = state_hash lib (encode new_json),
        previous_event_hash = previous_hash,
        event_hash = ZERO_AUDIT_HASH,
        sequence_number = number\<rparr> in
     rbind (compute_event_hash lib provisional (previous_state_hash provisional) (new_state_hash provisional)) (\<lambda>h.
     let event = provisional\<lparr>event_hash := h\<rparr> in
     rbind (verify_event lib event) (\<lambda>_. Ok event)))))"


section \<open>Rows\<close>

definition event_values :: "financial_audit_event \<Rightarrow> audit_row" where
  "event_values event =
     \<lparr>event_public_id = event_public_id event,
      audit_schema_version = audit_schema_version event,
      aggregate_type = aggregate_type event,
      aggregate_public_id = aggregate_public_id event,
      event_type = event_type event,
      actor_type = actor_type event,
      actor_public_id = actor_public_id event,
      authorization_public_id = authorization_public_id event,
      calculation_snapshot_public_id = calculation_snapshot_public_id event,
      calculation_snapshot_hash = calculation_snapshot_hash event,
      source_evidence_references = json_text True (JList (map JStr (source_evidence_references event))),
      correlation_public_id = correlation_public_id event,
      causation_public_id = causation_public_id event,
      created_at = created_at event,
      event_payload_json = event_payload_json event,
      previous_state_json = previous_state_json event,
      new_state_json = new_state_json event,
      previous_state_hash = previous_state_hash event,
      new_state_hash = new_state_hash event,
      previous_event_hash = previous_event_hash event,
      event_hash = event_hash event,
      sequence_number = sequence_number event\<rparr>"

definition stored_references :: "exc_class \<Rightarrow> string \<Rightarrow> string list result" where
  "stored_references err refs_json =
     (case loads refs_json of
        Some (JList vs) \<Rightarrow>
          mapM (\<lambda>v. case v of JStr s \<Rightarrow> Ok s
            | _ \<Rightarrow> raise err ''source references are invalid'') vs
      | _ \<Rightarrow> raise err ''source references are invalid'')"

definition row_to_event :: "stdlib \<Rightarrow> audit_row \<Rightarrow> financial_audit_event result" where
  "row_to_event lib row =
     rbind (stored_references AuditVerificationError (source_evidence_references row)) (\<lambda>references.
     let event =
       \<lparr>event_public_id = event_public_id row,
        audit_schema_version = audit_schema_version row,
        aggregate_type = aggregate_type row,
        aggregate_public_id = aggregate_public_id row,
        event_type = event_type row,
        actor_type = actor_type row,
        actor_public_id = actor_public_id row,
        authorization_public_id = authorization_public_id row,
        calculation_snapshot_public_id = calculation_snapshot_public_id row,
        calculation_snapshot_hash = calculation_snapshot_hash row,
        source_evidence_references = references,
        correlation_public_id = correlation_public_id row,
        causation_public_id = causation_public_id row,
        created_at = created_at row,
        event_payload_json = event_payload_json row,
        previous_state_json = previous_state_json row,
        new_state_json = new_state_json row,
        previous_state_hash = previous_state_hash row,
        new_state_hash = new_state_hash row,
        previous_event_hash = previous_event_hash row,
        event_hash = event_hash row,
        sequence_number = sequence_number row\<rparr> in
     rbind (verify_event lib event) (\<lambda>_. Ok event))"

text \<open>
  The checks of the table, and the five identities that no two rows may share. The trigger of
  migration 035 refuses a row that shares one before the constraints are tried.
\<close>

definition audit_event_checks :: "audit_row \<Rightarrow> bool" where
  "audit_event_checks row \<longleftrightarrow>
     event_public_id row \<noteq> [] \<and> audit_schema_version row = ''v1'' \<and> aggregate_type row \<noteq> [] \<and>
     aggregate_public_id row \<noteq> [] \<and> event_type row \<noteq> [] \<and> is_sha256_text (previous_state_hash row) \<and>
     is_sha256_text (new_state_hash row) \<and> is_sha256_text (previous_event_hash row) \<and>
     is_sha256_text (event_hash row) \<and> actor_type row \<noteq> [] \<and> actor_public_id row \<noteq> [] \<and>
     correlation_public_id row \<noteq> [] \<and> causation_public_id row \<noteq> [] \<and> 0 < sequence_number row \<and>
     created_at row \<noteq> [] \<and>
     (case (calculation_snapshot_public_id row, calculation_snapshot_hash row) of
        (None, None) \<Rightarrow> True
      | (Some i, Some h) \<Rightarrow> i \<noteq> [] \<and> is_sha256_text h
      | _ \<Rightarrow> False)"

definition same_identity :: "audit_row \<Rightarrow> audit_row \<Rightarrow> bool" where
  "same_identity row new \<longleftrightarrow>
     event_public_id row = event_public_id new \<or> event_hash row = event_hash new \<or>
     aggregate_type row = aggregate_type new \<and> aggregate_public_id row = aggregate_public_id new \<and>
     (sequence_number row = sequence_number new \<or> previous_event_hash row = previous_event_hash new \<or>
      event_type row = event_type new \<and> causation_public_id row = causation_public_id new)"

abbreviation events :: "'a tables_scheme connection \<Rightarrow> audit_row list" where
  "events conn \<equiv> financial_audit_events (tables conn)"

definition insert_event ::
  "stdlib \<Rightarrow> 'a tables_scheme connection \<Rightarrow> financial_audit_event \<Rightarrow> ('a tables_scheme, unit) effect" where
  "insert_event lib conn event =
     ebind (conn, verify_event lib event) (\<lambda>conn _.
     let row = event_values event in
     if list_ex (\<lambda>r. same_identity r row) (events conn)
     then (conn, raise IntegrityError MIGRATION_035_AUDIT_COLLISION_MESSAGE)
     else if \<not> audit_event_checks row then (conn, raise IntegrityError ''CHECK constraint failed'')
     else (conn\<lparr>tables := (tables conn)\<lparr>financial_audit_events := events conn @ [row]\<rparr>\<rparr>, Ok ()))"

definition fetch_event ::
  "stdlib \<Rightarrow> 'a tables_scheme connection \<Rightarrow> string \<Rightarrow> financial_audit_event option result" where
  "fetch_event lib conn public_id =
     (case find (\<lambda>r. event_public_id r = public_id) (events conn) of
        None \<Rightarrow> Ok None
      | Some row \<Rightarrow> rbind (row_to_event lib row) (\<lambda>e. Ok (Some e)))"

definition select_chain :: "'a tables_scheme connection \<Rightarrow> string \<Rightarrow> string \<Rightarrow> audit_row list" where
  "select_chain conn kind public_id =
     sort_key sequence_number
       (filter (\<lambda>r. aggregate_type r = kind \<and> aggregate_public_id r = public_id) (events conn))"

definition chain_head ::
  "stdlib \<Rightarrow> 'a tables_scheme connection \<Rightarrow> string \<Rightarrow> string \<Rightarrow> financial_audit_event option result" where
  "chain_head lib conn kind public_id =
     (case rev (select_chain conn kind public_id) of
        [] \<Rightarrow> Ok None
      | row # _ \<Rightarrow> rbind (row_to_event lib row) (\<lambda>e. Ok (Some e)))"

definition list_chain ::
  "stdlib \<Rightarrow> 'a tables_scheme connection \<Rightarrow> string \<Rightarrow> string \<Rightarrow> financial_audit_event list result" where
  "list_chain lib conn kind public_id = mapM (row_to_event lib) (select_chain conn kind public_id)"


section \<open>Verifying and appending\<close>

definition check_link ::
  "stdlib \<Rightarrow> int \<Rightarrow> financial_audit_event option \<Rightarrow> audit_row \<Rightarrow> financial_audit_event result" where
  "check_link lib index previous row =
     rbind (row_to_event lib row) (\<lambda>event.
     rbind (ensure (sequence_number event = index)
       AuditVerificationError ''Audit sequence is not contiguous'') (\<lambda>_.
     rbind (ensure (previous_event_hash event =
         (case previous of None \<Rightarrow> ZERO_AUDIT_HASH | Some p \<Rightarrow> event_hash p))
       AuditVerificationError ''Audit previous-event hash mismatch'') (\<lambda>_.
     rbind (ensure (case previous of None \<Rightarrow> True | Some p \<Rightarrow> previous_state_hash event = new_state_hash p)
       AuditVerificationError ''Audit state continuity mismatch'') (\<lambda>_.
     Ok event))))"

definition malformed_row :: "py_error \<Rightarrow> bool" where
  "malformed_row e \<longleftrightarrow>
     isinstance_exc (exc e) AuditVerificationError \<or> isinstance_exc (exc e) KeyError \<or>
     isinstance_exc (exc e) TypeError \<or> isinstance_exc (exc e) ValueError"

definition chain_reason :: "py_error \<Rightarrow> string" where
  "chain_reason e =
     (if isinstance_exc (exc e) AuditVerificationError then msg e else ''Malformed audit row: '' @ msg e)"

fun verify_links ::
  "stdlib \<Rightarrow> string \<Rightarrow> string \<Rightarrow> int \<Rightarrow> int \<Rightarrow> financial_audit_event option \<Rightarrow> audit_row list \<Rightarrow>
   audit_chain_verification result" where
  "verify_links lib kind public_id n index previous [] =
     Ok \<lparr>valid = True, chain_aggregate_type = kind, chain_aggregate_public_id = public_id, event_count = n,
         first_invalid_event_public_id = None, first_invalid_sequence_number = None, reason = None,
         legacy_without_chain = False\<rparr>"
| "verify_links lib kind public_id n index previous (row # rows) =
     (case check_link lib index previous row of
        Inl e \<Rightarrow>
          if malformed_row e then
            Ok \<lparr>valid = False, chain_aggregate_type = kind, chain_aggregate_public_id = public_id,
                event_count = n, first_invalid_event_public_id = Some (event_public_id row),
                first_invalid_sequence_number = Some (sequence_number row), reason = Some (chain_reason e),
                legacy_without_chain = False\<rparr>
          else Inl e
      | Inr event \<Rightarrow> verify_links lib kind public_id n (index + 1) (Some event) rows)"

definition verify_financial_audit_chain ::
  "stdlib \<Rightarrow> 'a tables_scheme connection \<Rightarrow> string \<Rightarrow> string \<Rightarrow> audit_chain_verification result" where
  "verify_financial_audit_chain lib conn kind public_id =
     (let rows = select_chain conn kind public_id in
      if rows = [] then
        Ok \<lparr>valid = True, chain_aggregate_type = kind, chain_aggregate_public_id = public_id, event_count = 0,
            first_invalid_event_public_id = None, first_invalid_sequence_number = None, reason = None,
            legacy_without_chain = True\<rparr>
      else verify_links lib kind public_id (int (length rows)) 1 None rows)"

definition conflict_on_insert :: "py_error \<Rightarrow> py_error" where
  "conflict_on_insert e =
     (if exc e = IntegrityError \<and>
         (msg e = ''UNIQUE constraint failed'' \<or> msg e = MIGRATION_035_AUDIT_COLLISION_MESSAGE)
      then PyError AuditChainConflictError ''Audit chain append conflicted in SQLite'' else e)"

text \<open>The replay of a command whose event is already stored.\<close>

definition replay_event ::
  "stdlib \<Rightarrow> audit_event_command \<Rightarrow> financial_audit_event \<Rightarrow> financial_audit_event result" where
  "replay_event lib command existing =
     rbind (case previous_state command of
         Some state \<Rightarrow> canonical_json_text state
       | None \<Rightarrow> Ok (previous_state_json existing)) (\<lambda>previous_json.
     rbind (build_event lib command (sequence_number existing) (previous_event_hash existing) previous_json
       (created_at existing)) (\<lambda>candidate.
     if candidate = existing then Ok existing
     else raise AuditChainConflictError ''Audit event public ID has conflicting content''))"

text \<open>The state an event starts from: the one the command states, which must be the head's, or the head's.\<close>

definition previous_state_text ::
  "stdlib \<Rightarrow> audit_event_command \<Rightarrow> financial_audit_event option \<Rightarrow> string result" where
  "previous_state_text lib command head =
     (case previous_state command of
        None \<Rightarrow> (case head of None \<Rightarrow> canonical_json_text ONone | Some h \<Rightarrow> Ok (new_state_json h))
      | Some state \<Rightarrow>
          rbind (canonical_json_text state) (\<lambda>json.
          case head of
            None \<Rightarrow> Ok json
          | Some h \<Rightarrow>
              rbind (financial_state_hash lib state) (\<lambda>state_digest.
              if state_digest \<noteq> new_state_hash h
              then raise AuditChainConflictError ''Audit previous state does not match chain head''
              else Ok json)))"

text \<open>The event that a command adds after the current head of its chain.\<close>

definition next_event ::
  "stdlib \<Rightarrow> audit_event_command \<Rightarrow> financial_audit_event option \<Rightarrow> financial_audit_event result" where
  "next_event lib command head =
     (let previous_hash = (case head of None \<Rightarrow> ZERO_AUDIT_HASH | Some h \<Rightarrow> event_hash h) in
      if expected_previous_event_hash command \<noteq> None \<and>
         expected_previous_event_hash command \<noteq> Some previous_hash
      then raise AuditChainConflictError ''Audit chain predecessor changed''
      else
        rbind (previous_state_text lib command head) (\<lambda>previous_json.
        rbind (normalize_timestamp lib (created_at command)) (\<lambda>created.
        build_event lib command (case head of None \<Rightarrow> 1 | Some h \<Rightarrow> sequence_number h + 1) previous_hash
          previous_json created)))"

definition append_financial_audit_event ::
  "stdlib \<Rightarrow> 'a tables_scheme connection \<Rightarrow> audit_event_command \<Rightarrow>
   ('a tables_scheme, financial_audit_event \<times> bool) effect" where
  "append_financial_audit_event lib conn command =
     ebind (conn, write_admission conn) (\<lambda>conn _.
     if \<not> in_transaction conn then
       (conn, raise AuditChainTransactionError ''Financial audit append requires an active caller-owned transaction'')
     else
       ebind (conn, validate_command lib command) (\<lambda>conn _.
       ebind (conn, verify_financial_audit_chain lib conn (aggregate_type command) (aggregate_public_id command)) (\<lambda>conn chain.
       if \<not> valid chain then (conn, raise AuditChainConflictError ''Cannot append to invalid audit chain'')
       else
         ebind (conn, fetch_event lib conn (event_public_id command)) (\<lambda>conn stored.
         case stored of
           Some existing \<Rightarrow> ebind (conn, replay_event lib command existing) (\<lambda>conn event. (conn, Ok (event, True)))
         | None \<Rightarrow>
             ebind (conn, chain_head lib conn (aggregate_type command) (aggregate_public_id command)) (\<lambda>conn head.
             ebind (conn, next_event lib command head) (\<lambda>conn event.
             case insert_event lib conn event of
               (conn, Inl e) \<Rightarrow> (conn, Inl (conflict_on_insert e))
             | (conn, Inr _) \<Rightarrow> (conn, Ok (event, False))))))))"

text \<open>A standalone append owns its transaction.\<close>

definition append_financial_audit_event_atomically ::
  "stdlib \<Rightarrow> 'a tables_scheme connection \<Rightarrow> audit_event_command \<Rightarrow>
   ('a tables_scheme, financial_audit_event \<times> bool) effect" where
  "append_financial_audit_event_atomically lib conn command =
     own_transaction (PyError AuditChainTransactionError ''Standalone audit append requires no pending transaction'')
       (\<lambda>conn. append_financial_audit_event lib conn command) conn"


section \<open>What a verified event determines\<close>

text \<open>Events whose texts are ASCII.\<close>

definition ascii_fields :: "(string list, 'z) audit_fields_scheme \<Rightarrow> bool" where
  "ascii_fields e \<longleftrightarrow>
     list_all ascii
       [event_public_id e, audit_schema_version e, aggregate_type e, aggregate_public_id e, event_type e,
        actor_type e, actor_public_id e, correlation_public_id e, causation_public_id e, created_at e] \<and>
     list_all ascii (source_evidence_references e) \<and>
     pred_option ascii (authorization_public_id e) \<and> pred_option ascii (calculation_snapshot_public_id e) \<and>
     pred_option ascii (calculation_snapshot_hash e)"

definition ascii_event :: "financial_audit_event \<Rightarrow> bool" where
  "ascii_event e \<longleftrightarrow> ascii_fields e \<and>
     list_all ascii
       [event_payload_json e, previous_state_json e, new_state_json e, previous_state_hash e,
        new_state_hash e, previous_event_hash e]"

abbreviation material_of :: "financial_audit_event \<Rightarrow> (string \<times> py_object) list" where
  "material_of e \<equiv> event_material e (previous_state_hash e) (new_state_hash e)"

text \<open>The bytes that the event hash is computed from.\<close>

definition event_preimage :: "financial_audit_event \<Rightarrow> bytes" where
  "event_preimage e =
     encode ''finance-audit-event-v1'' @ [0] @
     (case canonical_json_bytes (mapping_of (material_of e)) of Inr m \<Rightarrow> m | Inl _ \<Rightarrow> [])"

lemma material_keys: "map fst (event_material e p n) = map fst (event_material e' p' n')"
  by (simp add: event_material_def)

lemma material_simple: "simple_items (event_material e p n)"
  by (simp add: event_material_def list_all_iff)

lemma ascii_optional_str [simp]: "ascii_object (optional_str v) \<longleftrightarrow> pred_option ascii v"
  by (simp add: optional_str_def split: option.splits)

lemma ascii_strs [simp]: "ascii_object (OList (map OStr ss)) \<longleftrightarrow> list_all ascii ss"
  by (simp add: list_all_iff)

lemma material_ascii:
  assumes "ascii_event e"
  shows "ascii_items (material_of e)"
proof -
  have "list_all ascii (map fst (material_of e))" unfolding event_material_def by code_simp
  moreover have "list_all ascii_object (map snd (material_of e))"
    using assms by (simp add: event_material_def ascii_event_def ascii_fields_def del: ascii_object.simps(3))
  ultimately show ?thesis by (simp add: list_all_iff)
qed

lemma material_event:
  assumes "material_of e = material_of e'" and "event_hash e = event_hash e'"
  shows "e = e'"
  using assms by (simp add: event_material_def inj_map_eq_map inj_on_def)

lemma event_preimage_Ok:
  assumes "ascii_event e"
  obtains t where "canonical_json_text (mapping_of (material_of e)) = Ok t"
    and "event_preimage e = encode ''finance-audit-event-v1'' @ [0] @ encode t"
    and "compute_event_hash lib e (previous_state_hash e) (new_state_hash e) = Ok (hexdigest (sha256 lib (event_preimage e)))"
  using mapping_text_Ok [OF material_simple material_ascii [OF assms]]
  by (auto simp: event_preimage_def canonical_json_bytes_def compute_event_hash_def domain_hash_def)

lemma event_preimage_inject:
  assumes "ascii_event e" and "ascii_event e'" and "event_hash e = event_hash e'"
    and "event_preimage e = event_preimage e'"
  shows "e = e'"
proof -
  obtain t where t: "canonical_json_text (mapping_of (material_of e)) = Ok t"
    "event_preimage e = encode ''finance-audit-event-v1'' @ [0] @ encode t" using event_preimage_Ok [OF assms(1)] by metis
  obtain t' where t': "canonical_json_text (mapping_of (material_of e')) = Ok t'"
    "event_preimage e' = encode ''finance-audit-event-v1'' @ [0] @ encode t'" using event_preimage_Ok [OF assms(2)] by metis
  have "t = t'" using assms(4) t(2) t'(2) by simp
  then have "canonical_json_text (mapping_of (material_of e)) = canonical_json_text (mapping_of (material_of e'))"
    using t(1) t'(1) by simp
  then have "material_of e = material_of e'"
    by (rule mapping_text_inject [OF material_simple material_simple material_ascii [OF assms(1)]
          material_ascii [OF assms(2)] material_keys])
  then show ?thesis by (rule material_event [OF _ assms(3)])
qed

text \<open>What verification of an event establishes.\<close>

lemma verify_event_iff:
  "verify_event lib e = Ok () \<longleftrightarrow>
     audit_schema_version e = AUDIT_SCHEMA_VERSION \<and> validate_event_fields lib e = Ok () \<and>
     (\<exists>j. verified_canonical AuditVerificationError (event_payload_json e) = Ok j) \<and>
     (\<exists>j. verified_canonical AuditVerificationError (previous_state_json e) = Ok j) \<and>
     (\<exists>j. verified_canonical AuditVerificationError (new_state_json e) = Ok j) \<and>
     previous_state_hash e = state_hash lib (encode (previous_state_json e)) \<and>
     new_state_hash e = state_hash lib (encode (new_state_json e)) \<and>
     compute_event_hash lib e (previous_state_hash e) (new_state_hash e) = Ok (event_hash e)"
  by (auto simp: verify_event_def verified_canonical_json_bytes_def result_simps Let_def
      SUPPORTED_AUDIT_SCHEMA_VERSIONS_def)

lemma verified_hash:
  assumes "verify_event lib e = Ok ()" and "ascii_event e"
  shows "event_hash e = hexdigest (sha256 lib (event_preimage e))"
proof -
  have "compute_event_hash lib e (previous_state_hash e) (new_state_hash e) = Ok (event_hash e)"
    using assms(1) unfolding verify_event_iff by (elim conjE)
  moreover have "compute_event_hash lib e (previous_state_hash e) (new_state_hash e) =
      Ok (hexdigest (sha256 lib (event_preimage e)))" by (rule event_preimage_Ok [OF assms(2)])
  ultimately show ?thesis by simp
qed

text \<open>Two verified events with the same hash are the same, or their hashed bytes collide.\<close>

interpretation audit_seal: sealed_record ascii_event event_preimage event_hash
  by unfold_locales (rule event_preimage_inject)

lemma same_hash_events:
  assumes "verify_event lib e = Ok ()" and "verify_event lib f = Ok ()" and "ascii_event e" and "ascii_event f"
    and "digest_shape (sha256 lib)" and "event_hash e = event_hash f"
  shows "e = f \<or> collision (sha256 lib) (event_preimage e) (event_preimage f)"
  by (rule audit_seal.same_seal [OF assms(5,3,4,6) verified_hash [OF assms(1,3)] verified_hash [OF assms(2,4)]])

section \<open>Chains\<close>

text \<open>
  What verification promises of a list of events: numbers from one on, each event carrying the hash
  of the one before it and starting from the state the one before it ended in.
\<close>

definition audit_chain :: "financial_audit_event list \<Rightarrow> bool" where
  "audit_chain es \<longleftrightarrow>
     (\<forall>i < length es.
        sequence_number (es ! i) = int i + 1 \<and>
        previous_event_hash (es ! i) = (if i = 0 then ZERO_AUDIT_HASH else event_hash (es ! (i - 1))) \<and>
        (0 < i \<longrightarrow> previous_state_hash (es ! i) = new_state_hash (es ! (i - 1))))"

lemma audit_chain_Nil [simp]: "audit_chain []"
  by (simp add: audit_chain_def)

lemma audit_chain_snoc:
  "audit_chain (es @ [e]) \<longleftrightarrow>
     audit_chain es \<and> sequence_number e = int (length es) + 1 \<and>
     previous_event_hash e = (if es = [] then ZERO_AUDIT_HASH else event_hash (last es)) \<and>
     (es \<noteq> [] \<longrightarrow> previous_state_hash e = new_state_hash (last es))"
proof -
  define P where "P xs i \<longleftrightarrow> sequence_number (xs ! i) = int i + 1 \<and>
      previous_event_hash (xs ! i) = (if i = 0 then ZERO_AUDIT_HASH else event_hash (xs ! (i - 1))) \<and>
      (0 < i \<longrightarrow> previous_state_hash (xs ! i) = new_state_hash (xs ! (i - 1)))" for xs :: "financial_audit_event list" and i
  have "audit_chain xs \<longleftrightarrow> (\<forall>i < length xs. P xs i)" for xs by (simp add: audit_chain_def P_def)
  moreover have "P (es @ [e]) i \<longleftrightarrow> P es i" if "i < length es" for i
    using that by (simp add: P_def nth_append less_imp_diff_less)
  moreover have "P (es @ [e]) (length es) \<longleftrightarrow> sequence_number e = int (length es) + 1 \<and>
     previous_event_hash e = (if es = [] then ZERO_AUDIT_HASH else event_hash (last es)) \<and>
     (es \<noteq> [] \<longrightarrow> previous_state_hash e = new_state_hash (last es))"
    by (cases es rule: rev_cases) (simp_all add: P_def nth_append)
  ultimately show ?thesis by (simp add: All_less_Suc conj_commute)
qed

lemma audit_chain_append: "audit_chain (es @ fs) \<Longrightarrow> audit_chain es"
  by (induction fs rule: rev_induct) (simp_all flip: append_assoc add: audit_chain_snoc)

definition accepted :: "audit_chain_verification result \<Rightarrow> bool" where
  "accepted r \<longleftrightarrow> (case r of Inr v \<Rightarrow> valid v | Inl _ \<Rightarrow> False)"

abbreviation last_event :: "'a list \<Rightarrow> 'a option" where
  "last_event es \<equiv> if es = [] then None else Some (last es)"

lemma check_link_iff:
  assumes "audit_chain xs"
  shows "check_link lib (int (length xs) + 1) (last_event xs) row = Ok e \<longleftrightarrow>
    row_to_event lib row = Ok e \<and> audit_chain (xs @ [e])"
  using assms by (auto simp: check_link_def audit_chain_snoc result_simps)

lemma verify_links_accepts:
  assumes "audit_chain xs"
  shows "accepted (verify_links lib kind public_id n (int (length xs) + 1) (last_event xs) rows) \<longleftrightarrow>
    (\<exists>es. mapM (row_to_event lib) rows = Ok es \<and> audit_chain (xs @ es))"
  using assms
proof (induction rows arbitrary: xs)
  case Nil
  then show ?case by (simp add: accepted_def)
next
  case (Cons row rows)
  show ?case
  proof (cases "check_link lib (int (length xs) + 1) (last_event xs) row")
    case (Inl err)
    have "audit_chain (xs @ e # es) \<Longrightarrow> audit_chain (xs @ [e])" for e es
      using audit_chain_append [of "xs @ [e]" es] by simp
    then have "\<not> (\<exists>es. mapM (row_to_event lib) (row # rows) = Ok es \<and> audit_chain (xs @ es))"
      using check_link_iff [OF Cons.prems, of lib row] Inl by (auto simp: result_simps)
    then show ?thesis using Inl by (simp add: accepted_def)
  next
    case (Inr e)
    then have e: "row_to_event lib row = Ok e" "audit_chain (xs @ [e])" using check_link_iff [OF Cons.prems] by blast+
    have n: "int (length (xs @ [e])) + 1 = int (length xs) + 1 + 1" by simp
    have "accepted (verify_links lib kind public_id n (int (length xs) + 1) (last_event xs) (row # rows)) \<longleftrightarrow>
        accepted (verify_links lib kind public_id n (int (length (xs @ [e])) + 1) (last_event (xs @ [e])) rows)"
      unfolding n using Inr by simp
    then show ?thesis unfolding Cons.IH [OF e(2)] using e(1) by (auto simp: result_simps)
  qed
qed

lemma verify_links_count:
  "accepted (verify_links lib kind public_id n i p rows) \<Longrightarrow>
   \<exists>v. verify_links lib kind public_id n i p rows = Ok v \<and> valid v \<and> event_count v = n"
proof (induction rows arbitrary: i p)
  case (Cons row rows)
  then show ?case by (cases "check_link lib i p row") (auto simp: accepted_def split: if_splits)
qed (simp add: accepted_def)

text \<open>Verification accepts exactly the rows that hold a chain of verified events.\<close>

lemma verify_chain_accepts:
  "accepted (verify_financial_audit_chain lib conn kind public_id) \<longleftrightarrow>
   (\<exists>es. list_chain lib conn kind public_id = Ok es \<and> audit_chain es)"
  using verify_links_accepts [of "[]" lib kind public_id]
  by (auto simp: verify_financial_audit_chain_def list_chain_def Let_def accepted_def)

lemma verify_chain_count:
  assumes "list_chain lib conn kind public_id = Ok es" and "audit_chain es"
  shows "\<exists>v. verify_financial_audit_chain lib conn kind public_id = Ok v \<and> valid v \<and> event_count v = int (length es)"
proof -
  have l: "length (select_chain conn kind public_id) = length es"
    using assms(1) mapM_Ok_length by (force simp: list_chain_def)
  have "accepted (verify_financial_audit_chain lib conn kind public_id)" using assms verify_chain_accepts by blast
  then show ?thesis using l verify_links_count
    by (auto simp: verify_financial_audit_chain_def Let_def split: if_splits)
qed

lemma row_to_event_verified: "row_to_event lib row = Ok e \<Longrightarrow> verify_event lib e = Ok ()"
  by (auto simp: row_to_event_def result_simps Let_def)

lemma list_chain_verified:
  "list_chain lib conn kind public_id = Ok es \<Longrightarrow> e \<in> set es \<Longrightarrow> verify_event lib e = Ok ()"
  using row_to_event_verified by (auto simp: list_chain_def mapM_Ok_iff list_all2_conv_all_nth in_set_conv_nth)

text \<open>
  Two chains of verified events with the same last hash are equal, or they contain two events whose
  hashed bytes collide.
\<close>

lemma same_head_chains:
  assumes "audit_chain es" and "audit_chain fs" and "es \<noteq> []" and "fs \<noteq> []"
    and "event_hash (last es) = event_hash (last fs)"
    and "\<forall>e \<in> set es \<union> set fs. verify_event lib e = Ok () \<and> ascii_event e"
    and "digest_shape (sha256 lib)"
  shows "es = fs \<or> (\<exists>e \<in> set es. \<exists>f \<in> set fs. collision (sha256 lib) (event_preimage e) (event_preimage f))"
  using assms(1-6)
proof (induction es arbitrary: fs rule: rev_induct)
  case (snoc e es)
  obtain f gs where fs: "fs = gs @ [f]" using snoc.prems(4) by (cases fs rule: rev_cases) auto
  have "e = f \<or> collision (sha256 lib) (event_preimage e) (event_preimage f)"
    using same_hash_events snoc.prems(5,6) fs assms(7) by simp
  then show ?case
  proof
    assume ef: "e = f"
    have c: "audit_chain es" "audit_chain gs" using snoc.prems(1,2) fs by (simp_all add: audit_chain_snoc)
    have l: "length es = length gs" using snoc.prems(1,2) fs ef by (simp add: audit_chain_snoc)
    show ?thesis
    proof (cases "es = []")
      case True
      then show ?thesis using fs ef l by simp
    next
      case False
      then have "gs \<noteq> []" "event_hash (last es) = event_hash (last gs)"
        using snoc.prems(1,2) fs ef l by (auto simp: audit_chain_snoc)
      then show ?thesis using snoc.IH [OF c False] snoc.prems(6) fs ef by auto
    qed
  next
    assume "collision (sha256 lib) (event_preimage e) (event_preimage f)"
    then show ?thesis using fs by auto
  qed
qed simp

section \<open>Appending\<close>

lemma stored_references_text:
  assumes "list_all ascii refs"
  shows "stored_references err (json_text True (JList (map JStr refs))) = Ok refs"
proof -
  have "plain (JList (map JStr refs))" using assms by (simp add: list_all_iff)
  then have "loads (json_text True (JList (map JStr refs))) = Some (JList (map JStr refs))" by (rule loads_text)
  moreover have "mapM (\<lambda>v. case v of JStr s \<Rightarrow> Ok s
      | _ \<Rightarrow> raise err ''source references are invalid'') (map JStr refs) = Ok refs"
    by (induction refs) simp_all
  ultimately show ?thesis by (simp add: stored_references_def del: json_text.simps)
qed

text \<open>A stored event is read back as it was.\<close>

lemma row_to_event_values:
  assumes "verify_event lib e = Ok ()" and "list_all ascii (source_evidence_references e)"
  shows "row_to_event lib (event_values e) = Ok e"
  using assms stored_references_text [OF assms(2)]
  by (cases e) (simp add: row_to_event_def event_values_def Let_def del: json_text.simps)

lemma build_event_Ok:
  assumes "build_event lib command number h json created = Ok e"
  shows "verify_event lib e = Ok ()"
    and "event_public_id e = event_public_id command" and "aggregate_type e = aggregate_type command"
    and "aggregate_public_id e = aggregate_public_id command"
    and "canonical_references AuditVerificationError (source_evidence_references command) = Ok (source_evidence_references e)"
    and "sequence_number e = number" and "previous_event_hash e = h" and "created_at e = created"
    and "previous_state_json e = json"
  using assms by (auto simp: build_event_def result_simps Let_def)

lemma canonical_references_set:
  "canonical_references err refs = Ok refs' \<Longrightarrow> set refs' = set refs"
  by (auto simp: canonical_references_def Let_def split: if_splits)

lemma next_event_Ok:
  assumes "next_event lib command head = Ok e"
  obtains json where "build_event lib command (case head of None \<Rightarrow> 1 | Some h \<Rightarrow> sequence_number h + 1)
      (case head of None \<Rightarrow> ZERO_AUDIT_HASH | Some h \<Rightarrow> event_hash h) json (created_at e) = Ok e"
    and "case previous_state command of Some state \<Rightarrow> canonical_json_text state = Ok json | None \<Rightarrow> True"
    and "case head of None \<Rightarrow> True | Some h \<Rightarrow> state_hash lib (encode json) = new_state_hash h \<or> json = new_state_json h"
  using assms build_event_Ok(8)
  by (auto simp: next_event_def previous_state_text_def result_simps Let_def financial_state_hash_def canonical_json_bytes_def
      split: option.splits if_splits)

lemma insort_key_snoc:
  "f a \<le> f x \<Longrightarrow> insort_key f a (ys @ [x]) = insort_key f a ys @ [x]"
  by (induction ys) auto

lemma sort_key_snoc:
  "\<forall>y \<in> set xs. f y \<le> f x \<Longrightarrow> sort_key f (xs @ [x]) = sort_key f xs @ [x]"
  by (induction xs) (simp_all add: insort_key_snoc)

lemma event_values_simps [simp]:
  "event_public_id (event_values e) = event_public_id e" "aggregate_type (event_values e) = aggregate_type e"
  "aggregate_public_id (event_values e) = aggregate_public_id e"
  "sequence_number (event_values e) = sequence_number e"
  by (simp_all add: event_values_def)

lemma row_to_event_fields:
  "row_to_event lib r = Ok e \<Longrightarrow> sequence_number e = sequence_number r \<and> event_public_id e = event_public_id r \<and>
   aggregate_type e = aggregate_type r \<and> aggregate_public_id e = aggregate_public_id r"
  by (auto simp: row_to_event_def result_simps Let_def)

lemma chain_sequence:
  assumes "list_chain lib conn kind public_id = Ok es" and "audit_chain es" and "r \<in> set (select_chain conn kind public_id)"
  shows "sequence_number r \<le> int (length es)"
proof -
  obtain i where i: "i < length es" "row_to_event lib r = Ok (es ! i)"
    using assms(1,3) by (auto simp: list_chain_def mapM_Ok_iff list_all2_conv_all_nth in_set_conv_nth)
  then have "sequence_number r = int i + 1" using assms(2) row_to_event_fields by (force simp: audit_chain_def)
  then show ?thesis using i(1) by simp
qed

lemma chain_head_last:
  assumes "list_chain lib conn kind public_id = Ok es"
  shows "chain_head lib conn kind public_id = Ok (last_event es)"
proof (cases "select_chain conn kind public_id" rule: rev_cases)
  case Nil
  then show ?thesis using assms by (simp add: list_chain_def chain_head_def)
next
  case (snoc rows row)
  then obtain es' e where "es = es' @ [e]" "row_to_event lib row = Ok e"
    using assms by (auto simp: list_chain_def mapM_Ok_iff list_all2_append1 list_all2_Cons1)
  then show ?thesis using snoc by (simp add: chain_head_def)
qed

text \<open>Storing the next event of a chain makes the chain one longer.\<close>

abbreviation with_row :: "'a tables_scheme connection \<Rightarrow> audit_row \<Rightarrow> 'a tables_scheme connection" where
  "with_row conn row \<equiv> conn\<lparr>tables := (tables conn)\<lparr>financial_audit_events := events conn @ [row]\<rparr>\<rparr>"

lemma list_chain_append:
  assumes "list_chain lib conn (aggregate_type e) (aggregate_public_id e) = Ok es" and "audit_chain (es @ [e])"
    and "verify_event lib e = Ok ()" and "list_all ascii (source_evidence_references e)"
  shows "list_chain lib (with_row conn (event_values e)) (aggregate_type e) (aggregate_public_id e) = Ok (es @ [e])"
proof -
  let ?s = "select_chain conn (aggregate_type e) (aggregate_public_id e)"
  have c: "audit_chain es" "sequence_number e = int (length es) + 1" using assms(2) by (simp_all add: audit_chain_snoc)
  have "select_chain (with_row conn (event_values e)) (aggregate_type e) (aggregate_public_id e) = ?s @ [event_values e]"
    using chain_sequence [OF assms(1) c(1)] c(2) by (force simp: select_chain_def intro!: sort_key_snoc)
  then show ?thesis using assms(1) row_to_event_values [OF assms(3,4)]
    by (simp add: list_chain_def mapM_Ok_iff list_all2_appendI)
qed

lemma next_event_chain:
  assumes "next_event lib command (last_event es) = Ok e" and "audit_chain es"
    and "\<forall>x \<in> set es. verify_event lib x = Ok ()"
  shows "audit_chain (es @ [e])"
proof -
  obtain json where json:
    "build_event lib command (case last_event es of None \<Rightarrow> 1 | Some h \<Rightarrow> sequence_number h + 1)
      (case last_event es of None \<Rightarrow> ZERO_AUDIT_HASH | Some h \<Rightarrow> event_hash h) json (created_at e) = Ok e"
    "case last_event es of None \<Rightarrow> True | Some h \<Rightarrow> state_hash lib (encode json) = new_state_hash h \<or> json = new_state_json h"
    by (rule next_event_Ok [OF assms(1)]) (rule that)
  note b = build_event_Ok [OF json(1)]
  have p: "previous_state_hash e = state_hash lib (encode json)" using b(1,9) by (simp add: verify_event_iff)
  have "new_state_hash (last es) = state_hash lib (encode (new_state_json (last es)))" if "es \<noteq> []"
    using assms(3) that by (simp add: verify_event_iff)
  moreover have "sequence_number (last es) = int (length es)" if "es \<noteq> []"
    using assms(2) that by (cases es rule: rev_cases) (simp_all add: audit_chain_snoc)
  ultimately show ?thesis unfolding audit_chain_snoc using b(6,7) p json(2) assms(2)
    by (cases "es = []") auto
qed

lemma insert_event_Ok:
  "insert_event lib conn e = (conn', Ok u) \<Longrightarrow> conn' = with_row conn (event_values e) \<and> verify_event lib e = Ok ()"
  by (auto simp: insert_event_def result_simps Let_def split: if_splits)

lemma replay_event_Ok: "replay_event lib command existing = Ok e \<Longrightarrow> e = existing"
  by (auto simp: replay_event_def result_simps split: if_splits)

lemma append_Ok_cases:
  assumes "append_financial_audit_event lib conn command = (conn', Ok (e, replayed))"
  obtains es where "write_admission conn = Ok ()" and "in_transaction conn" and "validate_command lib command = Ok ()"
    and "list_chain lib conn (aggregate_type command) (aggregate_public_id command) = Ok es" and "audit_chain es"
    and "if replayed
      then conn' = conn \<and> fetch_event lib conn (event_public_id command) = Ok (Some e) \<and> replay_event lib command e = Ok e
      else fetch_event lib conn (event_public_id command) = Ok None \<and> next_event lib command (last_event es) = Ok e \<and>
        verify_event lib e = Ok () \<and> conn' = with_row conn (event_values e)"
proof -
  from assms obtain chain stored where
    s: "write_admission conn = Ok ()" "in_transaction conn" "validate_command lib command = Ok ()"
      "verify_financial_audit_chain lib conn (aggregate_type command) (aggregate_public_id command) = Ok chain" "valid chain"
      "fetch_event lib conn (event_public_id command) = Ok stored" and
    r: "(case stored of
           Some existing \<Rightarrow> ebind (conn, replay_event lib command existing) (\<lambda>conn event. (conn, Ok (event, True)))
         | None \<Rightarrow>
             ebind (conn, chain_head lib conn (aggregate_type command) (aggregate_public_id command)) (\<lambda>conn head.
             ebind (conn, next_event lib command head) (\<lambda>conn event.
             case insert_event lib conn event of
               (conn, Inl e) \<Rightarrow> (conn, Inl (conflict_on_insert e))
             | (conn, Inr _) \<Rightarrow> (conn, Ok (event, False))))) = (conn', Ok (e, replayed))"
    by (auto simp: append_financial_audit_event_def result_simps split: if_splits)
  have "accepted (verify_financial_audit_chain lib conn (aggregate_type command) (aggregate_public_id command))"
    using s(4,5) by (simp add: accepted_def)
  then obtain es where es: "list_chain lib conn (aggregate_type command) (aggregate_public_id command) = Ok es" "audit_chain es"
    unfolding verify_chain_accepts by blast
  have "if replayed
      then conn' = conn \<and> fetch_event lib conn (event_public_id command) = Ok (Some e) \<and> replay_event lib command e = Ok e
      else fetch_event lib conn (event_public_id command) = Ok None \<and> next_event lib command (last_event es) = Ok e \<and>
        verify_event lib e = Ok () \<and> conn' = with_row conn (event_values e)"
  proof (cases stored)
    case None
    obtain x where x: "next_event lib command (last_event es) = Ok x" and
      i: "(case insert_event lib conn x of (conn, Inl e) \<Rightarrow> (conn, Inl (conflict_on_insert e))
         | (conn, Inr _) \<Rightarrow> (conn, Ok (x, False))) = (conn', Ok (e, replayed))"
      using r unfolding None chain_head_last [OF es(1)] by (auto simp: result_simps)
    show ?thesis
      using None s(6) x i insert_event_Ok [of lib conn x] by (auto split: prod.splits sum.splits)
  next
    case (Some existing)
    then show ?thesis using r s(6) by (auto simp: result_simps dest: replay_event_Ok)
  qed
  then show thesis by (rule that [OF s(1-3) es])
qed

lemma append_tables:
  assumes "append_financial_audit_event lib conn command = (conn', Ok (e, replayed))"
  shows "conn' = (if replayed then conn else with_row conn (event_values e))"
proof -
  obtain es where "if replayed
      then conn' = conn \<and> fetch_event lib conn (event_public_id command) = Ok (Some e) \<and> replay_event lib command e = Ok e
      else fetch_event lib conn (event_public_id command) = Ok None \<and> next_event lib command (last_event es) = Ok e \<and>
        verify_event lib e = Ok () \<and> conn' = with_row conn (event_values e)"
    by (rule append_Ok_cases [OF assms]) (rule that)
  then show ?thesis by (simp split: if_splits)
qed

text \<open>Whether it returns or raises, an append has changed at most the events.\<close>

lemma append_effect:
  "\<exists>rows. fst (append_financial_audit_event lib conn command) =
     conn\<lparr>tables := (tables conn)\<lparr>financial_audit_events := events conn @ rows\<rparr>\<rparr>"
proof (cases "append_financial_audit_event lib conn command")
  case (Pair conn' r)
  show ?thesis
  proof (cases r)
    case (Inl e)
    have "conn' = conn"
      using Pair unfolding Inl
      by (auto simp: append_financial_audit_event_def ebind_def insert_event_def Let_def split: sum.splits if_splits option.splits prod.splits)
    then show ?thesis using Pair by (intro exI [of _ "[]"]) simp
  next
    case (Inr x)
    obtain e replayed where "x = (e, replayed)" by (cases x)
    then have "conn' = (if replayed then conn else with_row conn (event_values e))"
      using append_tables Pair Inr by blast
    then show ?thesis using Pair by (intro exI [of _ "if replayed then [] else [event_values e]"]) simp
  qed
qed

interpretation audit_append: transaction_body "\<lambda>conn. append_financial_audit_event lib conn command"
  for lib :: stdlib and command :: audit_event_command
proof unfold_locales
  fix conn :: "'a tables_scheme connection"
  show "\<exists>t. fst (append_financial_audit_event lib conn command) = conn\<lparr>tables := t\<rparr>"
    using append_effect [of lib conn command] by blast
qed

lemma fetch_event_Ok:
  assumes "fetch_event lib conn public_id = Ok (Some e)"
  obtains r where "r \<in> set (events conn)" and "event_public_id r = public_id" and "row_to_event lib r = Ok e"
proof (cases "find (\<lambda>r. event_public_id r = public_id) (events conn)")
  case (Some r)
  then have "r \<in> set (events conn) \<and> event_public_id r = public_id" by (auto simp: find_Some_iff)
  then show thesis using that Some assms by (auto simp: fetch_event_def result_simps)
qed (use assms in \<open>simp add: fetch_event_def\<close>)

lemma replay_event_build:
  assumes "replay_event lib command e = Ok e"
  obtains json where "build_event lib command (sequence_number e) (previous_event_hash e) json (created_at e) = Ok e"
  using assms by (auto simp: replay_event_def result_simps split: if_splits)

lemma replayed_in_chain:
  assumes "fetch_event lib conn (event_public_id command) = Ok (Some e)" and "replay_event lib command e = Ok e"
    and "list_chain lib conn (aggregate_type command) (aggregate_public_id command) = Ok es"
  shows "e \<in> set es"
proof -
  obtain r where r: "r \<in> set (events conn)" "row_to_event lib r = Ok e"
    by (rule fetch_event_Ok [OF assms(1)]) (rule that)
  obtain json where "build_event lib command (sequence_number e) (previous_event_hash e) json (created_at e) = Ok e"
    by (rule replay_event_build [OF assms(2)]) (rule that)
  then have "aggregate_type r = aggregate_type command" "aggregate_public_id r = aggregate_public_id command"
    using build_event_Ok(3,4) row_to_event_fields [OF r(2)] by metis+
  then have "r \<in> set (select_chain conn (aggregate_type command) (aggregate_public_id command))"
    using r(1) by (simp add: select_chain_def)
  then show ?thesis using assms(3) r(2)
    by (auto simp: list_chain_def mapM_Ok_iff list_all2_conv_all_nth in_set_conv_nth)
qed

lemma next_event_build:
  assumes "next_event lib command head = Ok e"
  shows "verify_event lib e = Ok ()" and "event_public_id e = event_public_id command"
    and "aggregate_type e = aggregate_type command" and "aggregate_public_id e = aggregate_public_id command"
    and "set (source_evidence_references e) = set (source_evidence_references command)"
    and "replay_event lib command e = Ok e"
proof -
  obtain json where b: "build_event lib command (case head of None \<Rightarrow> 1 | Some h \<Rightarrow> sequence_number h + 1)
      (case head of None \<Rightarrow> ZERO_AUDIT_HASH | Some h \<Rightarrow> event_hash h) json (created_at e) = Ok e"
    and j: "case previous_state command of Some state \<Rightarrow> canonical_json_text state = Ok json | None \<Rightarrow> True"
    by (rule next_event_Ok [OF assms]) (rule that)
  note f = build_event_Ok [OF b]
  show "verify_event lib e = Ok ()" "event_public_id e = event_public_id command"
    "aggregate_type e = aggregate_type command" "aggregate_public_id e = aggregate_public_id command" by (rule f(1-4))+
  show "set (source_evidence_references e) = set (source_evidence_references command)"
    by (rule canonical_references_set [OF f(5)])
  show "replay_event lib command e = Ok e"
    using b j f(6,7,9) by (auto simp: replay_event_def split: option.splits)
qed

text \<open>A successful append leaves a chain that verifies, longer by the new event.\<close>

lemma append_chain:
  assumes "append_financial_audit_event lib conn command = (conn', Ok (e, replayed))"
    and "list_all ascii (source_evidence_references command)"
  obtains es where "list_chain lib conn (aggregate_type command) (aggregate_public_id command) = Ok es"
    and "list_chain lib conn' (aggregate_type command) (aggregate_public_id command) = Ok (if replayed then es else es @ [e])"
    and "audit_chain (if replayed then es else es @ [e])"
    and "if replayed then conn' = conn \<and> e \<in> set es else conn' = with_row conn (event_values e)"
proof -
  obtain es where es: "list_chain lib conn (aggregate_type command) (aggregate_public_id command) = Ok es" "audit_chain es"
    and c: "if replayed
      then conn' = conn \<and> fetch_event lib conn (event_public_id command) = Ok (Some e) \<and> replay_event lib command e = Ok e
      else fetch_event lib conn (event_public_id command) = Ok None \<and> next_event lib command (last_event es) = Ok e \<and>
        verify_event lib e = Ok () \<and> conn' = with_row conn (event_values e)"
    by (rule append_Ok_cases [OF assms(1)]) (rule that)
  show thesis
  proof (cases replayed)
    case True
    then have "e \<in> set es" using replayed_in_chain [OF _ _ es(1)] c by simp
    then show ?thesis using that [OF es(1)] es c True by simp
  next
    case False
    then have n: "next_event lib command (last_event es) = Ok e" and w: "conn' = with_row conn (event_values e)"
      using c by auto
    note b = next_event_build [OF n]
    have a: "audit_chain (es @ [e])"
      using next_event_chain [OF n es(2)] list_chain_verified [OF es(1)] by blast
    have "list_all ascii (source_evidence_references e)" using b(5) assms(2) by (simp add: list_all_iff)
    then have "list_chain lib conn' (aggregate_type command) (aggregate_public_id command) = Ok (es @ [e])"
      using list_chain_append [of lib conn e es] es(1) a b(1,3,4) w by simp
    then show ?thesis using that [OF es(1)] a w False by simp
  qed
qed

section \<open>When an append succeeds\<close>

lemma hexdigest_sha256: "length bs = 32 \<Longrightarrow> is_sha256_text (hexdigest bs)"
  unfolding is_sha256_text_def using hexdigest_hex by blast

lemma domain_hash_sha256: "digest_shape (sha256 lib) \<Longrightarrow> is_sha256_text (domain_hash lib domain m)"
  by (simp add: domain_hash_def hexdigest_sha256 digest_shape_def)

lemma state_hash_sha256: "digest_shape (sha256 lib) \<Longrightarrow> is_sha256_text (state_hash lib m)"
  by (simp add: state_hash_def domain_hash_sha256)

lemma zero_hash_sha256: "is_sha256_text ZERO_AUDIT_HASH"
  by code_simp

lemma non_finite_simple [simp]: "\<not> non_finite (simple_json v)"
  by (induction v rule: simple_json.induct) (simp_all add: list_ex_iff)

lemma compute_event_hash_Ok:
  assumes "digest_shape (sha256 lib)"
  shows "\<exists>h. compute_event_hash lib e p n = Ok h \<and> is_sha256_text h"
proof -
  have "\<not> non_finite (envelope (JObj (map (\<lambda>(k, v). (k, simple_json v)) (event_material e p n))))"
    by (simp add: envelope_def list_ex_iff split_beta)
  then show ?thesis
    using domain_hash_sha256 [OF assms] normalize_mapping [OF material_simple [of e p n]]
    by (simp add: compute_event_hash_def canonical_json_bytes_def canonical_json_text_def dumps_def)
qed

lemma canonical_references_again:
  "canonical_references err refs = Ok refs' \<Longrightarrow> canonical_references err refs' = Ok refs'"
  by (auto simp: canonical_references_def Let_def list_ex_iff sort_key_id_if_sorted split: if_splits)

text \<open>What the validated fields of a command give for every event built from it.\<close>

lemma validate_event_fields_Ok:
  assumes "validate_command lib command = Ok ()"
    and "canonical_references AuditVerificationError (source_evidence_references command) = Ok (source_evidence_references e)"
    and "event_public_id e = event_public_id command" and "audit_schema_version e = audit_schema_version command"
    and "aggregate_type e = aggregate_type command" and "aggregate_public_id e = aggregate_public_id command"
    and "event_type e = event_type command" and "actor_type e = actor_type command"
    and "actor_public_id e = actor_public_id command" and "authorization_public_id e = authorization_public_id command"
    and "calculation_snapshot_public_id e = calculation_snapshot_public_id command"
    and "calculation_snapshot_hash e = calculation_snapshot_hash command"
    and "correlation_public_id e = correlation_public_id command" and "causation_public_id e = causation_public_id command"
    and "normalize_timestamp lib (created_at e) = Ok (created_at e)" and "0 < sequence_number e"
    and "is_sha256_text (previous_state_hash e)" and "is_sha256_text (new_state_hash e)"
    and "is_sha256_text (previous_event_hash e)" and "is_sha256_text (event_hash e)"
  shows "validate_event_fields lib e = Ok ()"
  using assms(1) canonical_references_again [OF assms(2)] assms(2-)
  by (simp add: validate_event_fields_def validate_command_def validate_optional_hash_def validate_hash_def
      result_simps split: if_splits)

lemma build_event_succeeds:
  assumes "validate_command lib command = Ok ()" and "digest_shape (sha256 lib)"
    and "canonical_json_text (event_payload command) = Ok payload_json" and "ascii_object (event_payload command)"
    and "canonical_json_text (new_state command) = Ok new_json" and "ascii_object (new_state command)"
    and "verified_canonical AuditVerificationError previous_json = Ok j"
    and "normalize_timestamp lib created = Ok created" and "0 < number" and "is_sha256_text h"
  shows "\<exists>e. build_event lib command number h previous_json created = Ok e"
proof -
  obtain refs where refs: "canonical_references AuditVerificationError (source_evidence_references command) = Ok refs"
    using assms(1) by (auto simp: validate_command_def result_simps split: if_splits)
  define e where "e hash = \<lparr>event_public_id = event_public_id command,
        audit_schema_version = audit_schema_version command,
        aggregate_type = aggregate_type command,
        aggregate_public_id = aggregate_public_id command,
        event_type = event_type command,
        actor_type = actor_type command,
        actor_public_id = actor_public_id command,
        authorization_public_id = authorization_public_id command,
        calculation_snapshot_public_id = calculation_snapshot_public_id command,
        calculation_snapshot_hash = calculation_snapshot_hash command,
        source_evidence_references = refs,
        correlation_public_id = correlation_public_id command,
        causation_public_id = causation_public_id command,
        created_at = created,
        event_payload_json = payload_json,
        previous_state_json = previous_json,
        new_state_json = new_json,
        previous_state_hash = state_hash lib (encode previous_json),
        new_state_hash = state_hash lib (encode new_json),
        previous_event_hash = h,
        event_hash = hash,
        sequence_number = number\<rparr>" for hash
  have same: "compute_event_hash lib (e x) p n = compute_event_hash lib (e y) p n" for x y p n
    by (simp add: e_def compute_event_hash_def event_material_def)
  obtain hash where hash: "compute_event_hash lib (e ZERO_AUDIT_HASH) (state_hash lib (encode previous_json))
      (state_hash lib (encode new_json)) = Ok hash" "is_sha256_text hash"
    using compute_event_hash_Ok [OF assms(2)] by blast
  have "\<exists>j. verified_canonical AuditVerificationError payload_json = Ok j"
    "\<exists>j. verified_canonical AuditVerificationError new_json = Ok j"
    using canonical_json_text_Ok [OF assms(3,4)] canonical_json_verified [OF assms(3,4)]
      canonical_json_text_Ok [OF assms(5,6)] canonical_json_verified [OF assms(5,6)] by metis+
  moreover have "validate_event_fields lib (e hash) = Ok ()"
    by (rule validate_event_fields_Ok [OF assms(1)])
       (simp_all add: e_def refs assms(8,9,10) hash(2) state_hash_sha256 assms(2))
  moreover have "audit_schema_version command = AUDIT_SCHEMA_VERSION"
    using assms(1) by (auto simp: validate_command_def SUPPORTED_AUDIT_SCHEMA_VERSIONS_def split: if_splits)
  moreover have "compute_event_hash lib (e hash) (state_hash lib (encode previous_json)) (state_hash lib (encode new_json)) = Ok hash"
    using hash(1) same by metis
  ultimately have v: "verify_event lib (e hash) = Ok ()"
    using assms(7) by (simp add: verify_event_iff e_def)
  have "build_event lib command number h previous_json created = Ok (e hash)"
    using hash(1) v by (simp add: build_event_def assms(3,5) refs Let_def e_def)
  then show ?thesis ..
qed

text \<open>The checks of the table never refuse a verified event.\<close>

lemma verified_event_checks:
  assumes "verify_event lib e = Ok ()"
  shows "audit_event_checks (event_values e)"
proof -
  have strip: "py_strip s \<noteq> [] \<Longrightarrow> s \<noteq> []" for s by (auto simp: py_strip_def)
  have time: "normalize_timestamp lib [] = Ok [] \<Longrightarrow> False"
    by (auto simp: normalize_timestamp_def result_simps utc_text_def)
  have "validate_event_fields lib e = Ok ()" "audit_schema_version e = ''v1''"
    using assms by (simp_all add: verify_event_iff AUDIT_SCHEMA_VERSION_def)
  then show ?thesis
    by (auto simp: audit_event_checks_def event_values_def validate_event_fields_def validate_command_def
        validate_hash_def validate_optional_hash_def blank_option_def result_simps
        split: if_splits option.splits dest!: time dest: strip)
qed

definition serializable :: "py_object \<Rightarrow> bool" where
  "serializable v \<longleftrightarrow> ascii_object v \<and> (case canonical_json_text v of Inr _ \<Rightarrow> True | Inl _ \<Rightarrow> False)"

text \<open>
  A command that may follow the given head: its fields are valid, its states serializable, its
  expectations of the head are met, and the time it carries has a canonical text that is read back.
\<close>

definition acceptable :: "stdlib \<Rightarrow> financial_audit_event option \<Rightarrow> audit_event_command \<Rightarrow> bool" where
  "acceptable lib head command \<longleftrightarrow>
     validate_command lib command = Ok () \<and>
     rbind (normalize_timestamp lib (created_at command)) (normalize_timestamp lib) =
       normalize_timestamp lib (created_at command) \<and>
     serializable (event_payload command) \<and> serializable (new_state command) \<and>
     (case expected_previous_event_hash command of
        None \<Rightarrow> True
      | Some h \<Rightarrow> h = (case head of None \<Rightarrow> ZERO_AUDIT_HASH | Some e \<Rightarrow> event_hash e)) \<and>
     (case previous_state command of
        None \<Rightarrow> True
      | Some s \<Rightarrow> serializable s \<and>
          (case head of None \<Rightarrow> True | Some e \<Rightarrow> financial_state_hash lib s = Ok (new_state_hash e)))"

lemma serializable_verified:
  assumes "serializable v"
  obtains t j where "canonical_json_text v = Ok t" and "verified_canonical err t = Ok j"
proof -
  obtain t where t: "canonical_json_text v = Ok t" and a: "ascii_object v"
    using assms by (auto simp: serializable_def split: sum.splits)
  then show thesis using that canonical_json_text_Ok [OF t a] canonical_json_verified [OF t a] by metis
qed

lemma serializable_None: "serializable ONone"
  by code_simp

lemma previous_state_text_succeeds:
  assumes "acceptable lib head command" and "case head of None \<Rightarrow> True | Some h \<Rightarrow> verify_event lib h = Ok ()"
  shows "\<exists>json j. previous_state_text lib command head = Ok json \<and> verified_canonical AuditVerificationError json = Ok j"
proof (cases "previous_state command")
  case None
  obtain t j where "canonical_json_text ONone = Ok t" "verified_canonical AuditVerificationError t = Ok j"
    by (rule serializable_verified [OF serializable_None]) (rule that)
  then show ?thesis using None assms(2) by (cases head) (simp_all add: previous_state_text_def verify_event_iff)
next
  case (Some state)
  then have st: "serializable state" "case head of None \<Rightarrow> True | Some e \<Rightarrow> financial_state_hash lib state = Ok (new_state_hash e)"
    using assms(1) by (simp_all add: acceptable_def)
  obtain t j where "canonical_json_text state = Ok t" "verified_canonical AuditVerificationError t = Ok j"
    by (rule serializable_verified [OF st(1)]) (rule that)
  then show ?thesis using Some st(2) by (cases head) (simp_all add: previous_state_text_def)
qed

lemma next_event_succeeds:
  assumes "acceptable lib head command" and "digest_shape (sha256 lib)"
    and "case head of None \<Rightarrow> True | Some h \<Rightarrow> verify_event lib h = Ok ()"
  shows "\<exists>e. next_event lib command head = Ok e"
proof -
  have v: "validate_command lib command = Ok ()" using assms(1) by (simp add: acceptable_def)
  then obtain created where c: "normalize_timestamp lib (created_at command) = Ok created"
    by (auto simp: validate_command_def result_simps split: if_splits)
  then have c': "normalize_timestamp lib created = Ok created" using assms(1) by (simp add: acceptable_def)
  obtain p n where t: "canonical_json_text (event_payload command) = Ok p" "ascii_object (event_payload command)"
      "canonical_json_text (new_state command) = Ok n" "ascii_object (new_state command)"
    using assms(1) by (auto simp: acceptable_def serializable_def split: sum.splits)
  have h: "is_sha256_text (event_hash x) \<and> 0 < sequence_number x + 1" if "head = Some x" for x
    using assms(3) that by (auto simp: verify_event_iff validate_event_fields_def validate_hash_def result_simps)
  obtain json j where json: "previous_state_text lib command head = Ok json" "verified_canonical AuditVerificationError json = Ok j"
    using previous_state_text_succeeds [OF assms(1,3)] by blast
  have "\<exists>e. build_event lib command (case head of None \<Rightarrow> 1 | Some h \<Rightarrow> sequence_number h + 1)
      (case head of None \<Rightarrow> ZERO_AUDIT_HASH | Some h \<Rightarrow> event_hash h) json created = Ok e"
    using h by (intro build_event_succeeds [OF v assms(2) t json(2) c']) (auto simp: zero_hash_sha256 split: option.splits)
  moreover have "\<not> (expected_previous_event_hash command \<noteq> None \<and>
      expected_previous_event_hash command \<noteq> Some (case head of None \<Rightarrow> ZERO_AUDIT_HASH | Some h \<Rightarrow> event_hash h))"
    using assms(1) by (auto simp: acceptable_def split: option.splits)
  ultimately show ?thesis using json(1) c by (simp add: next_event_def Let_def)
qed

lemma append_succeeds:
  assumes "digest_shape (sha256 lib)" and "write_admission conn = Ok ()" and "in_transaction conn"
    and "list_chain lib conn (aggregate_type command) (aggregate_public_id command) = Ok es" and "audit_chain es"
    and "acceptable lib (last_event es) command"
    and "\<forall>r \<in> set (events conn). event_public_id r \<noteq> event_public_id command"
  obtains e where "next_event lib command (last_event es) = Ok e"
    and "append_financial_audit_event lib conn command =
      (if list_ex (\<lambda>r. same_identity r (event_values e)) (events conn)
       then (conn, raise AuditChainConflictError ''Audit chain append conflicted in SQLite'')
       else (with_row conn (event_values e), Ok (e, False)))"
proof -
  have "case last_event es of None \<Rightarrow> True | Some h \<Rightarrow> verify_event lib h = Ok ()"
    using list_chain_verified [OF assms(4)] by simp
  then obtain e where e: "next_event lib command (last_event es) = Ok e"
    using next_event_succeeds [OF assms(6,1)] by blast
  obtain v where v: "verify_financial_audit_chain lib conn (aggregate_type command) (aggregate_public_id command) = Ok v" "valid v"
    using verify_chain_count [OF assms(4,5)] by blast
  have f: "fetch_event lib conn (event_public_id command) = Ok None"
  proof -
    have "find (\<lambda>r. event_public_id r = event_public_id command) (events conn) = None"
      using assms(7) by (simp add: find_None_iff)
    then show ?thesis by (simp add: fetch_event_def)
  qed
  have i: "insert_event lib conn e = (if list_ex (\<lambda>r. same_identity r (event_values e)) (events conn)
      then (conn, raise IntegrityError MIGRATION_035_AUDIT_COLLISION_MESSAGE) else (with_row conn (event_values e), Ok ()))"
    using next_event_build(1) [OF e] verified_event_checks by (simp add: insert_event_def Let_def)
  have "validate_command lib command = Ok ()" using assms(6) by (simp add: acceptable_def)
  then have "append_financial_audit_event lib conn command =
      (if list_ex (\<lambda>r. same_identity r (event_values e)) (events conn)
       then (conn, raise AuditChainConflictError ''Audit chain append conflicted in SQLite'')
       else (with_row conn (event_values e), Ok (e, False)))"
    using assms(2,3) v f i chain_head_last [OF assms(4)] e
    by (simp add: append_financial_audit_event_def conflict_on_insert_def)
  then show thesis by (rule that [OF e])
qed

end
