(* ===== verification/Audit_Trail.thy ===== *)
theory Audit_Trail
  imports Audit_Chain
begin

text \<open>
  What the audit chains guarantee to their users: verification accepts exactly the chains, an append
  adds one event to a chain or changes nothing, replaying a command is harmless, and the hash of
  the last event commits to the whole history. A small chain serves as the example.
\<close>

section \<open>Events built from ASCII commands\<close>

lemma ascii_hash: "is_sha256_text h \<Longrightarrow> ascii h"
  unfolding is_sha256_text_def using ascii_hex by blast

lemma build_event_ascii:
  assumes "build_event lib command number h json created = Ok e" and "ascii_fields command"
    and "ascii_object (event_payload command)" and "ascii_object (new_state command)" and "ascii json" and "ascii created"
  shows "ascii_event e"
proof -
  have v: "verify_event lib e = Ok ()" by (rule build_event_Ok(1) [OF assms(1)])
  then have "is_sha256_text (previous_state_hash e)" "is_sha256_text (new_state_hash e)" "is_sha256_text (previous_event_hash e)"
    by (auto simp: verify_event_iff validate_event_fields_def validate_hash_def result_simps)
  then have "ascii (previous_state_hash e)" "ascii (new_state_hash e)" "ascii (previous_event_hash e)"
    using ascii_hash by blast+
  moreover have "canonical_json_text (event_payload command) = Ok (event_payload_json e)"
    "canonical_json_text (new_state command) = Ok (new_state_json e)"
    using assms(1) by (auto simp: build_event_def result_simps Let_def)
  then have "ascii (event_payload_json e)" "ascii (new_state_json e)" using ascii_canonical_text assms(3,4) by blast+
  moreover have "set (source_evidence_references e) = set (source_evidence_references command)"
    using canonical_references_set build_event_Ok(5) [OF assms(1)] by blast
  then have "ascii_fields e"
    using assms(1,2,6) by (auto simp: build_event_def result_simps Let_def ascii_fields_def list_all_iff)
  moreover have "ascii (previous_state_json e)" using build_event_Ok(9) [OF assms(1)] assms(5) by simp
  ultimately show ?thesis by (simp add: ascii_event_def)
qed

lemma ascii_timestamp: "normalize_timestamp lib s = Ok t \<Longrightarrow> ascii t"
  by (auto simp: normalize_timestamp_def result_simps split_beta)

section \<open>A sample chain\<close>

definition sample_command :: "string \<Rightarrow> int \<Rightarrow> audit_event_command" where
  "sample_command i n =
     \<lparr>event_public_id = i, audit_schema_version = ''v1'', aggregate_type = ''receipt'',
      aggregate_public_id = ''r-1'', event_type = ''finalized'', actor_type = ''human'', actor_public_id = ''u-1'',
      authorization_public_id = None, calculation_snapshot_public_id = None, calculation_snapshot_hash = None,
      source_evidence_references = [''b'', ''a''], correlation_public_id = ''c-1'', causation_public_id = i,
      created_at = sample_time, event_payload = OInt n, new_state = OInt n, previous_state = None,
      expected_previous_event_hash = None\<rparr>"

definition sample_conn :: "tables connection" where
  "sample_conn = \<lparr>write_admission = Ok (), begin_outcome = Ok (), commit_outcome = Commits, tables = \<lparr>financial_audit_events = []\<rparr>, rollback_tables = Some \<lparr>financial_audit_events = []\<rparr>\<rparr>"

lemma sample_acceptable: "acceptable sample_lib None (sample_command ''e-1'' 5)"
  by code_simp

lemma sample_first:
  obtains e where "append_financial_audit_event sample_lib sample_conn (sample_command ''e-1'' 5) =
    (with_row sample_conn (event_values e), Ok (e, False))" and "ascii_event e"
proof -
  let ?c = "sample_command ''e-1'' 5"
  have c: "list_chain sample_lib sample_conn (aggregate_type ?c) (aggregate_public_id ?c) = Ok []" by code_simp
  obtain e where e: "next_event sample_lib ?c None = Ok e" and a: "append_financial_audit_event sample_lib sample_conn ?c =
      (if list_ex (\<lambda>r. same_identity r (event_values e)) (events sample_conn)
       then (sample_conn, raise AuditChainConflictError ''Audit chain append conflicted in SQLite'')
       else (with_row sample_conn (event_values e), Ok (e, False)))"
    using append_succeeds [OF sample_shape _ _ c, of thesis] sample_acceptable by (simp add: sample_conn_def)
  obtain json where b: "build_event sample_lib ?c 1 ZERO_AUDIT_HASH json (created_at e) = Ok e"
    using next_event_Ok [OF e] by auto
  have "canonical_json_text ONone = Ok json"
    using e build_event_Ok(9) [OF b] by (auto simp: next_event_def previous_state_text_def sample_command_def result_simps Let_def dest: build_event_Ok(9) split: if_splits)
  then have "ascii json" by (rule ascii_canonical_text) simp
  moreover have "normalize_timestamp sample_lib (created_at e) = Ok (created_at e)"
    using build_event_Ok(1) [OF b] by (auto simp: verify_event_iff validate_event_fields_def result_simps)
  then have "ascii (created_at e)" by (rule ascii_timestamp)
  moreover have "ascii_fields ?c"
    by (simp add: ascii_fields_def sample_command_def sample_time_def)
  moreover have "ascii_object (event_payload ?c)" "ascii_object (new_state ?c)" by (simp_all add: sample_command_def)
  ultimately have "ascii_event e" using build_event_ascii [OF b] by blast
  moreover have "events sample_conn = []" by (simp add: sample_conn_def)
  ultimately show thesis using that a by simp
qed


lemma find_snoc: "find P xs = None \<Longrightarrow> find P (xs @ [x]) = (if P x then Some x else None)"
  by (induction xs) (auto split: if_splits)

text \<open>The row of a new event is the one found under the command's public id.\<close>

lemma stored_event_fetched:
  assumes "fetch_event lib conn (event_public_id command) = Ok None" and "next_event lib command head = Ok e"
    and "list_all ascii (source_evidence_references command)"
  shows "fetch_event lib (with_row conn (event_values e)) (event_public_id command) = Ok (Some e) \<and>
    replay_event lib command e = Ok e"
proof -
  note b = next_event_build [OF assms(2)]
  have "list_all ascii (source_evidence_references e)" using b(5) assms(3) by (simp add: list_all_iff)
  then have "row_to_event lib (event_values e) = Ok e" using b(1) by (intro row_to_event_values)
  moreover have "find (\<lambda>r. event_public_id r = event_public_id command) (events conn) = None"
    using assms(1) by (auto simp: fetch_event_def result_simps split: option.splits)
  then have "find (\<lambda>r. event_public_id r = event_public_id command) (events conn @ [event_values e]) = Some (event_values e)"
    using b(2) by (simp add: find_snoc)
  ultimately show ?thesis using b(6) by (simp add: fetch_event_def)
qed

text \<open>The chain after the first event of the example.\<close>

lemma sample_chain:
  assumes "append_financial_audit_event sample_lib sample_conn (sample_command ''e-1'' 5) = (conn', Ok (e, False))"
  shows "list_chain sample_lib conn' ''receipt'' ''r-1'' = Ok [e] \<and> audit_chain [e]"
proof -
  have a: "list_all ascii (source_evidence_references (sample_command ''e-1'' 5))" by code_simp
  have c: "aggregate_type (sample_command ''e-1'' 5) = ''receipt''" "aggregate_public_id (sample_command ''e-1'' 5) = ''r-1''"
    by (simp_all add: sample_command_def)
  have "list_chain sample_lib sample_conn ''receipt'' ''r-1'' = Ok []" by code_simp
  moreover obtain es where "list_chain sample_lib sample_conn ''receipt'' ''r-1'' = Ok es"
    "list_chain sample_lib conn' ''receipt'' ''r-1'' = Ok (es @ [e])" "audit_chain (es @ [e])"
    by (rule append_chain [OF assms a, unfolded c]) (simp add: that)
  ultimately show ?thesis by simp
qed

section \<open>Properties\<close>

text \<open>
  C21 Verification is exact. A chain is reported valid with n events exactly when its rows hold n
  events that verify one by one, numbered from one, each carrying the hash of the one before it and
  starting from the state in which the one before it ended.
\<close>

theorem verify_chain_exact:
  "(\<exists>v. verify_financial_audit_chain lib conn kind public_id = Ok v \<and> valid v \<and> event_count v = int n) \<longleftrightarrow>
   (\<exists>es. list_chain lib conn kind public_id = Ok es \<and> audit_chain es \<and> length es = n)"
proof
  assume "\<exists>v. verify_financial_audit_chain lib conn kind public_id = Ok v \<and> valid v \<and> event_count v = int n"
  then obtain v where v: "verify_financial_audit_chain lib conn kind public_id = Ok v" "valid v" "event_count v = int n"
    by blast
  then have "accepted (verify_financial_audit_chain lib conn kind public_id)" by (simp add: accepted_def)
  then obtain es where es: "list_chain lib conn kind public_id = Ok es" "audit_chain es"
    unfolding verify_chain_accepts by blast
  then show "\<exists>es. list_chain lib conn kind public_id = Ok es \<and> audit_chain es \<and> length es = n"
    using verify_chain_count [OF es] v by auto
next
  assume "\<exists>es. list_chain lib conn kind public_id = Ok es \<and> audit_chain es \<and> length es = n"
  then show "\<exists>v. verify_financial_audit_chain lib conn kind public_id = Ok v \<and> valid v \<and> event_count v = int n"
    using verify_chain_count by blast
qed

text \<open>
  C20 Appending keeps the chain valid. A successful append leaves the rows as they were and reports a
  replay of an event of the chain, or it adds exactly one row; in both cases the chain verifies
  afterwards.
\<close>

theorem append_extends_chain:
  assumes "append_financial_audit_event lib conn command = (conn', Ok (e, replayed))"
    and "list_all ascii (source_evidence_references command)"
  shows "\<exists>es v. list_chain lib conn (aggregate_type command) (aggregate_public_id command) = Ok es \<and>
    (if replayed then conn' = conn \<and> e \<in> set es
     else events conn' = events conn @ [event_values e] \<and>
       list_chain lib conn' (aggregate_type command) (aggregate_public_id command) = Ok (es @ [e])) \<and>
    verify_financial_audit_chain lib conn' (aggregate_type command) (aggregate_public_id command) = Ok v \<and> valid v"
proof -
  obtain es where es: "list_chain lib conn (aggregate_type command) (aggregate_public_id command) = Ok es"
    "list_chain lib conn' (aggregate_type command) (aggregate_public_id command) = Ok (if replayed then es else es @ [e])"
    "audit_chain (if replayed then es else es @ [e])"
    "if replayed then conn' = conn \<and> e \<in> set es else conn' = with_row conn (event_values e)"
    by (rule append_chain [OF assms]) (rule that)
  then obtain v where "verify_financial_audit_chain lib conn' (aggregate_type command) (aggregate_public_id command) = Ok v"
    "valid v" using verify_chain_count [OF es(2,3)] by blast
  then show ?thesis using es by (cases replayed) auto
qed

theorem append_extends_chain_witness:
  "\<exists>conn' e v. append_financial_audit_event sample_lib sample_conn (sample_command ''e-1'' 5) = (conn', Ok (e, False)) \<and>
     events conn' = [event_values e] \<and>
     verify_financial_audit_chain sample_lib conn' ''receipt'' ''r-1'' = Ok v \<and> valid v"
proof -
  obtain e where e: "append_financial_audit_event sample_lib sample_conn (sample_command ''e-1'' 5) =
      (with_row sample_conn (event_values e), Ok (e, False))"
    by (rule sample_first) (rule that)
  have "list_all ascii (source_evidence_references (sample_command ''e-1'' 5))" by code_simp
  from append_extends_chain [OF e this] e show ?thesis by (auto simp: sample_command_def sample_conn_def)
qed

text \<open>
  C22 Replay is harmless. Once a command has been appended, appending it again returns the same event,
  says that it is a replay, and changes nothing.
\<close>

theorem append_replay:
  assumes "append_financial_audit_event lib conn command = (conn', Ok (e, replayed))"
    and "list_all ascii (source_evidence_references command)"
  shows "append_financial_audit_event lib conn' command = (conn', Ok (e, True))"
proof -
  obtain es where s: "write_admission conn = Ok ()" "in_transaction conn" "validate_command lib command = Ok ()" and
    c: "if replayed
      then conn' = conn \<and> fetch_event lib conn (event_public_id command) = Ok (Some e) \<and> replay_event lib command e = Ok e
      else fetch_event lib conn (event_public_id command) = Ok None \<and> next_event lib command (last_event es) = Ok e \<and>
        verify_event lib e = Ok () \<and> conn' = with_row conn (event_values e)"
    by (rule append_Ok_cases [OF assms(1)]) (rule that)
  obtain es' where "list_chain lib conn' (aggregate_type command) (aggregate_public_id command) = Ok es'" "audit_chain es'"
    by (rule append_chain [OF assms]) (rule that)
  then obtain v where v: "verify_financial_audit_chain lib conn' (aggregate_type command) (aggregate_public_id command) = Ok v"
    "valid v" using verify_chain_count by blast
  have "fetch_event lib conn' (event_public_id command) = Ok (Some e) \<and> replay_event lib command e = Ok e"
    using c stored_event_fetched [of lib conn command "last_event es" e] assms(2) by (cases replayed) auto
  moreover have "write_admission conn' = Ok ()" "in_transaction conn'" using s(1,2) c by (auto split: if_splits)
  ultimately show ?thesis using s(3) v by (simp add: append_financial_audit_event_def)
qed

theorem append_replay_witness:
  "\<exists>conn' e. append_financial_audit_event sample_lib sample_conn (sample_command ''e-1'' 5) = (conn', Ok (e, False)) \<and>
     append_financial_audit_event sample_lib conn' (sample_command ''e-1'' 5) = (conn', Ok (e, True))"
proof -
  obtain e where e: "append_financial_audit_event sample_lib sample_conn (sample_command ''e-1'' 5) =
      (with_row sample_conn (event_values e), Ok (e, False))"
    by (rule sample_first) (rule that)
  have "list_all ascii (source_evidence_references (sample_command ''e-1'' 5))" by code_simp
  from append_replay [OF e this] e show ?thesis by blast
qed

text \<open>
  C23 A standalone append is all or nothing. It returns with no transaction open unless one was open
  before; on an error the tables are as they were, and on success they have at most the row of the
  returned event in addition.
\<close>

theorem atomic_append_all_or_nothing:
  "case append_financial_audit_event_atomically lib conn command of
     (conn', Inl err) \<Rightarrow> conn' = conn
   | (conn', Inr (e, replayed)) \<Rightarrow>
       \<not> in_transaction conn \<and> \<not> in_transaction conn' \<and> write_admission conn' = Ok () \<and>
       tables conn' = (if replayed then tables conn
         else (tables conn)\<lparr>financial_audit_events := events conn @ [event_values e]\<rparr>)"
proof -
  obtain conn' r where cr: "append_financial_audit_event_atomically lib conn command = (conn', r)" by fastforce
  note a = audit_append.all_or_nothing [where lib = lib and command = command and conn = conn
      and busy = "PyError AuditChainTransactionError ''Standalone audit append requires no pending transaction''",
      folded append_financial_audit_event_atomically_def, unfolded cr]
  show ?thesis
  proof (cases r)
    case (Inl err)
    then show ?thesis using a cr by simp
  next
    case (Inr er)
    obtain e replayed where er: "er = (e, replayed)" by (cases er)
    then have b: "append_financial_audit_event lib (begun conn) command =
        ((begun conn)\<lparr>tables := tables conn'\<rparr>, Ok (e, replayed))" using a Inr by simp
    have "tables conn' = (if replayed then tables conn
        else (tables conn)\<lparr>financial_audit_events := events conn @ [event_values e]\<rparr>)"
      using arg_cong [OF append_tables [OF b], of tables] by simp
    then show ?thesis using a cr Inr er by simp
  qed
qed

text \<open>
  C19 The last hash commits to the history. If two databases both verify for an aggregate and agree
  on the hash of its last event, then they hold the same events, or an event of one and an event of
  the other have different hashed texts with the same SHA-256 digest.
\<close>

theorem audit_head_commits:
  assumes "list_chain lib conn kind public_id = Ok es" and "list_chain lib other kind public_id = Ok fs"
    and "verify_financial_audit_chain lib conn kind public_id = Ok v" and "valid v"
    and "verify_financial_audit_chain lib other kind public_id = Ok w" and "valid w"
    and "es \<noteq> []" and "fs \<noteq> []" and "event_hash (last es) = event_hash (last fs)"
    and "list_all ascii_event (es @ fs)" and "digest_shape (sha256 lib)"
  shows "es = fs \<or> (\<exists>e \<in> set es. \<exists>f \<in> set fs. collision (sha256 lib) (event_preimage e) (event_preimage f))"
proof -
  have "audit_chain es" "audit_chain fs"
    using verify_chain_accepts [of lib conn kind public_id] verify_chain_accepts [of lib other kind public_id] assms(1-6)
    by (auto simp: accepted_def)
  moreover have "\<forall>e \<in> set es \<union> set fs. verify_event lib e = Ok () \<and> ascii_event e"
    using list_chain_verified [OF assms(1)] list_chain_verified [OF assms(2)] assms(10) by (auto simp: list_all_iff)
  ultimately show ?thesis using same_head_chains assms(7-9,11) by blast
qed

theorem audit_head_commits_witness:
  "\<exists>(conn :: tables connection) (other :: tables connection) es fs.
     list_chain sample_lib conn ''receipt'' ''r-1'' = Ok es \<and> in_transaction conn \<and> es \<noteq> [] \<and>
     list_chain sample_lib other ''receipt'' ''r-1'' = Ok fs \<and> \<not> in_transaction other \<and>
     (es = fs \<or> (\<exists>e \<in> set es. \<exists>f \<in> set fs. collision (sha256 sample_lib) (event_preimage e) (event_preimage f)))"
proof -
  obtain e where e: "append_financial_audit_event sample_lib sample_conn (sample_command ''e-1'' 5) =
      (with_row sample_conn (event_values e), Ok (e, False))" "ascii_event e"
    by (rule sample_first) (rule that)
  let ?conn = "with_row sample_conn (event_values e)"
  have l: "list_chain sample_lib ?conn ''receipt'' ''r-1'' = Ok [e]" "audit_chain [e]"
    using sample_chain [OF e(1)] by blast+
  then have m: "list_chain sample_lib (closed ?conn) ''receipt'' ''r-1'' = Ok [e]"
    by (simp add: list_chain_def select_chain_def)
  obtain v w where v: "verify_financial_audit_chain sample_lib ?conn ''receipt'' ''r-1'' = Ok v" "valid v"
    and w: "verify_financial_audit_chain sample_lib (closed ?conn) ''receipt'' ''r-1'' = Ok w" "valid w"
    using verify_chain_count [OF l] verify_chain_count [OF m l(2)] by blast
  have "[e] = [e] \<or> (\<exists>x \<in> set [e]. \<exists>y \<in> set [e]. collision (sha256 sample_lib) (event_preimage x) (event_preimage y))"
    by (rule audit_head_commits [OF l(1) m v w]) (simp_all add: e(2) sample_shape)
  moreover have "in_transaction ?conn" "\<not> in_transaction (closed ?conn)" by (simp_all add: sample_conn_def)
  ultimately show ?thesis using l(1) m by blast
qed

text \<open>
  C24 When an append succeeds. For a command that is acceptable after the last event of a valid chain
  and whose public id is new, an append in an admitted transaction adds the next event; the only way
  to fail is a conflict with a stored row that has one of the identities of the new event.
\<close>

theorem append_accepts:
  assumes "digest_shape (sha256 lib)" and "write_admission conn = Ok ()" and "in_transaction conn"
    and "list_chain lib conn (aggregate_type command) (aggregate_public_id command) = Ok es" and "audit_chain es"
    and "acceptable lib (last_event es) command"
    and "\<forall>r \<in> set (events conn). event_public_id r \<noteq> event_public_id command"
  shows "\<exists>e. next_event lib command (last_event es) = Ok e \<and>
    append_financial_audit_event lib conn command =
      (if list_ex (\<lambda>r. same_identity r (event_values e)) (events conn)
       then (conn, raise AuditChainConflictError ''Audit chain append conflicted in SQLite'')
       else (with_row conn (event_values e), Ok (e, False)))"
  by (rule append_succeeds [OF assms]) blast

theorem append_accepts_witness:
  "\<exists>e. append_financial_audit_event sample_lib sample_conn (sample_command ''e-1'' 5) =
     (with_row sample_conn (event_values e), Ok (e, False))"
proof -
  have "list_chain sample_lib sample_conn (aggregate_type (sample_command ''e-1'' 5))
      (aggregate_public_id (sample_command ''e-1'' 5)) = Ok []" by code_simp
  from append_accepts [OF sample_shape _ _ this] sample_acceptable show ?thesis by (auto simp: sample_conn_def)
qed

end
