(* ===== verification/Snapshot.thy ===== *)
theory Snapshot
  imports Audit_Trail
begin

text \<open>
  Authoritative calculation snapshots, the second part of
  \<open>finance_core/calculation/authoritative_snapshot.py\<close>: building and verifying a snapshot, its table
  (migration 024), persisting it inside a transaction or in its own, the audit event that a
  finalized snapshot appends, and the checks made before a snapshot is used.
\<close>

section \<open>Snapshots and rows\<close>

text \<open>
  As for audit events, the source references are a list in a snapshot and a JSON text in a row.
\<close>

record 'r snapshot_fields =
  snapshot_public_id :: string
  snapshot_schema_version :: string
  calculation_type :: string
  snapshot_aggregate_public_id :: string
  money_contract_version :: string
  currency_contract_version :: string
  algorithm_version :: string
  source_references :: 'r
  previous_snapshot_public_id :: "string option"
  snapshot_actor_type :: string
  snapshot_actor_public_id :: "string option"
  authorization_reference :: "string option"
  finalization_status :: string
  snapshot_created_at :: string

text \<open>The arguments of \<open>build_authoritative_snapshot\<close>.\<close>

record snapshot_request = "string list snapshot_fields" +
  input_payload :: py_object
  output_payload :: py_object
  rules_payload :: py_object

record 'r snapshot_columns = "'r snapshot_fields" +
  input_payload_json :: string
  output_payload_json :: string
  rules_payload_json :: string
  input_hash :: string
  output_hash :: string
  rules_hash :: string
  combined_snapshot_hash :: string

type_synonym authoritative_calculation_snapshot = "string list snapshot_columns"
type_synonym snapshot_row = "string snapshot_columns"

text \<open>Of the older table \<open>calculation_snapshots\<close> only the identifiers are looked at.\<close>

record snapshot_tables = tables +
  authoritative_calculation_snapshots :: "snapshot_row list"
  legacy_snapshot_ids :: "string list"

definition SNAPSHOT_SCHEMA_VERSION :: string where
  "SNAPSHOT_SCHEMA_VERSION = ''v1''"

definition SUPPORTED_SNAPSHOT_SCHEMA_VERSIONS :: "string list" where
  "SUPPORTED_SNAPSHOT_SCHEMA_VERSIONS = [SNAPSHOT_SCHEMA_VERSION]"

definition VALID_FINALIZATION_STATUSES :: "string list" where
  "VALID_FINALIZATION_STATUSES = [''draft'', ''finalized'', ''invalidated'']"


section \<open>Verification\<close>

definition snapshot_references :: "string list \<Rightarrow> string list result" where
  "snapshot_references values = canonical_references SnapshotVerificationError values"

definition validate_required_fields :: "stdlib \<Rightarrow> authoritative_calculation_snapshot \<Rightarrow> unit result" where
  "validate_required_fields lib s =
     (if list_ex (\<lambda>value. py_strip value = [])
        [snapshot_public_id s, calculation_type s, snapshot_aggregate_public_id s, money_contract_version s,
         currency_contract_version s, algorithm_version s, snapshot_actor_type s, snapshot_created_at s]
      then raise SnapshotVerificationError ''Missing snapshot fields''
      else
        rbind (ensure (finalization_status s \<in> set VALID_FINALIZATION_STATUSES)
          SnapshotVerificationError ''Invalid snapshot finalization status'') (\<lambda>_.
        rbind (aware_timestamp lib SnapshotVerificationError (snapshot_created_at s)) (\<lambda>_.
        rbind (ensure (previous_snapshot_public_id s \<noteq> Some (snapshot_public_id s))
          SnapshotVerificationError ''Snapshot cannot reference itself as previous'') (\<lambda>_.
        rbind (snapshot_references (source_references s)) (\<lambda>refs.
        ensure (refs = source_references s)
          SnapshotVerificationError ''Snapshot source references are not canonical'')))))"

definition rules_binding :: "json \<Rightarrow> ('r, 'z) snapshot_fields_scheme \<Rightarrow> bytes result" where
  "rules_binding rules s =
     canonical_json_bytes (mapping_of
       [(''rules_payload'', json_object rules),
        (''algorithm_version'', OStr (algorithm_version s)),
        (''money_contract_version'', OStr (money_contract_version s)),
        (''currency_contract_version'', OStr (currency_contract_version s))])"

definition combined_material ::
  "(string list, 'z) snapshot_fields_scheme \<Rightarrow> string \<Rightarrow> string \<Rightarrow> string \<Rightarrow> (string \<times> py_object) list" where
  "combined_material s input_digest output_digest rules_digest =
     [(''snapshot_schema_version'', OStr (snapshot_schema_version s)),
      (''calculation_type'', OStr (calculation_type s)),
      (''aggregate_public_id'', OStr (snapshot_aggregate_public_id s)),
      (''input_hash'', OStr input_digest),
      (''output_hash'', OStr output_digest),
      (''rules_hash'', OStr rules_digest),
      (''money_contract_version'', OStr (money_contract_version s)),
      (''currency_contract_version'', OStr (currency_contract_version s)),
      (''algorithm_version'', OStr (algorithm_version s)),
      (''source_references'', OList (map OStr (source_references s))),
      (''previous_snapshot_public_id'', optional_str (previous_snapshot_public_id s)),
      (''actor_type'', OStr (snapshot_actor_type s)),
      (''actor_public_id'', optional_str (snapshot_actor_public_id s)),
      (''authorization_reference'', optional_str (authorization_reference s)),
      (''finalization_status'', OStr (finalization_status s))]"

definition combined_hash ::
  "stdlib \<Rightarrow> (string list, 'z) snapshot_fields_scheme \<Rightarrow> string \<Rightarrow> string \<Rightarrow> string \<Rightarrow> string result" where
  "combined_hash lib s input_digest output_digest rules_digest =
     rbind (canonical_json_bytes (mapping_of (combined_material s input_digest output_digest rules_digest)))
       (\<lambda>material. Ok (domain_hash lib ''finance-combined-snapshot-v1'' material))"

definition verify_snapshot :: "stdlib \<Rightarrow> authoritative_calculation_snapshot \<Rightarrow> unit result" where
  "verify_snapshot lib s =
     (if snapshot_schema_version s \<notin> set SUPPORTED_SNAPSHOT_SCHEMA_VERSIONS
      then raise UnsupportedSnapshotVersionError ''Unsupported snapshot schema version''
      else
        rbind (validate_required_fields lib s) (\<lambda>_.
        rbind (verified_canonical SnapshotVerificationError (input_payload_json s)) (\<lambda>_.
        rbind (verified_canonical SnapshotVerificationError (output_payload_json s)) (\<lambda>_.
        rbind (verified_canonical SnapshotVerificationError (rules_payload_json s)) (\<lambda>rules.
        let expected_input = domain_hash lib ''finance-snapshot-input-v1'' (encode (input_payload_json s));
            expected_output = domain_hash lib ''finance-snapshot-output-v1'' (encode (output_payload_json s)) in
        rbind (rules_binding rules s) (\<lambda>binding.
        let expected_rules = domain_hash lib ''finance-snapshot-rules-v1'' binding in
        rbind (combined_hash lib s expected_input expected_output expected_rules) (\<lambda>expected_combined.
        ensure ((input_hash s, output_hash s, rules_hash s, combined_snapshot_hash s) =
            (expected_input, expected_output, expected_rules, expected_combined))
          SnapshotVerificationError ''Authoritative calculation snapshot hash mismatch'')))))))"

definition build_authoritative_snapshot ::
  "stdlib \<Rightarrow> snapshot_request \<Rightarrow> authoritative_calculation_snapshot result" where
  "build_authoritative_snapshot lib r =
     rbind (snapshot_references (source_references r)) (\<lambda>references.
     rbind (canonical_json_text (input_payload r)) (\<lambda>input_json.
     rbind (canonical_json_text (output_payload r)) (\<lambda>output_json.
     rbind (canonical_json_text (rules_payload r)) (\<lambda>rules_json.
     let input_digest = domain_hash lib ''finance-snapshot-input-v1'' (encode input_json);
         output_digest = domain_hash lib ''finance-snapshot-output-v1'' (encode output_json) in
     case loads rules_json of
       None \<Rightarrow> raise ValueError ''Expecting value''
     | Some rules \<Rightarrow>
         rbind (rules_binding rules r) (\<lambda>binding.
         let rules_digest = domain_hash lib ''finance-snapshot-rules-v1'' binding;
             provisional =
               \<lparr>snapshot_public_id = snapshot_public_id r,
                snapshot_schema_version = snapshot_schema_version r,
                calculation_type = calculation_type r,
                snapshot_aggregate_public_id = snapshot_aggregate_public_id r,
                money_contract_version = money_contract_version r,
                currency_contract_version = currency_contract_version r,
                algorithm_version = algorithm_version r,
                source_references = references,
                previous_snapshot_public_id = previous_snapshot_public_id r,
                snapshot_actor_type = snapshot_actor_type r,
                snapshot_actor_public_id = snapshot_actor_public_id r,
                authorization_reference = authorization_reference r,
                finalization_status = finalization_status r,
                snapshot_created_at = snapshot_created_at r,
                input_payload_json = input_json,
                output_payload_json = output_json,
                rules_payload_json = rules_json,
                input_hash = input_digest,
                output_hash = output_digest,
                rules_hash = rules_digest,
                combined_snapshot_hash = replicate 64 (CHR ''0'')\<rparr> in
         rbind (combined_hash lib provisional input_digest output_digest rules_digest) (\<lambda>combined.
         let snapshot = provisional\<lparr>combined_snapshot_hash := combined\<rparr> in
         rbind (verify_snapshot lib snapshot) (\<lambda>_. Ok snapshot)))))))"


section \<open>Rows and the repository\<close>

definition snapshot_values :: "authoritative_calculation_snapshot \<Rightarrow> snapshot_row" where
  "snapshot_values s =
     \<lparr>snapshot_public_id = snapshot_public_id s,
      snapshot_schema_version = snapshot_schema_version s,
      calculation_type = calculation_type s,
      snapshot_aggregate_public_id = snapshot_aggregate_public_id s,
      money_contract_version = money_contract_version s,
      currency_contract_version = currency_contract_version s,
      algorithm_version = algorithm_version s,
      source_references = json_text True (JList (map JStr (source_references s))),
      previous_snapshot_public_id = previous_snapshot_public_id s,
      snapshot_actor_type = snapshot_actor_type s,
      snapshot_actor_public_id = snapshot_actor_public_id s,
      authorization_reference = authorization_reference s,
      finalization_status = finalization_status s,
      snapshot_created_at = snapshot_created_at s,
      input_payload_json = input_payload_json s,
      output_payload_json = output_payload_json s,
      rules_payload_json = rules_payload_json s,
      input_hash = input_hash s,
      output_hash = output_hash s,
      rules_hash = rules_hash s,
      combined_snapshot_hash = combined_snapshot_hash s\<rparr>"

definition row_to_snapshot :: "stdlib \<Rightarrow> snapshot_row \<Rightarrow> authoritative_calculation_snapshot result" where
  "row_to_snapshot lib row =
     rbind (stored_references SnapshotVerificationError (source_references row)) (\<lambda>references.
     let snapshot =
       \<lparr>snapshot_public_id = snapshot_public_id row,
        snapshot_schema_version = snapshot_schema_version row,
        calculation_type = calculation_type row,
        snapshot_aggregate_public_id = snapshot_aggregate_public_id row,
        money_contract_version = money_contract_version row,
        currency_contract_version = currency_contract_version row,
        algorithm_version = algorithm_version row,
        source_references = references,
        previous_snapshot_public_id = previous_snapshot_public_id row,
        snapshot_actor_type = snapshot_actor_type row,
        snapshot_actor_public_id = snapshot_actor_public_id row,
        authorization_reference = authorization_reference row,
        finalization_status = finalization_status row,
        snapshot_created_at = snapshot_created_at row,
        input_payload_json = input_payload_json row,
        output_payload_json = output_payload_json row,
        rules_payload_json = rules_payload_json row,
        input_hash = input_hash row,
        output_hash = output_hash row,
        rules_hash = rules_hash row,
        combined_snapshot_hash = combined_snapshot_hash row\<rparr> in
     rbind (verify_snapshot lib snapshot) (\<lambda>_. Ok snapshot))"

text \<open>The checks of the table; its keys are the public id and the combined hash.\<close>

definition snapshot_checks :: "snapshot_row \<Rightarrow> bool" where
  "snapshot_checks row \<longleftrightarrow>
     snapshot_schema_version row = ''v1'' \<and> calculation_type row \<noteq> [] \<and> snapshot_aggregate_public_id row \<noteq> [] \<and>
     is_sha256_text (input_hash row) \<and> is_sha256_text (output_hash row) \<and> is_sha256_text (rules_hash row) \<and>
     is_sha256_text (combined_snapshot_hash row) \<and> money_contract_version row \<noteq> [] \<and>
     currency_contract_version row \<noteq> [] \<and> algorithm_version row \<noteq> [] \<and> snapshot_actor_type row \<noteq> [] \<and>
     finalization_status row \<in> set VALID_FINALIZATION_STATUSES \<and> snapshot_created_at row \<noteq> []"

abbreviation snapshots :: "'a snapshot_tables_scheme connection \<Rightarrow> snapshot_row list" where
  "snapshots conn \<equiv> authoritative_calculation_snapshots (tables conn)"

definition insert_snapshot ::
  "stdlib \<Rightarrow> 'a snapshot_tables_scheme connection \<Rightarrow> authoritative_calculation_snapshot \<Rightarrow>
   ('a snapshot_tables_scheme, unit) effect" where
  "insert_snapshot lib conn s =
     ebind (conn, verify_snapshot lib s) (\<lambda>conn _.
     let row = snapshot_values s in
     if \<not> snapshot_checks row then (conn, raise IntegrityError ''CHECK constraint failed'')
     else if list_ex (\<lambda>r. snapshot_public_id r = snapshot_public_id row \<or>
         combined_snapshot_hash r = combined_snapshot_hash row) (snapshots conn)
     then (conn, raise IntegrityError ''UNIQUE constraint failed'')
     else if (case previous_snapshot_public_id row of
         None \<Rightarrow> False
       | Some p \<Rightarrow> \<not> list_ex (\<lambda>r. snapshot_public_id r = p) (snapshots conn))
     then (conn, raise IntegrityError ''FOREIGN KEY constraint failed'')
     else (conn\<lparr>tables := (tables conn)\<lparr>authoritative_calculation_snapshots := snapshots conn @ [row]\<rparr>\<rparr>, Ok ()))"

definition fetch_where ::
  "stdlib \<Rightarrow> (snapshot_row \<Rightarrow> bool) \<Rightarrow> 'a snapshot_tables_scheme connection \<Rightarrow>
   authoritative_calculation_snapshot option result" where
  "fetch_where lib cond conn =
     (case find cond (snapshots conn) of
        None \<Rightarrow> Ok None
      | Some row \<Rightarrow> rbind (row_to_snapshot lib row) (\<lambda>s. Ok (Some s)))"

definition fetch_snapshot ::
  "stdlib \<Rightarrow> 'a snapshot_tables_scheme connection \<Rightarrow> string \<Rightarrow> authoritative_calculation_snapshot option result" where
  "fetch_snapshot lib conn public_id = fetch_where lib (\<lambda>r. snapshot_public_id r = public_id) conn"

definition fetch_by_hash ::
  "stdlib \<Rightarrow> 'a snapshot_tables_scheme connection \<Rightarrow> string \<Rightarrow> authoritative_calculation_snapshot option result" where
  "fetch_by_hash lib conn h = fetch_where lib (\<lambda>r. combined_snapshot_hash r = h) conn"


section \<open>Persisting\<close>

definition finalization_command :: "authoritative_calculation_snapshot \<Rightarrow> string \<Rightarrow> audit_event_command" where
  "finalization_command s event_id =
     \<lparr>event_public_id = event_id,
      audit_schema_version = AUDIT_SCHEMA_VERSION,
      aggregate_type = ''calculation_snapshot'',
      aggregate_public_id = snapshot_public_id s,
      event_type = ''calculation_snapshot_finalized'',
      actor_type = snapshot_actor_type s,
      actor_public_id =
        (case snapshot_actor_public_id s of
           Some a \<Rightarrow> if a \<noteq> [] then a else ''calculation-snapshot:'' @ snapshot_actor_type s
         | None \<Rightarrow> ''calculation-snapshot:'' @ snapshot_actor_type s),
      authorization_public_id = authorization_reference s,
      calculation_snapshot_public_id = Some (snapshot_public_id s),
      calculation_snapshot_hash = Some (combined_snapshot_hash s),
      source_evidence_references = source_references s,
      correlation_public_id = snapshot_aggregate_public_id s,
      causation_public_id = snapshot_public_id s,
      created_at = snapshot_created_at s,
      event_payload = mapping_of
        [(''calculation_type'', OStr (calculation_type s)),
         (''calculation_aggregate_public_id'', OStr (snapshot_aggregate_public_id s)),
         (''input_hash'', OStr (input_hash s)),
         (''output_hash'', OStr (output_hash s)),
         (''rules_hash'', OStr (rules_hash s)),
         (''combined_snapshot_hash'', OStr (combined_snapshot_hash s)),
         (''algorithm_version'', OStr (algorithm_version s)),
         (''money_contract_version'', OStr (money_contract_version s)),
         (''currency_contract_version'', OStr (currency_contract_version s))],
      new_state = mapping_of
        [(''finalization_status'', OStr ''finalized''),
         (''combined_snapshot_hash'', OStr (combined_snapshot_hash s))],
      previous_state = Some (mapping_of [(''finalization_status'', OStr ''draft'')]),
      expected_previous_event_hash = None\<rparr>"

definition append_snapshot_finalization_audit ::
  "stdlib \<Rightarrow> 'a tables_scheme connection \<Rightarrow> authoritative_calculation_snapshot \<Rightarrow> ('a tables_scheme, unit) effect" where
  "append_snapshot_finalization_audit lib conn s =
     ebind (conn, derive_audit_event_public_id lib ''calculation_snapshot'' (snapshot_public_id s)
       ''calculation_snapshot_finalized'' (snapshot_public_id s)) (\<lambda>conn event_id.
     ebind (append_financial_audit_event lib conn (finalization_command s event_id)) (\<lambda>conn _. (conn, Ok ())))"

definition store_new_snapshot ::
  "stdlib \<Rightarrow> 'a snapshot_tables_scheme connection \<Rightarrow> authoritative_calculation_snapshot \<Rightarrow>
   ('a snapshot_tables_scheme, authoritative_calculation_snapshot \<times> bool) effect" where
  "store_new_snapshot lib conn s =
     ebind (conn, fetch_by_hash lib conn (combined_snapshot_hash s)) (\<lambda>conn duplicate.
     if duplicate \<noteq> None then
       (conn, raise SnapshotConflictError ''Snapshot content already has a different public ID'')
     else
       ebind (insert_snapshot lib conn s) (\<lambda>conn _.
       if finalization_status s = ''finalized''
       then ebind (append_snapshot_finalization_audit lib conn s) (\<lambda>conn _. (conn, Ok (s, False)))
       else (conn, Ok (s, False))))"

definition persist_in_transaction ::
  "stdlib \<Rightarrow> 'a snapshot_tables_scheme connection \<Rightarrow> authoritative_calculation_snapshot \<Rightarrow>
   ('a snapshot_tables_scheme, authoritative_calculation_snapshot \<times> bool) effect" where
  "persist_in_transaction lib conn s =
     ebind (conn, write_admission conn) (\<lambda>conn _.
     if \<not> in_transaction conn then
       (conn, raise SnapshotConflictError ''Caller-transaction snapshot persistence requires an open transaction'')
     else
       ebind (conn, fetch_snapshot lib conn (snapshot_public_id s)) (\<lambda>conn stored.
       case stored of
         Some existing \<Rightarrow>
           if existing = s then (conn, Ok (existing, True))
           else (conn, raise SnapshotConflictError ''Snapshot public ID has conflicting content'')
       | None \<Rightarrow>
           store_new_snapshot lib conn s))"

definition persist_authoritative_snapshot ::
  "stdlib \<Rightarrow> 'a snapshot_tables_scheme connection \<Rightarrow> authoritative_calculation_snapshot \<Rightarrow>
   ('a snapshot_tables_scheme, authoritative_calculation_snapshot \<times> bool) effect" where
  "persist_authoritative_snapshot lib conn s =
     own_transaction (PyError SnapshotConflictError ''Snapshot persistence requires no pending transaction'')
       (\<lambda>conn. persist_in_transaction lib conn s) conn"


section \<open>Use\<close>

definition load_snapshot_for_authoritative_use ::
  "stdlib \<Rightarrow> 'a snapshot_tables_scheme connection \<Rightarrow> string \<Rightarrow> authoritative_calculation_snapshot result" where
  "load_snapshot_for_authoritative_use lib conn public_id =
     rbind (fetch_snapshot lib conn public_id) (\<lambda>stored.
     case stored of
       Some s \<Rightarrow> Ok s
     | None \<Rightarrow>
         if public_id \<in> set (legacy_snapshot_ids (tables conn))
         then raise LegacySnapshotUnverifiedError ''Legacy calculation snapshot is unverified for authoritative use''
         else raise SnapshotVerificationError ''Authoritative snapshot not found'')"

record snapshot_expectation =
  expected_combined_hash :: string
  expected_calculation_type :: string
  expected_aggregate_public_id :: string
  expected_currency_contract_version :: string
  expected_authorization_reference :: "string option"
  expected_output_payload :: "py_object option"

definition verify_snapshot_binding ::
  "stdlib \<Rightarrow> 'a snapshot_tables_scheme connection \<Rightarrow> string \<Rightarrow> snapshot_expectation \<Rightarrow>
   authoritative_calculation_snapshot result" where
  "verify_snapshot_binding lib conn public_id expected =
     rbind (load_snapshot_for_authoritative_use lib conn public_id) (\<lambda>s.
     rbind (ensure (combined_snapshot_hash s = expected_combined_hash expected)
       SnapshotVerificationError ''Finalization snapshot hash does not match'') (\<lambda>_.
     rbind (ensure (calculation_type s = expected_calculation_type expected)
       SnapshotVerificationError ''Finalization calculation type does not match'') (\<lambda>_.
     rbind (ensure (snapshot_aggregate_public_id s = expected_aggregate_public_id expected)
       SnapshotVerificationError ''Finalization aggregate identity does not match'') (\<lambda>_.
     rbind (ensure (currency_contract_version s = expected_currency_contract_version expected)
       SnapshotVerificationError ''Finalization currency contract version does not match'') (\<lambda>_.
     rbind (ensure (expected_authorization_reference expected = None \<or>
         authorization_reference s = expected_authorization_reference expected)
       SnapshotVerificationError ''Finalization authorization does not match snapshot'') (\<lambda>_.
     rbind (case expected_output_payload expected of
         None \<Rightarrow> Ok ()
       | Some payload \<Rightarrow>
           rbind (canonical_json_text payload) (\<lambda>text.
           ensure (text = output_payload_json s)
             SnapshotVerificationError ''Finalization output does not match snapshot'')) (\<lambda>_.
     rbind (ensure (finalization_status s = ''finalized'')
       SnapshotVerificationError ''Authoritative snapshot is not finalized'') (\<lambda>_.
     Ok s))))))))"

section \<open>The binding of the rules\<close>

lemma rules_binding_plain:
  assumes "plain rules" and "list_all ascii [algorithm_version s, money_contract_version s, currency_contract_version s]"
  shows "rules_binding rules s = Ok (encode (json_text False (envelope (sort_keys (JObj
    [(''rules_payload'', rules), (''algorithm_version'', JStr (algorithm_version s)),
     (''money_contract_version'', JStr (money_contract_version s)),
     (''currency_contract_version'', JStr (currency_contract_version s))])))))"
proof -
  let ?o = "mapping_of [(''rules_payload'', json_object rules), (''algorithm_version'', OStr (algorithm_version s)),
     (''money_contract_version'', OStr (money_contract_version s)),
     (''currency_contract_version'', OStr (currency_contract_version s))]"
  have "normalize ?o = Ok (JObj
    [(''rules_payload'', rules), (''algorithm_version'', JStr (algorithm_version s)),
     (''money_contract_version'', JStr (money_contract_version s)),
     (''currency_contract_version'', JStr (currency_contract_version s))])"
    by (simp add: mapping_of_def dhas_def dget_def normalize_json_object [OF assms(1)])
  moreover have "ascii_object ?o" using assms ascii_json_object by (simp add: mapping_of_def)
  ultimately show ?thesis using canonical_json_text_plain by (simp add: rules_binding_def canonical_json_bytes_def)
qed

lemma rules_binding_inject:
  assumes "plain rules" and "plain rules'" and "sort_keys rules = rules" and "sort_keys rules' = rules'"
    and "list_all ascii [algorithm_version s, money_contract_version s, currency_contract_version s]"
    and "list_all ascii [algorithm_version t, money_contract_version t, currency_contract_version t]"
    and "rules_binding rules s = rules_binding rules' t"
  shows "rules = rules'"
proof -
  let ?j = "\<lambda>r s. [(''rules_payload'', r), (''algorithm_version'', JStr (algorithm_version s)),
     (''money_contract_version'', JStr (money_contract_version s)),
     (''currency_contract_version'', JStr (currency_contract_version s))]"
  have "plain (JObj (?j rules s))" "plain (JObj (?j rules' t))" using assms(1,2,5,6) by simp_all
  then have p: "plain (envelope (sort_keys (JObj (?j rules s))))" "plain (envelope (sort_keys (JObj (?j rules' t))))"
    using plain_sort_keys by auto
  have "json_text False (envelope (sort_keys (JObj (?j rules s)))) = json_text False (envelope (sort_keys (JObj (?j rules' t))))"
    using assms(7) rules_binding_plain [OF assms(1,5)] rules_binding_plain [OF assms(2,6)]
    by (simp only: sum.inject encode_inject)
  then have "envelope (sort_keys (JObj (?j rules s))) = envelope (sort_keys (JObj (?j rules' t)))"
    using json_text_inject [OF p] by blast
  then have "sort_key fst (?j rules s) = sort_key fst (?j rules' t)"
    using assms(3,4) by (simp add: envelope_def del: list.map) simp
  then have "?j rules s = ?j rules' t" by (rule sort_key_fst_inject) simp_all
  then show ?thesis by simp
qed

section \<open>What a verified snapshot determines\<close>

definition ascii_snapshot :: "authoritative_calculation_snapshot \<Rightarrow> bool" where
  "ascii_snapshot s \<longleftrightarrow>
     list_all ascii
       [snapshot_schema_version s, calculation_type s, snapshot_aggregate_public_id s, money_contract_version s,
        currency_contract_version s, algorithm_version s, snapshot_actor_type s, finalization_status s,
        input_hash s, output_hash s, rules_hash s] \<and>
     list_all ascii (source_references s) \<and>
     pred_option ascii (previous_snapshot_public_id s) \<and> pred_option ascii (snapshot_actor_public_id s) \<and>
     pred_option ascii (authorization_reference s) \<and>
     (case loads (rules_payload_json s) of Some j \<Rightarrow> plain j | None \<Rightarrow> False)"

text \<open>The bytes whose digests a snapshot carries: of the input, the output, the rules and the whole.\<close>

definition input_preimage :: "authoritative_calculation_snapshot \<Rightarrow> bytes" where
  "input_preimage s = encode ''finance-snapshot-input-v1'' @ [0] @ encode (input_payload_json s)"

definition output_preimage :: "authoritative_calculation_snapshot \<Rightarrow> bytes" where
  "output_preimage s = encode ''finance-snapshot-output-v1'' @ [0] @ encode (output_payload_json s)"

definition ok_or :: "'a \<Rightarrow> 'a result \<Rightarrow> 'a" where
  "ok_or d r = (case r of Inr x \<Rightarrow> x | Inl _ \<Rightarrow> d)"

definition rules_preimage :: "authoritative_calculation_snapshot \<Rightarrow> bytes" where
  "rules_preimage s = encode ''finance-snapshot-rules-v1'' @ [0] @
     (case loads (rules_payload_json s) of Some j \<Rightarrow> ok_or [] (rules_binding j s) | None \<Rightarrow> [])"

abbreviation combined_of :: "authoritative_calculation_snapshot \<Rightarrow> (string \<times> py_object) list" where
  "combined_of s \<equiv> combined_material s (input_hash s) (output_hash s) (rules_hash s)"

definition combined_preimage :: "authoritative_calculation_snapshot \<Rightarrow> bytes" where
  "combined_preimage s = encode ''finance-combined-snapshot-v1'' @ [0] @
     ok_or [] (canonical_json_bytes (mapping_of (combined_of s)))"

lemma ok_or_Ok [simp]: "ok_or d (Ok x) = x"
  by (simp add: ok_or_def)

lemma verified_canonical_Ok:
  assumes "verified_canonical err t = Ok j"
  shows "loads t = Some j" and "dumps j = Ok t"
  using assms by (auto simp: verified_canonical_def result_simps split: option.splits if_splits json.splits)

lemma canonical_sorted:
  assumes "verified_canonical err t = Ok j" and "plain j"
  shows "sort_keys j = j"
  using verified_canonical_Ok [OF assms(1)] loads_dumps [OF assms(2)] by auto

lemma verify_snapshot_Ok:
  assumes "verify_snapshot lib s = Ok ()"
  obtains rules b where "snapshot_schema_version s = SNAPSHOT_SCHEMA_VERSION" and "validate_required_fields lib s = Ok ()"
    and "verified_canonical SnapshotVerificationError (rules_payload_json s) = Ok rules" and "rules_binding rules s = Ok b"
    and "input_hash s = hexdigest (sha256 lib (input_preimage s))"
    and "output_hash s = hexdigest (sha256 lib (output_preimage s))"
    and "rules_hash s = hexdigest (sha256 lib (rules_preimage s))"
    and "combined_hash lib s (input_hash s) (output_hash s) (rules_hash s) = Ok (combined_snapshot_hash s)"
proof -
  obtain rules b where v: "snapshot_schema_version s = SNAPSHOT_SCHEMA_VERSION" "validate_required_fields lib s = Ok ()"
      "verified_canonical SnapshotVerificationError (rules_payload_json s) = Ok rules" "rules_binding rules s = Ok b"
    and h: "input_hash s = domain_hash lib ''finance-snapshot-input-v1'' (encode (input_payload_json s))"
      "output_hash s = domain_hash lib ''finance-snapshot-output-v1'' (encode (output_payload_json s))"
      "rules_hash s = domain_hash lib ''finance-snapshot-rules-v1'' b"
      "combined_hash lib s (input_hash s) (output_hash s) (rules_hash s) = Ok (combined_snapshot_hash s)"
    using assms by (auto simp: verify_snapshot_def result_simps Let_def SUPPORTED_SNAPSHOT_SCHEMA_VERSIONS_def split: if_splits)
  have "loads (rules_payload_json s) = Some rules" by (rule verified_canonical_Ok(1) [OF v(3)])
  then have "rules_hash s = hexdigest (sha256 lib (rules_preimage s))" using h(3) v(4) by (simp add: domain_hash_def rules_preimage_def)
  moreover have "input_hash s = hexdigest (sha256 lib (input_preimage s))" "output_hash s = hexdigest (sha256 lib (output_preimage s))"
    using h(1,2) by (simp_all add: domain_hash_def input_preimage_def output_preimage_def)
  ultimately show thesis using that [OF v] h(4) by blast
qed

lemma combined_simple: "simple_items (combined_material s i out r)"
  by (simp add: combined_material_def list_all_iff)

lemma combined_keys: "map fst (combined_material s i out r) = map fst (combined_material t i' out' r')"
  by (simp add: combined_material_def)

lemma combined_ascii:
  assumes "ascii_snapshot s"
  shows "ascii_items (combined_of s)"
proof -
  have "list_all ascii (map fst (combined_of s))" unfolding combined_material_def by code_simp
  moreover have "list_all ascii_object (map snd (combined_of s))"
    using assms by (simp add: combined_material_def ascii_snapshot_def del: ascii_object.simps(3))
  ultimately show ?thesis by (simp add: list_all_iff)
qed

lemma combined_preimage_Ok:
  assumes "ascii_snapshot s"
  obtains t where "canonical_json_text (mapping_of (combined_of s)) = Ok t"
    and "combined_preimage s = encode ''finance-combined-snapshot-v1'' @ [0] @ encode t"
    and "combined_hash lib s (input_hash s) (output_hash s) (rules_hash s) = Ok (hexdigest (sha256 lib (combined_preimage s)))"
  using mapping_text_Ok [OF combined_simple combined_ascii [OF assms]]
  by (auto simp: combined_preimage_def canonical_json_bytes_def combined_hash_def domain_hash_def)

text \<open>
  What the combined hash covers: everything but the public id and the time of creation. The view of
  a snapshot that the combined hash is computed from leaves out the payloads too.
\<close>

definition content :: "authoritative_calculation_snapshot \<Rightarrow> authoritative_calculation_snapshot" where
  "content s = s\<lparr>snapshot_public_id := [], snapshot_created_at := []\<rparr>"

definition view :: "authoritative_calculation_snapshot \<Rightarrow> authoritative_calculation_snapshot" where
  "view s = (content s)\<lparr>input_payload_json := [], output_payload_json := [], rules_payload_json := []\<rparr>"

lemma combined_preimage_inject:
  assumes "ascii_snapshot s" and "ascii_snapshot t" and "combined_snapshot_hash s = combined_snapshot_hash t"
    and "combined_preimage s = combined_preimage t"
  shows "view s = view t"
proof -
  obtain x where x: "canonical_json_text (mapping_of (combined_of s)) = Ok x"
    "combined_preimage s = encode ''finance-combined-snapshot-v1'' @ [0] @ encode x"
    by (rule combined_preimage_Ok [OF assms(1)]) (rule that)
  obtain y where y: "canonical_json_text (mapping_of (combined_of t)) = Ok y"
    "combined_preimage t = encode ''finance-combined-snapshot-v1'' @ [0] @ encode y"
    by (rule combined_preimage_Ok [OF assms(2)]) (rule that)
  have "x = y" using assms(4) x(2) y(2) by simp
  then have "canonical_json_text (mapping_of (combined_of s)) = canonical_json_text (mapping_of (combined_of t))"
    using x(1) y(1) by simp
  then have "combined_of s = combined_of t"
    by (rule mapping_text_inject [OF combined_simple combined_simple combined_ascii [OF assms(1)]
          combined_ascii [OF assms(2)] combined_keys])
  then show ?thesis using assms(3) by (simp add: combined_material_def inj_map_eq_map inj_on_def view_def content_def)
qed

text \<open>The pairs of hashed texts of two snapshots.\<close>

definition paired_preimages ::
  "authoritative_calculation_snapshot \<Rightarrow> authoritative_calculation_snapshot \<Rightarrow> (bytes \<times> bytes) list" where
  "paired_preimages s t =
     [(input_preimage s, input_preimage t), (output_preimage s, output_preimage t),
      (rules_preimage s, rules_preimage t), (combined_preimage s, combined_preimage t)]"

lemma combined_hash_preimage:
  assumes "ascii_snapshot s"
  shows "combined_hash lib s (input_hash s) (output_hash s) (rules_hash s) = Ok (hexdigest (sha256 lib (combined_preimage s)))"
  by (rule combined_preimage_Ok [OF assms])

lemma view_hashes:
  "input_hash (view s) = input_hash s" "output_hash (view s) = output_hash s" "rules_hash (view s) = rules_hash s"
  by (simp_all add: view_def content_def)

lemma snapshot_commitment:
  assumes "verify_snapshot lib s = Ok ()" and "verify_snapshot lib t = Ok ()" and "ascii_snapshot s" and "ascii_snapshot t"
    and "digest_shape (sha256 lib)" and "combined_snapshot_hash s = combined_snapshot_hash t"
  shows "content s = content t \<or> (\<exists>(a, b) \<in> set (paired_preimages s t). collision (sha256 lib) a b)"
proof (rule disjCI)
  assume nc: "\<not> (\<exists>(a, b) \<in> set (paired_preimages s t). collision (sha256 lib) a b)"
  have same: "a = b" if "hexdigest (sha256 lib a) = hexdigest (sha256 lib b)" "(a, b) \<in> set (paired_preimages s t)" for a b
    using same_digest [OF assms(5) that(1)] that(2) nc by blast
  obtain rules b where s: "verified_canonical SnapshotVerificationError (rules_payload_json s) = Ok rules"
    "rules_binding rules s = Ok b" "input_hash s = hexdigest (sha256 lib (input_preimage s))"
    "output_hash s = hexdigest (sha256 lib (output_preimage s))" "rules_hash s = hexdigest (sha256 lib (rules_preimage s))"
    "combined_hash lib s (input_hash s) (output_hash s) (rules_hash s) = Ok (combined_snapshot_hash s)"
    by (rule verify_snapshot_Ok [OF assms(1)]) (rule that)
  obtain rules' b' where t: "verified_canonical SnapshotVerificationError (rules_payload_json t) = Ok rules'"
    "rules_binding rules' t = Ok b'" "input_hash t = hexdigest (sha256 lib (input_preimage t))"
    "output_hash t = hexdigest (sha256 lib (output_preimage t))" "rules_hash t = hexdigest (sha256 lib (rules_preimage t))"
    "combined_hash lib t (input_hash t) (output_hash t) (rules_hash t) = Ok (combined_snapshot_hash t)"
    by (rule verify_snapshot_Ok [OF assms(2)]) (rule that)
  have "combined_snapshot_hash s = hexdigest (sha256 lib (combined_preimage s))"
    using s(6) combined_hash_preimage [OF assms(3), of lib] by simp
  moreover have "combined_snapshot_hash t = hexdigest (sha256 lib (combined_preimage t))"
    using t(6) combined_hash_preimage [OF assms(4), of lib] by simp
  ultimately have "combined_preimage s = combined_preimage t"
    using assms(6) by (intro same) (simp_all add: paired_preimages_def)
  then have v: "view s = view t" by (rule combined_preimage_inject [OF assms(3,4,6)])
  have h: "input_hash s = input_hash t" "output_hash s = output_hash t" "rules_hash s = rules_hash t"
    using arg_cong [OF v, of input_hash] arg_cong [OF v, of output_hash] arg_cong [OF v, of rules_hash] by (simp_all only: view_hashes)
  have "input_preimage s = input_preimage t" using h(1) s(3) t(3) by (intro same) (simp_all add: paired_preimages_def)
  moreover have "output_preimage s = output_preimage t" using h(2) s(4) t(4) by (intro same) (simp_all add: paired_preimages_def)
  moreover have r: "rules_preimage s = rules_preimage t" using h(3) s(5) t(5) by (intro same) (simp_all add: paired_preimages_def)
  ultimately have io: "input_payload_json s = input_payload_json t" "output_payload_json s = output_payload_json t"
    by (simp_all add: input_preimage_def output_preimage_def)
  note ls = verified_canonical_Ok [OF s(1)] and lt = verified_canonical_Ok [OF t(1)]
  have p: "plain rules" "plain rules'" using assms(3,4) ls(1) lt(1) by (simp_all add: ascii_snapshot_def)
  have a: "list_all ascii [algorithm_version s, money_contract_version s, currency_contract_version s]"
    "list_all ascii [algorithm_version t, money_contract_version t, currency_contract_version t]"
    using assms(3,4) by (simp_all add: ascii_snapshot_def)
  have "rules_binding rules s = rules_binding rules' t" using r s(2) t(2) ls(1) lt(1) by (simp add: rules_preimage_def)
  then have "rules = rules'"
    by (rule rules_binding_inject [OF p canonical_sorted [OF s(1) p(1)] canonical_sorted [OF t(1) p(2)] a])
  then have "rules_payload_json s = rules_payload_json t" using ls(2) lt(2) by simp
  then show "content s = content t" using v io by (cases s; cases t) (simp add: view_def content_def)
qed

section \<open>Persisting and loading\<close>

lemma row_to_snapshot_values:
  assumes "verify_snapshot lib s = Ok ()" and "list_all ascii (source_references s)"
  shows "row_to_snapshot lib (snapshot_values s) = Ok s"
  using assms stored_references_text [OF assms(2)]
  by (cases s) (simp add: row_to_snapshot_def snapshot_values_def Let_def del: json_text.simps)

abbreviation with_snapshot ::
  "'a snapshot_tables_scheme connection \<Rightarrow> snapshot_row \<Rightarrow> 'a snapshot_tables_scheme connection" where
  "with_snapshot conn row \<equiv> conn\<lparr>tables := (tables conn)\<lparr>authoritative_calculation_snapshots := snapshots conn @ [row]\<rparr>\<rparr>"

lemma insert_snapshot_Ok:
  assumes "insert_snapshot lib conn s = (conn', Ok u)"
  shows "conn' = with_snapshot conn (snapshot_values s)" and "verify_snapshot lib s = Ok ()"
    and "\<forall>r \<in> set (snapshots conn). snapshot_public_id r \<noteq> snapshot_public_id s \<and>
      combined_snapshot_hash r \<noteq> combined_snapshot_hash s"
    and "case previous_snapshot_public_id s of None \<Rightarrow> True | Some p \<Rightarrow> p \<in> snapshot_public_id ` set (snapshots conn)"
  using assms
  by (auto simp: insert_snapshot_def result_simps Let_def list_ex_iff snapshot_values_def split: if_splits option.splits)

text \<open>The audit event of a finalized snapshot: what it leaves in the tables.\<close>

lemma finalization_audit_Ok:
  assumes "append_snapshot_finalization_audit lib conn s = (conn', Ok u)"
  obtains event_id e replayed where
    "append_financial_audit_event lib conn (finalization_command s event_id) = (conn', Ok (e, replayed))"
  using assms by (auto simp: append_snapshot_finalization_audit_def result_simps)

lemma persist_Ok_cases:
  assumes "persist_in_transaction lib conn s = (conn', Ok (r, replayed))"
  shows "r = s" and "write_admission conn = Ok ()" and "in_transaction conn"
    and "if replayed then conn' = conn \<and> fetch_snapshot lib conn (snapshot_public_id s) = Ok (Some s)
      else insert_snapshot lib conn s = (with_snapshot conn (snapshot_values s), Ok ()) \<and>
        (if finalization_status s = ''finalized''
         then append_snapshot_finalization_audit lib (with_snapshot conn (snapshot_values s)) s = (conn', Ok ())
         else conn' = with_snapshot conn (snapshot_values s))"
proof -
  from assms obtain stored where s: "write_admission conn = Ok ()" "in_transaction conn"
      "fetch_snapshot lib conn (snapshot_public_id s) = Ok stored" and
    r: "(case stored of
         Some existing \<Rightarrow>
           if existing = s then (conn, Ok (existing, True))
           else (conn, raise SnapshotConflictError ''Snapshot public ID has conflicting content'')
       | None \<Rightarrow> store_new_snapshot lib conn s) = (conn', Ok (r, replayed))"
    by (auto simp: persist_in_transaction_def result_simps split: if_splits)
  show "write_admission conn = Ok ()" "in_transaction conn" by (fact s)+
  show "r = s" using r by (auto simp: store_new_snapshot_def result_simps split: option.splits if_splits)
  show "if replayed then conn' = conn \<and> fetch_snapshot lib conn (snapshot_public_id s) = Ok (Some s)
      else insert_snapshot lib conn s = (with_snapshot conn (snapshot_values s), Ok ()) \<and>
        (if finalization_status s = ''finalized''
         then append_snapshot_finalization_audit lib (with_snapshot conn (snapshot_values s)) s = (conn', Ok ())
         else conn' = with_snapshot conn (snapshot_values s))"
    using r s(3) insert_snapshot_Ok(1) [of lib conn s]
    by (cases stored) (auto simp: store_new_snapshot_def result_simps split: if_splits)
qed

section \<open>Building\<close>

text \<open>A request from which a snapshot can be built.\<close>

definition buildable :: "stdlib \<Rightarrow> snapshot_request \<Rightarrow> bool" where
  "buildable lib r \<longleftrightarrow>
     snapshot_schema_version r = SNAPSHOT_SCHEMA_VERSION \<and>
     list_all (\<lambda>value. py_strip value \<noteq> [] \<and> ascii value)
       [snapshot_public_id r, calculation_type r, snapshot_aggregate_public_id r, money_contract_version r,
        currency_contract_version r, algorithm_version r, snapshot_actor_type r, snapshot_created_at r] \<and>
     finalization_status r \<in> set VALID_FINALIZATION_STATUSES \<and>
     (case aware_timestamp lib SnapshotVerificationError (snapshot_created_at r) of Inr _ \<Rightarrow> True | Inl _ \<Rightarrow> False) \<and>
     previous_snapshot_public_id r \<noteq> Some (snapshot_public_id r) \<and>
     list_all (\<lambda>value. py_strip value \<noteq> [] \<and> ascii value) (source_references r) \<and> distinct (source_references r) \<and>
     pred_option ascii (previous_snapshot_public_id r) \<and> pred_option ascii (snapshot_actor_public_id r) \<and>
     pred_option ascii (authorization_reference r) \<and>
     serializable (input_payload r) \<and> serializable (output_payload r) \<and> serializable (rules_payload r)"

lemma combined_hash_Ok: "\<exists>h. combined_hash lib s i out r = Ok h"
proof -
  have "\<not> non_finite (envelope (JObj (map (\<lambda>(k, v). (k, simple_json v)) (combined_material s i out r))))"
    by (simp add: envelope_def list_ex_iff split_beta)
  then show ?thesis using normalize_mapping [OF combined_simple [of s i out r]]
    by (simp add: combined_hash_def canonical_json_bytes_def canonical_json_text_def dumps_def)
qed

lemma serializable_loads:
  assumes "serializable v"
  obtains t j where "canonical_json_text v = Ok t" and "verified_canonical err t = Ok j" and "loads t = Some j" and "plain j" and "ascii t"
proof -
  obtain t where t: "canonical_json_text v = Ok t" and a: "ascii_object v"
    using assms by (auto simp: serializable_def split: sum.splits)
  obtain j where j: "normalize v = Ok j" "plain j" "loads t = Some (envelope (sort_keys j))"
    by (rule canonical_json_text_Ok [OF t a]) (rule that)
  have "plain (envelope (sort_keys j))" using plain_sort_keys [OF j(2)] by simp
  then show thesis
    using that [OF t canonical_json_verified [OF t a j(1)] j(3)] ascii_canonical_text [OF t a] by blast
qed

lemma canonical_references_sorted:
  "list_all (\<lambda>v. py_strip v \<noteq> [] \<and> ascii v) refs \<Longrightarrow> distinct refs \<Longrightarrow>
   canonical_references err refs = Ok (sort refs) \<and> canonical_references err (sort refs) = Ok (sort refs)"
  by (auto simp: canonical_references_def Let_def list_ex_iff list_all_iff sort_key_id_if_sorted)

lemma build_snapshot_succeeds:
  assumes "buildable lib r"
  obtains s where "build_authoritative_snapshot lib r = Ok s" and "verify_snapshot lib s = Ok ()"
    and "snapshot_fields.truncate s = (snapshot_fields.truncate r)\<lparr>source_references := sort (source_references r)\<rparr>"
    and "canonical_json_text (output_payload r) = Ok (output_payload_json s)"
    and "case loads (rules_payload_json s) of Some j \<Rightarrow> plain j | None \<Rightarrow> False"
proof -
  note b = assms [unfolded buildable_def]
  have ser: "serializable (input_payload r)" "serializable (output_payload r)" "serializable (rules_payload r)"
    using b by simp_all
  obtain ti ji where i: "canonical_json_text (input_payload r) = Ok ti" "verified_canonical SnapshotVerificationError ti = Ok ji"
    by (rule serializable_loads [OF ser(1)]) (rule that)
  obtain tout jout where out: "canonical_json_text (output_payload r) = Ok tout" "verified_canonical SnapshotVerificationError tout = Ok jout"
    by (rule serializable_loads [OF ser(2)]) (rule that)
  obtain tr jr where ru: "canonical_json_text (rules_payload r) = Ok tr" "verified_canonical SnapshotVerificationError tr = Ok jr"
      "loads tr = Some jr" "plain jr"
    by (rule serializable_loads [OF ser(3)]) (rule that)
  have v: "list_all ascii [algorithm_version r, money_contract_version r, currency_contract_version r]" using b by simp
  obtain rb where rb: "rules_binding jr r = Ok rb" using rules_binding_plain [OF ru(4) v] by blast
  have refs: "snapshot_references (source_references r) = Ok (sort (source_references r))"
    "snapshot_references (sort (source_references r)) = Ok (sort (source_references r))"
    using canonical_references_sorted b by (auto simp: snapshot_references_def)
  define s where "s h = \<lparr>snapshot_public_id = snapshot_public_id r,
                snapshot_schema_version = snapshot_schema_version r,
                calculation_type = calculation_type r,
                snapshot_aggregate_public_id = snapshot_aggregate_public_id r,
                money_contract_version = money_contract_version r,
                currency_contract_version = currency_contract_version r,
                algorithm_version = algorithm_version r,
                source_references = sort (source_references r),
                previous_snapshot_public_id = previous_snapshot_public_id r,
                snapshot_actor_type = snapshot_actor_type r,
                snapshot_actor_public_id = snapshot_actor_public_id r,
                authorization_reference = authorization_reference r,
                finalization_status = finalization_status r,
                snapshot_created_at = snapshot_created_at r,
                input_payload_json = ti,
                output_payload_json = tout,
                rules_payload_json = tr,
                input_hash = domain_hash lib ''finance-snapshot-input-v1'' (encode ti),
                output_hash = domain_hash lib ''finance-snapshot-output-v1'' (encode tout),
                rules_hash = domain_hash lib ''finance-snapshot-rules-v1'' rb,
                combined_snapshot_hash = h\<rparr>" for h
  have same: "combined_hash lib (s x) i out ru = combined_hash lib (s y) i out ru" for x y i out ru
    by (simp add: s_def combined_hash_def combined_material_def)
  have rb': "rules_binding jr (s x) = Ok rb" for x using rb by (simp add: s_def rules_binding_def)
  obtain h where h: "combined_hash lib (s (replicate 64 (CHR ''0''))) (input_hash (s [])) (output_hash (s [])) (rules_hash (s [])) = Ok h"
    using combined_hash_Ok by blast
  have "combined_hash lib (s h) (input_hash (s [])) (output_hash (s [])) (rules_hash (s [])) = Ok h"
    using h same by metis
  moreover have "validate_required_fields lib (s h) = Ok ()"
    using b refs by (auto simp: validate_required_fields_def s_def split: sum.splits)
  ultimately have vs: "verify_snapshot lib (s h) = Ok ()"
    using b i(2) out(2) ru(2) rb' [of h]
    by (simp add: verify_snapshot_def SUPPORTED_SNAPSHOT_SCHEMA_VERSIONS_def s_def)
  have "build_authoritative_snapshot lib r = Ok (s h)"
    using h vs by (simp add: build_authoritative_snapshot_def refs(1) i(1) out(1) ru(1,3) rb Let_def s_def)
  then show thesis
    by (rule that [OF _ vs]) (use out(1) ru(3,4) in \<open>simp_all add: s_def snapshot_fields.truncate_def\<close>)
qed

section \<open>When persisting succeeds\<close>

lemma combined_hash_sha256:
  "combined_hash lib s i out r = Ok h \<Longrightarrow> digest_shape (sha256 lib) \<Longrightarrow> is_sha256_text h"
  by (auto simp: combined_hash_def result_simps domain_hash_sha256)

lemma verified_snapshot_checks:
  assumes "verify_snapshot lib s = Ok ()" and "digest_shape (sha256 lib)"
  shows "snapshot_checks (snapshot_values s)"
proof -
  have strip: "py_strip v \<noteq> [] \<Longrightarrow> v \<noteq> []" for v by (auto simp: py_strip_def)
  obtain rules b where v: "snapshot_schema_version s = SNAPSHOT_SCHEMA_VERSION" "validate_required_fields lib s = Ok ()"
    "input_hash s = hexdigest (sha256 lib (input_preimage s))" "output_hash s = hexdigest (sha256 lib (output_preimage s))"
    "rules_hash s = hexdigest (sha256 lib (rules_preimage s))"
    "combined_hash lib s (input_hash s) (output_hash s) (rules_hash s) = Ok (combined_snapshot_hash s)"
    by (rule verify_snapshot_Ok [OF assms(1)]) (rule that)
  have "is_sha256_text (combined_snapshot_hash s)"
    by (rule combined_hash_sha256 [OF v(6) assms(2)])
  moreover have "is_sha256_text (input_hash s)" "is_sha256_text (output_hash s)" "is_sha256_text (rules_hash s)"
    using v(3-5) hexdigest_sha256 assms(2) by (simp_all add: digest_shape_def)
  ultimately show ?thesis using v(1,2)
    by (auto simp: snapshot_checks_def snapshot_values_def SNAPSHOT_SCHEMA_VERSION_def validate_required_fields_def
        result_simps dest: strip split: if_splits)
qed

lemma fetch_where_none:
  "\<forall>r \<in> set (snapshots conn). \<not> P r \<Longrightarrow> fetch_where lib P conn = Ok None"
  by (simp add: fetch_where_def find_None_iff [THEN iffD2])

lemma persist_new:
  assumes "write_admission conn = Ok ()" and "in_transaction conn" and "verify_snapshot lib s = Ok ()"
    and "digest_shape (sha256 lib)"
    and "\<forall>r \<in> set (snapshots conn). snapshot_public_id r \<noteq> snapshot_public_id s \<and>
      combined_snapshot_hash r \<noteq> combined_snapshot_hash s"
    and "case previous_snapshot_public_id s of None \<Rightarrow> True | Some p \<Rightarrow> p \<in> snapshot_public_id ` set (snapshots conn)"
  shows "persist_in_transaction lib conn s =
    (if finalization_status s = ''finalized''
     then ebind (append_snapshot_finalization_audit lib (with_snapshot conn (snapshot_values s)) s) (\<lambda>conn _. (conn, Ok (s, False)))
     else (with_snapshot conn (snapshot_values s), Ok (s, False)))"
proof -
  have i: "insert_snapshot lib conn s = (with_snapshot conn (snapshot_values s), Ok ())"
    using assms(3,5,6) verified_snapshot_checks [OF assms(3,4)]
    by (auto simp: insert_snapshot_def Let_def list_ex_iff snapshot_values_def split: option.splits)
  show ?thesis using assms(1,2,5) i
    by (simp add: persist_in_transaction_def store_new_snapshot_def fetch_snapshot_def fetch_by_hash_def fetch_where_none del: not_None_eq)
qed

lemma aware_timestamp_class: "aware_timestamp lib err v = Ok x \<Longrightarrow> aware_timestamp lib err' v = Ok x"
  by (auto simp: aware_timestamp_def split: option.splits)

lemma canonical_references_class:
  "canonical_references err refs = Ok x \<Longrightarrow> canonical_references err' refs = Ok x"
  by (auto simp: canonical_references_def Let_def split: if_splits)

lemma serializable_mapping: "simple_items kvs \<Longrightarrow> ascii_items kvs \<Longrightarrow> serializable (mapping_of kvs)"
  using mapping_text_Ok ascii_mapping by (fastforce simp: serializable_def)

lemma required_fields_Ok:
  assumes "validate_required_fields lib s = Ok ()"
  shows "list_all (\<lambda>v. py_strip v \<noteq> [])
      [snapshot_public_id s, calculation_type s, snapshot_aggregate_public_id s, money_contract_version s,
       currency_contract_version s, algorithm_version s, snapshot_actor_type s, snapshot_created_at s]"
    and "canonical_references SnapshotVerificationError (source_references s) = Ok (source_references s)"
  using assms by (auto simp: validate_required_fields_def snapshot_references_def result_simps split: if_splits)

text \<open>
  The command for a finalized snapshot is acceptable as the first event of its chain, provided that
  its time can be converted and that an authorization reference is not blank.
\<close>

lemma finalization_acceptable:
  assumes "verify_snapshot lib s = Ok ()" and "digest_shape (sha256 lib)" and "ascii_snapshot s" and "ascii (combined_snapshot_hash s)"
    and "normalize_timestamp lib (snapshot_created_at s) = Ok t" and "normalize_timestamp lib t = Ok t"
    and "\<not> blank_option (authorization_reference s)" and "\<not> blank_option (snapshot_actor_public_id s)"
    and "py_strip event_id \<noteq> []"
  shows "acceptable lib None (finalization_command s event_id)"
proof -
  let ?c = "finalization_command s event_id"
  have prefix: "py_strip (CHR ''c'' # x) \<noteq> []" for x
  proof -
    have "CHR ''c'' \<in> set (dropWhile is_space (rev (CHR ''c'' # x)))"
      by (simp add: dropWhile_append3 is_space_def)
    then show ?thesis by (auto simp: py_strip_def is_space_def dropWhile_eq_Nil_conv)
  qed
  have "validate_required_fields lib s = Ok ()" by (rule verify_snapshot_Ok [OF assms(1)])
  note v = required_fields_Ok [OF this]
  have h: "is_sha256_text (combined_snapshot_hash s)"
    using verified_snapshot_checks [OF assms(1,2)] by (simp add: snapshot_checks_def snapshot_values_def)
  have r: "canonical_references AuditVerificationError (source_references s) = Ok (source_references s)"
    by (rule canonical_references_class [OF v(2)])
  have a: "py_strip (actor_public_id ?c) \<noteq> []"
    using assms(8) prefix by (auto simp: finalization_command_def blank_option_def split: option.splits)
  have "py_strip ''calculation_snapshot'' \<noteq> []" "py_strip ''calculation_snapshot_finalized'' \<noteq> []" by code_simp+
  then have "validate_command lib ?c = Ok ()"
    using v(1) assms(5,7,9) h r a
    by (simp add: validate_command_def finalization_command_def validate_optional_hash_def validate_hash_def blank_option_def
        SUPPORTED_AUDIT_SCHEMA_VERSIONS_def AUDIT_SCHEMA_VERSION_def)
  moreover have "serializable (event_payload ?c)" "serializable (new_state ?c)"
    "serializable (mapping_of [(''finalization_status'', OStr ''draft'')])"
    using assms(3,4) by (auto simp: finalization_command_def ascii_snapshot_def intro!: serializable_mapping)
  ultimately show ?thesis using assms(5,6) by (simp add: acceptable_def finalization_command_def)
qed

end
