(* ===== verification/Snapshot_Use.thy ===== *)
theory Snapshot_Use
  imports Snapshot
begin

text \<open>
  What authoritative snapshots guarantee to their users: a snapshot can be built from every proper
  request and is read back as it was stored, persisting it again changes nothing, a finalized
  snapshot is persisted together with an audit event that carries its hash, and the hash that a
  finalization is bound to determines the content of the snapshot.
\<close>

section \<open>Stored snapshots\<close>

lemma row_to_snapshot_verified: "row_to_snapshot lib row = Ok s \<Longrightarrow> verify_snapshot lib s = Ok ()"
  by (auto simp: row_to_snapshot_def result_simps Let_def)

lemma fetch_snapshot_verified: "fetch_snapshot lib conn i = Ok (Some s) \<Longrightarrow> verify_snapshot lib s = Ok ()"
  using row_to_snapshot_verified
  by (auto simp: fetch_snapshot_def fetch_where_def result_simps split: option.splits)

lemma fetch_snapshot_cong: "snapshots conn = snapshots conn' \<Longrightarrow> fetch_snapshot lib conn i = fetch_snapshot lib conn' i"
  by (simp add: fetch_snapshot_def fetch_where_def)

lemma stored_snapshot_fetched:
  assumes "insert_snapshot lib conn s = (conn', Ok u)" and "list_all ascii (source_references s)"
  shows "fetch_snapshot lib conn' (snapshot_public_id s) = Ok (Some s)"
proof -
  note i = insert_snapshot_Ok [OF assms(1)]
  have "find (\<lambda>r. snapshot_public_id r = snapshot_public_id s) (snapshots conn) = None"
    using i(3) by (simp add: find_None_iff)
  then have "find (\<lambda>r. snapshot_public_id r = snapshot_public_id s) (snapshots conn @ [snapshot_values s]) = Some (snapshot_values s)"
    by (simp add: find_snoc snapshot_values_def)
  then show ?thesis using i(1) row_to_snapshot_values [OF i(2) assms(2)]
    by (simp add: fetch_snapshot_def fetch_where_def)
qed

text \<open>The audit event of a finalized snapshot touches no snapshot.\<close>

lemma finalization_audit_tables:
  assumes "append_snapshot_finalization_audit lib conn s = (conn', Ok u)"
  shows "conn' = conn \<or> (\<exists>e. conn' = with_row conn (event_values e))"
proof -
  obtain i e replayed where "append_financial_audit_event lib conn (finalization_command s i) = (conn', Ok (e, replayed))"
    by (rule finalization_audit_Ok [OF assms]) (rule that)
  then show ?thesis using append_tables by (metis (full_types))
qed

lemma persist_tables:
  assumes "persist_in_transaction lib conn s = (conn', Ok (r, replayed))"
  shows "conn' = (if replayed then conn else with_snapshot conn (snapshot_values s)) \<or>
    \<not> replayed \<and> finalization_status s = ''finalized'' \<and>
    (\<exists>e. conn' = with_row (with_snapshot conn (snapshot_values s)) (event_values e))"
proof (cases "\<not> replayed \<and> finalization_status s = ''finalized''")
  case True
  then have "append_snapshot_finalization_audit lib (with_snapshot conn (snapshot_values s)) s = (conn', Ok ())"
    using persist_Ok_cases(4) [OF assms] by simp
  from finalization_audit_tables [OF this] True show ?thesis by (simp only: simp_thms if_False)
next
  case False
  then show ?thesis using persist_Ok_cases(4) [OF assms] by (auto split: if_splits)
qed

text \<open>
  Whether it returns or raises, persisting has changed at most the two tables. When the audit append
  of a finalized snapshot raises, the row of the snapshot is in the table of the open transaction.
\<close>

lemma finalization_audit_effect: "\<exists>t. fst (append_snapshot_finalization_audit lib conn s) = conn\<lparr>tables := t\<rparr>"
  unfolding append_snapshot_finalization_audit_def
proof (rule ebind_keeps)
  show "\<exists>t. fst (conn, derive_audit_event_public_id lib ''calculation_snapshot'' (snapshot_public_id s)
      ''calculation_snapshot_finalized'' (snapshot_public_id s)) = conn\<lparr>tables := t\<rparr>"
    by (intro exI [of _ "tables conn"]) simp
  fix c i assume "(conn, derive_audit_event_public_id lib ''calculation_snapshot'' (snapshot_public_id s)
      ''calculation_snapshot_finalized'' (snapshot_public_id s)) = (c, Ok i)"
  then have c: "c = conn" by simp
  show "\<exists>t. fst (ebind (append_financial_audit_event lib c (finalization_command s i)) (\<lambda>conn _. (conn, Ok ()))) = conn\<lparr>tables := t\<rparr>"
    unfolding c
  proof (rule ebind_keeps)
    show "\<exists>t. fst (append_financial_audit_event lib conn (finalization_command s i)) = conn\<lparr>tables := t\<rparr>"
      by (rule audit_append.body_changes_tables)
    then show "\<exists>t. fst (d, Ok ()) = conn\<lparr>tables := t\<rparr>"
      if "append_financial_audit_event lib conn (finalization_command s i) = (d, Ok x)" for d x using that by simp
  qed
qed

lemma insert_snapshot_effect:
  "fst (insert_snapshot lib conn s) = (case snd (insert_snapshot lib conn s) of Inl _ \<Rightarrow> conn | Inr _ \<Rightarrow> with_snapshot conn (snapshot_values s))"
  by (simp add: insert_snapshot_def ebind_def Let_def split: sum.split)

lemma store_new_effect: "\<exists>t. fst (store_new_snapshot lib conn s) = conn\<lparr>tables := t\<rparr>"
proof -
  have same: "\<exists>t. conn = conn\<lparr>tables := t\<rparr>" by (intro exI [of _ "tables conn"]) simp
  obtain c r where i: "insert_snapshot lib conn s = (c, r)" by fastforce
  obtain t where c: "c = conn\<lparr>tables := t\<rparr>"
    using insert_snapshot_effect [of lib conn s] same i by (cases r) auto
  have "\<exists>t. fst (if finalization_status s = ''finalized''
      then ebind (append_snapshot_finalization_audit lib c s) (\<lambda>conn _. (conn, Ok (s, False))) else (c, Ok (s, False))) = conn\<lparr>tables := t\<rparr>"
  proof (cases "finalization_status s = ''finalized''")
    case True
    obtain d q where d: "append_snapshot_finalization_audit lib c s = (d, q)" by fastforce
    then have "\<exists>t. d = conn\<lparr>tables := t\<rparr>" using finalization_audit_effect [of lib c s] c by auto
    then show ?thesis using d True by (cases q) simp_all
  qed (use c in auto)
  then show ?thesis using same i c by (cases r; cases "fetch_by_hash lib conn (combined_snapshot_hash s)") (auto simp: store_new_snapshot_def)
qed

interpretation snapshot_persist: transaction_body "\<lambda>conn. persist_in_transaction lib conn s"
  for lib :: stdlib and s :: authoritative_calculation_snapshot
proof unfold_locales
  fix conn :: "'a snapshot_tables_scheme connection"
  have "\<exists>t. conn = conn\<lparr>tables := t\<rparr>" by (intro exI [of _ "tables conn"]) simp
  then show "\<exists>t. fst (persist_in_transaction lib conn s) = conn\<lparr>tables := t\<rparr>"
    using store_new_effect [of lib conn s]
    by (cases "write_admission conn"; cases "fetch_snapshot lib conn (snapshot_public_id s)")
       (auto simp: persist_in_transaction_def split: option.split)
qed

lemma persisted_fetched:
  assumes "persist_in_transaction lib conn s = (conn', Ok (r, replayed))" and "list_all ascii (source_references s)"
  shows "fetch_snapshot lib conn' (snapshot_public_id s) = Ok (Some s)"
proof (cases replayed)
  case True
  then show ?thesis using persist_Ok_cases(4) [OF assms(1)] by simp
next
  case False
  then have "insert_snapshot lib conn s = (with_snapshot conn (snapshot_values s), Ok ())"
    using persist_Ok_cases(4) [OF assms(1)] by simp
  note f = stored_snapshot_fetched [OF this assms(2)]
  have "snapshots conn' = snapshots (with_snapshot conn (snapshot_values s))"
    using persist_tables [OF assms(1)] False by auto
  then show ?thesis using f fetch_snapshot_cong by metis
qed

text \<open>Every event that an append returns was built from its command.\<close>

lemma append_event_built:
  assumes "append_financial_audit_event lib conn command = (conn', Ok (e, replayed))"
  obtains n h json created where "build_event lib command n h json created = Ok e"
proof -
  obtain es where c: "if replayed
      then conn' = conn \<and> fetch_event lib conn (event_public_id command) = Ok (Some e) \<and> replay_event lib command e = Ok e
      else fetch_event lib conn (event_public_id command) = Ok None \<and> next_event lib command (last_event es) = Ok e \<and>
        verify_event lib e = Ok () \<and> conn' = with_row conn (event_values e)"
    by (rule append_Ok_cases [OF assms]) (rule that)
  show thesis
  proof (cases replayed)
    case True
    then have "replay_event lib command e = Ok e" using c by simp
    then show ?thesis by (rule replay_event_build) (rule that)
  next
    case False
    then have "next_event lib command (last_event es) = Ok e" using c by simp
    then show ?thesis by (rule next_event_Ok) (rule that)
  qed
qed

lemma finalization_event:
  assumes "append_snapshot_finalization_audit lib conn s = (conn', Ok u)" and "list_all ascii (source_references s)"
  obtains es e v where "list_chain lib conn' ''calculation_snapshot'' (snapshot_public_id s) = Ok es"
    and "verify_financial_audit_chain lib conn' ''calculation_snapshot'' (snapshot_public_id s) = Ok v" and "valid v"
    and "e \<in> set es" and "event_type e = ''calculation_snapshot_finalized''"
    and "calculation_snapshot_public_id e = Some (snapshot_public_id s)"
    and "calculation_snapshot_hash e = Some (combined_snapshot_hash s)"
proof -
  obtain i e replayed where a: "append_financial_audit_event lib conn (finalization_command s i) = (conn', Ok (e, replayed))"
    by (rule finalization_audit_Ok [OF assms(1)]) (rule that)
  let ?c = "finalization_command s i"
  have f: "aggregate_type ?c = ''calculation_snapshot''" "aggregate_public_id ?c = snapshot_public_id s"
    "source_evidence_references ?c = source_references s" by (simp_all add: finalization_command_def)
  have refs: "list_all ascii (source_evidence_references ?c)" using f(3) assms(2) by simp
  obtain es where es: "list_chain lib conn' ''calculation_snapshot'' (snapshot_public_id s) = Ok (if replayed then es else es @ [e])"
    "audit_chain (if replayed then es else es @ [e])"
    "if replayed then conn' = conn \<and> e \<in> set es else conn' = with_row conn (event_values e)"
    by (rule append_chain [OF a refs, unfolded f]) (rule that)
  obtain v where v: "verify_financial_audit_chain lib conn' ''calculation_snapshot'' (snapshot_public_id s) = Ok v" "valid v"
    using verify_chain_count [OF es(1,2)] by blast
  obtain n h json created where "build_event lib ?c n h json created = Ok e"
    by (rule append_event_built [OF a]) (rule that)
  then have "event_type e = ''calculation_snapshot_finalized''" "calculation_snapshot_public_id e = Some (snapshot_public_id s)"
    "calculation_snapshot_hash e = Some (combined_snapshot_hash s)"
    by (auto simp: build_event_def finalization_command_def result_simps Let_def)
  moreover have "e \<in> set (if replayed then es else es @ [e])" using es(3) by (simp split: if_splits)
  ultimately show thesis using that [OF es(1) v] by blast
qed

section \<open>A sample snapshot\<close>

lemma built_snapshot_ascii:
  assumes "buildable lib r" and "verify_snapshot lib s = Ok ()" and "digest_shape (sha256 lib)"
    and "snapshot_fields.truncate s = (snapshot_fields.truncate r)\<lparr>source_references := sort (source_references r)\<rparr>"
    and "case loads (rules_payload_json s) of Some j \<Rightarrow> plain j | None \<Rightarrow> False"
  shows "ascii_snapshot s \<and> ascii (combined_snapshot_hash s)"
proof -
  have "snapshot_checks (snapshot_values s)" by (rule verified_snapshot_checks [OF assms(2,3)])
  then have h: "ascii (input_hash s)" "ascii (output_hash s)" "ascii (rules_hash s)" "ascii (combined_snapshot_hash s)"
    by (simp_all add: snapshot_checks_def snapshot_values_def ascii_hash)
  have "\<forall>st \<in> set VALID_FINALIZATION_STATUSES. ascii st" "ascii SNAPSHOT_SCHEMA_VERSION" by code_simp+
  then show ?thesis using assms(1,4,5) h
    by (simp add: ascii_snapshot_def buildable_def snapshot_fields.truncate_def list_all_iff)
qed

definition sample_request :: snapshot_request where
  "sample_request =
     \<lparr>snapshot_public_id = ''s-1'', snapshot_schema_version = ''v1'', calculation_type = ''receipt_split'',
      snapshot_aggregate_public_id = ''r-1'', money_contract_version = ''m1'', currency_contract_version = ''c1'',
      algorithm_version = ''a1'', source_references = [''y'', ''x''], previous_snapshot_public_id = None,
      snapshot_actor_type = ''system'', snapshot_actor_public_id = None, authorization_reference = None,
      finalization_status = ''finalized'', snapshot_created_at = sample_time, input_payload = sample_object,
      output_payload = OInt 7, rules_payload = ONone\<rparr>"

definition sample_snapshot_conn :: "snapshot_tables connection" where
  "sample_snapshot_conn =
     \<lparr>write_admission = Ok (), begin_outcome = Ok (), commit_outcome = Commits,
      tables = \<lparr>financial_audit_events = [], authoritative_calculation_snapshots = [], legacy_snapshot_ids = []\<rparr>,
      rollback_tables =
        Some \<lparr>financial_audit_events = [], authoritative_calculation_snapshots = [], legacy_snapshot_ids = []\<rparr>\<rparr>"

lemma sample_buildable: "buildable sample_lib sample_request"
proof -
  have "serializable sample_object" unfolding serializable_def
    using sample_ascii canonical_json_text_plain [OF sample_normal sample_ascii] by simp
  moreover have "serializable (OInt 7)" "serializable ONone" by code_simp+
  moreover have "case aware_timestamp sample_lib SnapshotVerificationError sample_time of Inr _ \<Rightarrow> True | Inl _ \<Rightarrow> False"
    by code_simp
  moreover have "list_all (\<lambda>value. py_strip value \<noteq> [] \<and> ascii value)
      [''s-1'', ''receipt_split'', ''r-1'', ''m1'', ''c1'', ''a1'', ''system'', sample_time]"
    "list_all (\<lambda>value. py_strip value \<noteq> [] \<and> ascii value) [''y'', ''x'']"
    "''finalized'' \<in> set VALID_FINALIZATION_STATUSES" "''v1'' = SNAPSHOT_SCHEMA_VERSION" by code_simp+
  ultimately show ?thesis unfolding buildable_def sample_request_def by simp
qed

lemma sample_snapshot:
  obtains s where "build_authoritative_snapshot sample_lib sample_request = Ok s" and "verify_snapshot sample_lib s = Ok ()"
    and "ascii_snapshot s" and "ascii (combined_snapshot_hash s)" and "finalization_status s = ''finalized''"
    and "list_all ascii (source_references s)" and "snapshot_created_at s = sample_time" and "authorization_reference s = None"
    and "snapshot_actor_public_id s = None" and "previous_snapshot_public_id s = None" and "snapshot_public_id s = ''s-1''"
proof -
  obtain s where s: "build_authoritative_snapshot sample_lib sample_request = Ok s" "verify_snapshot sample_lib s = Ok ()"
    "snapshot_fields.truncate s = (snapshot_fields.truncate sample_request)\<lparr>source_references := sort (source_references sample_request)\<rparr>"
    "case loads (rules_payload_json s) of Some j \<Rightarrow> plain j | None \<Rightarrow> False"
    by (rule build_snapshot_succeeds [OF sample_buildable]) (rule that)
  note a = built_snapshot_ascii [OF sample_buildable s(2) sample_shape s(3,4)]
  have "list_all ascii (source_references s)" using a by (simp add: ascii_snapshot_def)
  then show thesis using that [OF s(1,2)] a s(3)
    by (simp add: snapshot_fields.truncate_def sample_request_def)
qed

lemma sample_persist:
  obtains s conn' where "build_authoritative_snapshot sample_lib sample_request = Ok s" and "verify_snapshot sample_lib s = Ok ()"
    and "ascii_snapshot s" and "finalization_status s = ''finalized''" and "snapshot_public_id s = ''s-1''"
    and "list_all ascii (source_references s)"
    and "persist_in_transaction sample_lib sample_snapshot_conn s = (conn', Ok (s, False))"
proof -
  obtain s where s: "build_authoritative_snapshot sample_lib sample_request = Ok s" "verify_snapshot sample_lib s = Ok ()"
    "ascii_snapshot s" "ascii (combined_snapshot_hash s)" "finalization_status s = ''finalized''"
    "list_all ascii (source_references s)" "snapshot_created_at s = sample_time" "authorization_reference s = None"
    "snapshot_actor_public_id s = None" "previous_snapshot_public_id s = None" "snapshot_public_id s = ''s-1''"
    by (rule sample_snapshot) (rule that)
  have adm: "write_admission sample_snapshot_conn = Ok ()" "in_transaction sample_snapshot_conn" "snapshots sample_snapshot_conn = []"
    "events sample_snapshot_conn = []" by (simp_all add: sample_snapshot_conn_def)
  let ?conn = "with_snapshot sample_snapshot_conn (snapshot_values s)"
  have "\<exists>i. derive_audit_event_public_id sample_lib ''calculation_snapshot'' (snapshot_public_id s)
      ''calculation_snapshot_finalized'' (snapshot_public_id s) = Ok i \<and> py_strip i \<noteq> []"
  proof -
    have "case derive_audit_event_public_id sample_lib ''calculation_snapshot'' ''s-1''
        ''calculation_snapshot_finalized'' ''s-1'' of Inr i \<Rightarrow> py_strip i \<noteq> [] | Inl _ \<Rightarrow> False" by code_simp
    then show ?thesis using s(11) by (auto split: sum.splits)
  qed
  then obtain i where i: "derive_audit_event_public_id sample_lib ''calculation_snapshot'' (snapshot_public_id s)
      ''calculation_snapshot_finalized'' (snapshot_public_id s) = Ok i" "py_strip i \<noteq> []" by blast
  have t: "normalize_timestamp sample_lib sample_time = Ok sample_time" by code_simp
  have acc: "acceptable sample_lib None (finalization_command s i)"
    by (rule finalization_acceptable [OF s(2) sample_shape s(3,4) _ t])
       (simp_all add: s(7-9) t blank_option_def i(2))
  have "list_chain sample_lib ?conn (aggregate_type (finalization_command s i)) (aggregate_public_id (finalization_command s i)) = Ok []"
    using adm(4) by (simp add: list_chain_def select_chain_def)
  then obtain e where "append_financial_audit_event sample_lib ?conn (finalization_command s i) =
      (if list_ex (\<lambda>r. same_identity r (event_values e)) (events ?conn)
       then (?conn, raise AuditChainConflictError ''Audit chain append conflicted in SQLite'')
       else (with_row ?conn (event_values e), Ok (e, False)))"
    using append_succeeds [OF sample_shape, of ?conn "finalization_command s i" "[]"] adm acc by auto
  then have "append_snapshot_finalization_audit sample_lib ?conn s = (with_row ?conn (event_values e), Ok ())"
    using i(1) adm(4) by (simp add: append_snapshot_finalization_audit_def)
  then have "persist_in_transaction sample_lib sample_snapshot_conn s = (with_row ?conn (event_values e), Ok (s, False))"
    using persist_new [OF adm(1,2) s(2) sample_shape] adm(3) s(5,10) by simp
  then show thesis using that s by blast
qed

lemma binding_Ok:
  assumes "verify_snapshot_binding lib conn i x = Ok s"
  shows "fetch_snapshot lib conn i = Ok (Some s)" and "combined_snapshot_hash s = expected_combined_hash x"
    and "finalization_status s = ''finalized''"
    and "\<forall>p. expected_output_payload x = Some p \<longrightarrow> canonical_json_text p = Ok (output_payload_json s)"
  using assms
  by (auto simp: verify_snapshot_binding_def load_snapshot_for_authoritative_use_def result_simps
      split: option.splits if_splits)

section \<open>Properties\<close>

text \<open>
  C25 The bound hash determines the snapshot. When a finalization is bound to a snapshot in each of two
  databases with the same expected hash, both snapshots verify and are finalized, an expected output
  is the stored one, and the two agree on everything but public id and time of creation, or two of
  their hashed texts collide under SHA-256.
\<close>

theorem binding_determines_content:
  assumes "verify_snapshot_binding lib conn i x = Ok s" and "verify_snapshot_binding lib other j y = Ok t"
    and "expected_combined_hash x = expected_combined_hash y"
    and "ascii_snapshot s" and "ascii_snapshot t" and "digest_shape (sha256 lib)"
  shows "verify_snapshot lib s = Ok () \<and> finalization_status s = ''finalized'' \<and>
    (\<forall>p. expected_output_payload x = Some p \<longrightarrow> canonical_json_text p = Ok (output_payload_json s)) \<and>
    (content s = content t \<or> (\<exists>(a, b) \<in> set (paired_preimages s t). collision (sha256 lib) a b))"
proof -
  note b = binding_Ok [OF assms(1)] and c = binding_Ok [OF assms(2)]
  have v: "verify_snapshot lib s = Ok ()" "verify_snapshot lib t = Ok ()"
    using fetch_snapshot_verified [OF b(1)] fetch_snapshot_verified [OF c(1)] by blast+
  have "combined_snapshot_hash s = combined_snapshot_hash t" using b(2) c(2) assms(3) by simp
  then show ?thesis using b(3,4) v snapshot_commitment [OF v assms(4-6)] by blast
qed

theorem binding_determines_content_witness:
  "\<exists>(conn :: snapshot_tables connection) (other :: snapshot_tables connection) x s t.
     verify_snapshot_binding sample_lib conn ''s-1'' x = Ok s \<and> in_transaction conn \<and>
     verify_snapshot_binding sample_lib other ''s-1'' x = Ok t \<and> \<not> in_transaction other \<and>
     expected_output_payload x = Some (OInt 7) \<and> canonical_json_text (OInt 7) = Ok (output_payload_json s) \<and>
     (content s = content t \<or> (\<exists>(a, b) \<in> set (paired_preimages s t). collision (sha256 sample_lib) a b))"
proof -
  obtain s and conn' :: "snapshot_tables connection" where s: "build_authoritative_snapshot sample_lib sample_request = Ok s"
    "ascii_snapshot s" "finalization_status s = ''finalized''" "snapshot_public_id s = ''s-1''" "list_all ascii (source_references s)"
    "persist_in_transaction sample_lib sample_snapshot_conn s = (conn', Ok (s, False))"
    by (rule sample_persist) (rule that)
  obtain s' where "build_authoritative_snapshot sample_lib sample_request = Ok s'"
    "canonical_json_text (output_payload sample_request) = Ok (output_payload_json s')"
    by (rule build_snapshot_succeeds [OF sample_buildable]) (rule that)
  then have out: "canonical_json_text (OInt 7) = Ok (output_payload_json s)" using s(1) by (simp add: sample_request_def)
  define x where "x = \<lparr>expected_combined_hash = combined_snapshot_hash s, expected_calculation_type = calculation_type s,
    expected_aggregate_public_id = snapshot_aggregate_public_id s,
    expected_currency_contract_version = currency_contract_version s,
    expected_authorization_reference = None, expected_output_payload = Some (OInt 7)\<rparr>"
  have f: "fetch_snapshot sample_lib conn' ''s-1'' = Ok (Some s)" using persisted_fetched [OF s(6,5)] s(4) by simp
  then have g: "fetch_snapshot sample_lib (closed conn') ''s-1'' = Ok (Some s)"
    using fetch_snapshot_cong [of "closed conn'" conn'] by simp
  have b: "verify_snapshot_binding sample_lib c ''s-1'' x = Ok s"
    if "fetch_snapshot sample_lib c ''s-1'' = Ok (Some s)" for c :: "snapshot_tables connection"
    using out s(3) that by (simp add: verify_snapshot_binding_def load_snapshot_for_authoritative_use_def x_def)
  have "in_transaction conn'" "\<not> in_transaction (closed conn')" "expected_output_payload x = Some (OInt 7)"
    using persist_tables [OF s(6)] by (auto simp: sample_snapshot_conn_def x_def)
  with binding_determines_content [OF b [OF f] b [OF g] refl s(2,2) sample_shape] b [OF f] b [OF g] show ?thesis by blast
qed

text \<open>
  C26 Building and storing round trip. From every proper request a snapshot is built that verifies,
  carries the fields of the request with the references sorted, and is read back from its row
  unchanged.
\<close>

theorem build_snapshot_round_trip:
  assumes "buildable lib r"
  shows "\<exists>s. build_authoritative_snapshot lib r = Ok s \<and> verify_snapshot lib s = Ok () \<and>
    row_to_snapshot lib (snapshot_values s) = Ok s \<and> canonical_json_text (output_payload r) = Ok (output_payload_json s) \<and>
    snapshot_fields.truncate s = (snapshot_fields.truncate r)\<lparr>source_references := sort (source_references r)\<rparr>"
proof -
  obtain s where s: "build_authoritative_snapshot lib r = Ok s" "verify_snapshot lib s = Ok ()"
    "snapshot_fields.truncate s = (snapshot_fields.truncate r)\<lparr>source_references := sort (source_references r)\<rparr>"
    "canonical_json_text (output_payload r) = Ok (output_payload_json s)"
    by (rule build_snapshot_succeeds [OF assms]) (rule that)
  have "source_references s = sort (source_references r)" using s(3) by (simp add: snapshot_fields.truncate_def)
  then have "list_all ascii (source_references s)" using assms by (simp add: buildable_def list_all_iff)
  then show ?thesis using s row_to_snapshot_values [OF s(2)] by blast
qed

theorem build_snapshot_round_trip_witness:
  "buildable sample_lib sample_request \<and> (\<exists>s. build_authoritative_snapshot sample_lib sample_request = Ok s \<and>
     row_to_snapshot sample_lib (snapshot_values s) = Ok s)"
  using build_snapshot_round_trip [OF sample_buildable] sample_buildable by blast

text \<open>
  C27 A persisted snapshot is durable. After a snapshot was persisted it is loaded unchanged, and
  persisting it again reports a replay and changes nothing.
\<close>

theorem persist_then_load:
  assumes "persist_in_transaction lib conn s = (conn', Ok (r, replayed))" and "list_all ascii (source_references s)"
  shows "r = s \<and> load_snapshot_for_authoritative_use lib conn' (snapshot_public_id s) = Ok s \<and>
    persist_in_transaction lib conn' s = (conn', Ok (s, True))"
proof -
  note p = persist_Ok_cases [OF assms(1)] and f = persisted_fetched [OF assms]
  have "write_admission conn' = Ok ()" "in_transaction conn'" using persist_tables [OF assms(1)] p(2,3) by auto
  then show ?thesis using p(1) f
    by (simp add: load_snapshot_for_authoritative_use_def persist_in_transaction_def)
qed

theorem persist_then_load_witness:
  "\<exists>s (conn' :: snapshot_tables connection). persist_in_transaction sample_lib sample_snapshot_conn s = (conn', Ok (s, False)) \<and>
     persist_in_transaction sample_lib conn' s = (conn', Ok (s, True))"
proof -
  obtain s and conn' :: "snapshot_tables connection" where s: "list_all ascii (source_references s)"
    "persist_in_transaction sample_lib sample_snapshot_conn s = (conn', Ok (s, False))"
    by (rule sample_persist) (rule that)
  from persist_then_load [OF s(2,1)] s(2) show ?thesis by blast
qed

text \<open>
  C28 Finalized snapshots are audited. Persisting a new finalized snapshot leaves an audit chain for it
  that verifies and contains a finalization event with the public id and the hash of the snapshot.
\<close>

theorem finalized_snapshot_audited:
  assumes "persist_in_transaction lib conn s = (conn', Ok (r, False))" and "finalization_status s = ''finalized''"
    and "list_all ascii (source_references s)"
  shows "\<exists>es e v. list_chain lib conn' ''calculation_snapshot'' (snapshot_public_id s) = Ok es \<and>
    verify_financial_audit_chain lib conn' ''calculation_snapshot'' (snapshot_public_id s) = Ok v \<and> valid v \<and>
    e \<in> set es \<and> event_type e = ''calculation_snapshot_finalized'' \<and>
    calculation_snapshot_public_id e = Some (snapshot_public_id s) \<and>
    calculation_snapshot_hash e = Some (combined_snapshot_hash s)"
proof -
  have "append_snapshot_finalization_audit lib (with_snapshot conn (snapshot_values s)) s = (conn', Ok ())"
    using persist_Ok_cases(4) [OF assms(1)] assms(2) by simp
  then show ?thesis by (rule finalization_event [OF _ assms(3)]) blast
qed

theorem finalized_snapshot_audited_witness:
  "\<exists>s (conn' :: snapshot_tables connection) v. persist_in_transaction sample_lib sample_snapshot_conn s = (conn', Ok (s, False)) \<and>
     verify_financial_audit_chain sample_lib conn' ''calculation_snapshot'' (snapshot_public_id s) = Ok v \<and> valid v"
proof -
  obtain s and conn' :: "snapshot_tables connection" where s: "finalization_status s = ''finalized''" "list_all ascii (source_references s)"
    "persist_in_transaction sample_lib sample_snapshot_conn s = (conn', Ok (s, False))"
    by (rule sample_persist) (rule that)
  from finalized_snapshot_audited [OF s(3,1,2)] s(3) show ?thesis by blast
qed

text \<open>
  C29 Persisting is all or nothing. When a snapshot is persisted in a transaction of its own, an error
  leaves the connection and its tables as they were, also when the row of the snapshot was inserted
  before its audit event was refused, or when the commit fails; success leaves no transaction open and
  adds the row of the snapshot unless it was there, and at most one audit event, for a finalized one.
\<close>

theorem persist_all_or_nothing:
  "case persist_authoritative_snapshot lib conn s of
     (conn', Inl err) \<Rightarrow> conn' = conn
   | (conn', Inr (r, replayed)) \<Rightarrow>
       r = s \<and> \<not> in_transaction conn' \<and>
       snapshots conn' = (if replayed then snapshots conn else snapshots conn @ [snapshot_values s]) \<and>
       (events conn' = events conn \<or>
        \<not> replayed \<and> finalization_status s = ''finalized'' \<and> (\<exists>e. events conn' = events conn @ [event_values e]))"
proof -
  obtain conn' r where cr: "persist_authoritative_snapshot lib conn s = (conn', r)" by fastforce
  note a = snapshot_persist.all_or_nothing [where lib = lib and s = s and conn = conn
      and busy = "PyError SnapshotConflictError ''Snapshot persistence requires no pending transaction''",
      folded persist_authoritative_snapshot_def, unfolded cr]
  show ?thesis
  proof (cases r)
    case (Inl err)
    then show ?thesis using a cr by simp
  next
    case (Inr er)
    obtain q replayed where er: "er = (q, replayed)" by (cases er)
    then have b: "persist_in_transaction lib (begun conn) s =
        ((begun conn)\<lparr>tables := tables conn'\<rparr>, Ok (q, replayed))" using a Inr by simp
    have "(begun conn)\<lparr>tables := tables conn'\<rparr> =
        (if replayed then begun conn else with_snapshot (begun conn) (snapshot_values s)) \<or>
      \<not> replayed \<and> finalization_status s = ''finalized'' \<and>
      (\<exists>e. (begun conn)\<lparr>tables := tables conn'\<rparr> =
        with_row (with_snapshot (begun conn) (snapshot_values s)) (event_values e))"
      by (rule persist_tables [OF b])
    then have "tables conn' = (if replayed then tables conn else tables (with_snapshot conn (snapshot_values s))) \<or>
      \<not> replayed \<and> finalization_status s = ''finalized'' \<and>
      (\<exists>e. tables conn' = tables (with_row (with_snapshot conn (snapshot_values s)) (event_values e)))"
      by (auto dest!: arg_cong [of _ _ tables] split: if_splits)
    then show ?thesis using a cr Inr er persist_Ok_cases(1) [OF b] by auto
  qed
qed

end
