(* ===== verification/Recon_Models.thy ===== *)
theory Recon_Models
  imports Canonical_Json
begin

text \<open>
  The domain models of bank reconciliation, \<open>finance_core/reconciliation/models.py\<close>: statuses, reason
  codes and the other enumerations with their texts, statement transactions and internal candidates
  with their constructors' checks, the merchant, date, amount and currency comparisons, and the
  tables that classify review issues.

  A constructor's arguments have the type of the finished record except for the fields it checks:
  amounts are arbitrary values, directions absent, texts or something else. Messages leave out
  the \<open>repr\<close> of a refused text.
\<close>

section \<open>Enumerations\<close>

datatype match_status =
    MS_MATCHED | MS_NO_MATCH | MS_AMOUNT_MISMATCH | MS_CURRENCY_MISMATCH | MS_DATE_MISMATCH
  | MS_MERCHANT_MISMATCH | MS_POSSIBLE_DUPLICATE | MS_AMBIGUOUS | MS_NEEDS_REVIEW

fun match_status_value :: "match_status \<Rightarrow> string" where
  "match_status_value MS_MATCHED = ''matched''"
| "match_status_value MS_NO_MATCH = ''no_match''"
| "match_status_value MS_AMOUNT_MISMATCH = ''amount_mismatch''"
| "match_status_value MS_CURRENCY_MISMATCH = ''currency_mismatch''"
| "match_status_value MS_DATE_MISMATCH = ''date_mismatch''"
| "match_status_value MS_MERCHANT_MISMATCH = ''merchant_mismatch''"
| "match_status_value MS_POSSIBLE_DUPLICATE = ''possible_duplicate''"
| "match_status_value MS_AMBIGUOUS = ''ambiguous''"
| "match_status_value MS_NEEDS_REVIEW = ''needs_review''"

datatype reason_code =
    RC_EXACT_AMOUNT_MATCH | RC_SAME_CURRENCY | RC_TRANSACTION_DATE_WITHIN_TOLERANCE
  | RC_POSTED_DATE_WITHIN_TOLERANCE | RC_POSTED_DATE_WINDOW_MATCH | RC_MERCHANT_EXACT_MATCH
  | RC_MERCHANT_NORMALIZED_MATCH | RC_MERCHANT_SIMILARITY_MATCH | RC_DIRECTION_TYPE_COMPATIBLE
  | RC_AMOUNT_DIFFERS | RC_CURRENCY_DIFFERS | RC_OUTSIDE_DATE_TOLERANCE | RC_NO_CANDIDATE_FOUND
  | RC_WEAK_MERCHANT_MATCH | RC_MISSING_STATEMENT_DATE | RC_MISSING_INTERNAL_DATE
  | RC_MULTIPLE_CANDIDATE_MATCHES | RC_NEEDS_REVIEW | RC_MISSING_DIRECTION | RC_UNKNOWN_DIRECTION
  | RC_DIRECTION_TYPE_INCOMPATIBLE | RC_UNKNOWN_TRANSACTION_TYPE | RC_AMOUNT_SIGN_CONTRADICTION
  | RC_ZERO_AMOUNT_REQUIRES_REVIEW | RC_INVALID_SOURCE_IDENTITY

fun reason_code_value :: "reason_code \<Rightarrow> string" where
  "reason_code_value RC_EXACT_AMOUNT_MATCH = ''exact_amount_match''"
| "reason_code_value RC_SAME_CURRENCY = ''same_currency''"
| "reason_code_value RC_TRANSACTION_DATE_WITHIN_TOLERANCE = ''transaction_date_within_tolerance''"
| "reason_code_value RC_POSTED_DATE_WITHIN_TOLERANCE = ''posted_date_within_tolerance''"
| "reason_code_value RC_POSTED_DATE_WINDOW_MATCH = ''posted_date_window_match''"
| "reason_code_value RC_MERCHANT_EXACT_MATCH = ''merchant_exact_match''"
| "reason_code_value RC_MERCHANT_NORMALIZED_MATCH = ''merchant_normalized_match''"
| "reason_code_value RC_MERCHANT_SIMILARITY_MATCH = ''merchant_similarity_match''"
| "reason_code_value RC_DIRECTION_TYPE_COMPATIBLE = ''direction_type_compatible''"
| "reason_code_value RC_AMOUNT_DIFFERS = ''amount_differs''"
| "reason_code_value RC_CURRENCY_DIFFERS = ''currency_differs''"
| "reason_code_value RC_OUTSIDE_DATE_TOLERANCE = ''outside_date_tolerance''"
| "reason_code_value RC_NO_CANDIDATE_FOUND = ''no_candidate_found''"
| "reason_code_value RC_WEAK_MERCHANT_MATCH = ''weak_merchant_match''"
| "reason_code_value RC_MISSING_STATEMENT_DATE = ''missing_statement_date''"
| "reason_code_value RC_MISSING_INTERNAL_DATE = ''missing_internal_date''"
| "reason_code_value RC_MULTIPLE_CANDIDATE_MATCHES = ''multiple_candidate_matches''"
| "reason_code_value RC_NEEDS_REVIEW = ''needs_review''"
| "reason_code_value RC_MISSING_DIRECTION = ''missing_direction''"
| "reason_code_value RC_UNKNOWN_DIRECTION = ''unknown_direction''"
| "reason_code_value RC_DIRECTION_TYPE_INCOMPATIBLE = ''direction_type_incompatible''"
| "reason_code_value RC_UNKNOWN_TRANSACTION_TYPE = ''unknown_transaction_type''"
| "reason_code_value RC_AMOUNT_SIGN_CONTRADICTION = ''amount_sign_contradiction''"
| "reason_code_value RC_ZERO_AMOUNT_REQUIRES_REVIEW = ''zero_amount_requires_review''"
| "reason_code_value RC_INVALID_SOURCE_IDENTITY = ''invalid_source_identity''"

datatype amount_direction =
    DEBIT | CREDIT | REFUND | REVERSAL | PAYMENT | FEE | INTEREST | CHARGEBACK | CARD_PAYMENT
  | TRANSFER_IN | TRANSFER_OUT | INTEREST_DEBIT | INTEREST_CREDIT | CASH_WITHDRAWAL | CASH_DEPOSIT
  | UNKNOWN

definition amount_directions :: "(string \<times> amount_direction) list" where
  "amount_directions =
     [(''debit'', DEBIT), (''credit'', CREDIT), (''refund'', REFUND), (''reversal'', REVERSAL),
      (''payment'', PAYMENT), (''fee'', FEE), (''interest'', INTEREST), (''chargeback'', CHARGEBACK),
      (''card_payment'', CARD_PAYMENT), (''transfer_in'', TRANSFER_IN), (''transfer_out'', TRANSFER_OUT),
      (''interest_debit'', INTEREST_DEBIT), (''interest_credit'', INTEREST_CREDIT),
      (''cash_withdrawal'', CASH_WITHDRAWAL), (''cash_deposit'', CASH_DEPOSIT), (''unknown'', UNKNOWN)]"

fun direction_value :: "amount_direction \<Rightarrow> string" where
  "direction_value DEBIT = ''debit''"
| "direction_value CREDIT = ''credit''"
| "direction_value REFUND = ''refund''"
| "direction_value REVERSAL = ''reversal''"
| "direction_value PAYMENT = ''payment''"
| "direction_value FEE = ''fee''"
| "direction_value INTEREST = ''interest''"
| "direction_value CHARGEBACK = ''chargeback''"
| "direction_value CARD_PAYMENT = ''card_payment''"
| "direction_value TRANSFER_IN = ''transfer_in''"
| "direction_value TRANSFER_OUT = ''transfer_out''"
| "direction_value INTEREST_DEBIT = ''interest_debit''"
| "direction_value INTEREST_CREDIT = ''interest_credit''"
| "direction_value CASH_WITHDRAWAL = ''cash_withdrawal''"
| "direction_value CASH_DEPOSIT = ''cash_deposit''"
| "direction_value UNKNOWN = ''unknown''"

datatype transaction_type =
    TT_EXPENSE | TT_INCOME | TT_REFUND | TT_REVERSAL | TT_CHARGEBACK | TT_CARD_PAYMENT | TT_TRANSFER_IN
  | TT_TRANSFER_OUT | TT_FEE | TT_INTEREST_DEBIT | TT_INTEREST_CREDIT | TT_CASH_WITHDRAWAL
  | TT_CASH_DEPOSIT | TT_UNKNOWN

fun transaction_type_value :: "transaction_type \<Rightarrow> string" where
  "transaction_type_value TT_EXPENSE = ''expense''"
| "transaction_type_value TT_INCOME = ''income''"
| "transaction_type_value TT_REFUND = ''refund''"
| "transaction_type_value TT_REVERSAL = ''reversal''"
| "transaction_type_value TT_CHARGEBACK = ''chargeback''"
| "transaction_type_value TT_CARD_PAYMENT = ''card_payment''"
| "transaction_type_value TT_TRANSFER_IN = ''transfer_in''"
| "transaction_type_value TT_TRANSFER_OUT = ''transfer_out''"
| "transaction_type_value TT_FEE = ''fee''"
| "transaction_type_value TT_INTEREST_DEBIT = ''interest_debit''"
| "transaction_type_value TT_INTEREST_CREDIT = ''interest_credit''"
| "transaction_type_value TT_CASH_WITHDRAWAL = ''cash_withdrawal''"
| "transaction_type_value TT_CASH_DEPOSIT = ''cash_deposit''"
| "transaction_type_value TT_UNKNOWN = ''unknown''"


section \<open>Statements and candidates\<close>

text \<open>What a caller may pass as a direction, and as a candidate's type.\<close>

datatype direction_argument = NoDirection | DirectionText string | DirectionOther

datatype type_argument = TypeEnum transaction_type | TypeText string

record ('a, 'd) statement_fields =
  st_transaction_date :: "date option"
  st_posted_date :: "date option"
  st_merchant_raw :: string
  st_merchant_normalized :: "string option"
  st_amount :: 'a
  st_currency :: "string option"
  st_account_name :: "string option"
  st_account_id :: "string option"
  st_source_batch_id :: "string option"
  st_statement_row_reference :: "string option"
  st_public_id :: "string option"
  st_row_fingerprint :: "string option"
  st_source_content_hash :: "string option"
  st_amount_direction :: 'd
  st_raw_amount :: "string option"
  st_raw_amount_type :: "string option"

type_synonym statement_transaction = "(dec option, amount_direction option) statement_fields"
type_synonym statement_arguments = "(py_value, direction_argument) statement_fields"

record 'a candidate_fields =
  ic_internal_id :: string
  ic_transaction_date :: date
  ic_merchant :: string
  ic_amount :: 'a
  ic_currency :: string
  ic_source_type :: "string option"
  ic_source_channel :: "string option"
  ic_attachment_path :: "string option"
  ic_evidence_reference :: "string option"
  ic_transaction_type :: "type_argument option"
  ic_posted_date :: "date option"

type_synonym internal_candidate = "dec candidate_fields"
type_synonym candidate_arguments = "py_value candidate_fields"

definition is_sha256 :: "string \<Rightarrow> bool" where
  "is_sha256 value \<longleftrightarrow> length value = 64 \<and> list_all (\<lambda>c. c \<in> set ''0123456789abcdef'') value"

definition statement_amount_check :: "py_value \<Rightarrow> dec option result" where
  "statement_amount_check value =
     (case value of
        PyNone \<Rightarrow> Ok None
      | PyDec (Finite d) \<Rightarrow>
          if dec_lt d ZERO then raise ValueError (''Statement normalized amount must be zero or positive, got '' @ dec_str d)
          else Ok (Some d)
      | PyDec _ \<Rightarrow> raise ValueError ''Statement amount must be finite''
      | _ \<Rightarrow> raise TypeError ''Statement amount must be Decimal or None'')"

text \<open>The enumeration is a subclass of \<open>str\<close>: a direction is looked up by its text.\<close>

definition direction_check :: "direction_argument \<Rightarrow> amount_direction option result" where
  "direction_check value =
     (case value of
        NoDirection \<Rightarrow> Ok None
      | DirectionText s \<Rightarrow>
          (case dget amount_directions (py_lower (py_strip s)) of
             Some d \<Rightarrow> Ok (Some d)
           | None \<Rightarrow> raise ValueError ''Invalid statement amount direction'')
      | DirectionOther \<Rightarrow>
          raise TypeError ''amount_direction must be StatementAmountDirection, string, or None'')"

definition make_statement :: "statement_arguments \<Rightarrow> statement_transaction result" where
  "make_statement s =
     rbind (statement_amount_check (st_amount s)) (\<lambda>amount.
     rbind (direction_check (st_amount_direction s)) (\<lambda>direction.
     rbind (ensure (case st_source_content_hash s of None \<Rightarrow> True | Some h \<Rightarrow> is_sha256 h)
       ValueError ''source_content_hash must be a lowercase SHA-256 digest'') (\<lambda>_.
     Ok \<lparr>st_transaction_date = st_transaction_date s, st_posted_date = st_posted_date s,
         st_merchant_raw = st_merchant_raw s, st_merchant_normalized = st_merchant_normalized s,
         st_amount = amount, st_currency = st_currency s, st_account_name = st_account_name s,
         st_account_id = st_account_id s, st_source_batch_id = st_source_batch_id s,
         st_statement_row_reference = st_statement_row_reference s, st_public_id = st_public_id s,
         st_row_fingerprint = st_row_fingerprint s, st_source_content_hash = st_source_content_hash s,
         st_amount_direction = direction, st_raw_amount = st_raw_amount s,
         st_raw_amount_type = st_raw_amount_type s\<rparr>)))"

definition make_candidate :: "candidate_arguments \<Rightarrow> internal_candidate result" where
  "make_candidate c =
     (if py_strip (ic_internal_id c) = [] then raise ValueError ''Internal candidate identity must not be empty''
      else
        case ic_amount c of
          PyDec (Finite d) \<Rightarrow>
            if dec_le d ZERO then raise ValueError (''Internal candidate amount must be positive, got '' @ dec_str d)
            else
              Ok \<lparr>ic_internal_id = ic_internal_id c, ic_transaction_date = ic_transaction_date c,
                  ic_merchant = ic_merchant c, ic_amount = d, ic_currency = ic_currency c,
                  ic_source_type = ic_source_type c, ic_source_channel = ic_source_channel c,
                  ic_attachment_path = ic_attachment_path c, ic_evidence_reference = ic_evidence_reference c,
                  ic_transaction_type = ic_transaction_type c, ic_posted_date = ic_posted_date c\<rparr>
        | PyDec _ \<Rightarrow> raise ValueError ''Internal candidate amount must be finite''
        | _ \<Rightarrow> raise TypeError ''Internal candidate amount must be Decimal'')"


section \<open>Evidence and results\<close>

text \<open>A Python float: a sign and a magnitude, an infinity or not a number.\<close>

datatype py_float = Float bool rat | FloatInfinity bool | FloatNaN

record match_evidence =
  ev_statement_amount :: "dec option"
  ev_candidate_amount :: "dec option"
  ev_statement_currency :: "string option"
  ev_candidate_currency :: "string option"
  ev_statement_txn_date :: "date option"
  ev_statement_posted_date :: "date option"
  ev_candidate_txn_date :: "date option"
  ev_date_delta_days :: "int option"
  ev_date_tolerance_days :: int
  ev_statement_merchant :: "string option"
  ev_candidate_merchant :: "string option"
  ev_statement_merchant_normalized :: "string option"
  ev_candidate_merchant_normalized :: "string option"
  ev_merchant_similarity :: "py_float option"
  ev_candidate_count :: int
  ev_statement_direction :: "string option"
  ev_candidate_transaction_type :: "string option"
  ev_original_amount_text :: "string option"
  ev_original_amount_sign :: "string option"
  ev_compatibility_result :: "string option"
  ev_hard_gate_results :: "string list"

definition default_evidence :: match_evidence where
  "default_evidence =
     \<lparr>ev_statement_amount = None, ev_candidate_amount = None, ev_statement_currency = None,
      ev_candidate_currency = None, ev_statement_txn_date = None, ev_statement_posted_date = None,
      ev_candidate_txn_date = None, ev_date_delta_days = None, ev_date_tolerance_days = 3,
      ev_statement_merchant = None, ev_candidate_merchant = None, ev_statement_merchant_normalized = None,
      ev_candidate_merchant_normalized = None, ev_merchant_similarity = None, ev_candidate_count = 0,
      ev_statement_direction = None, ev_candidate_transaction_type = None, ev_original_amount_text = None,
      ev_original_amount_sign = None, ev_compatibility_result = None, ev_hard_gate_results = []\<rparr>"

record match_result =
  mr_status :: match_status
  mr_reasons :: "reason_code list"
  mr_evidence :: match_evidence
  mr_statement :: "statement_transaction option"
  mr_best_candidate :: "internal_candidate option"
  mr_candidates :: "internal_candidate list"
  mr_decision_hash :: "string option"
  mr_decision_material_json :: "string option"
  mr_candidate_set_fingerprint :: "string option"
  mr_decision_contract_version :: "string option"
  mr_matcher_version :: "string option"
  mr_compatibility_version :: "string option"
  mr_merchant_normalization_version :: "string option"
  mr_authorization_public_id :: "string option"

text \<open>A result as the matcher constructs it, before the decision is recorded in it.\<close>

definition make_result ::
  "match_status \<Rightarrow> reason_code list \<Rightarrow> match_evidence \<Rightarrow> statement_transaction \<Rightarrow> internal_candidate option \<Rightarrow>
   internal_candidate list \<Rightarrow> match_result" where
  "make_result status reasons evidence statement best candidates =
     \<lparr>mr_status = status, mr_reasons = reasons, mr_evidence = evidence, mr_statement = Some statement,
      mr_best_candidate = best, mr_candidates = candidates, mr_decision_hash = None,
      mr_decision_material_json = None, mr_candidate_set_fingerprint = None,
      mr_decision_contract_version = None, mr_matcher_version = None, mr_compatibility_version = None,
      mr_merchant_normalization_version = None, mr_authorization_public_id = None\<rparr>"

definition is_matched :: "match_result \<Rightarrow> bool" where
  "is_matched r \<longleftrightarrow> mr_status r = MS_MATCHED"

definition needs_review :: "match_result \<Rightarrow> bool" where
  "needs_review r \<longleftrightarrow> mr_status r \<in> {MS_NEEDS_REVIEW, MS_AMBIGUOUS, MS_POSSIBLE_DUPLICATE}"


section \<open>Comparisons\<close>

definition MERCHANT_ALIAS_MAP :: "(string, string) dict" where
  "MERCHANT_ALIAS_MAP =
     [(''apple.com/bill'', ''apple''), (''apple'', ''apple''), (''google'', ''google''),
      (''google play'', ''google''), (''google *youtube'', ''google''), (''netflix'', ''netflix''),
      (''netflix.com'', ''netflix''), (''spotify'', ''spotify''), (''spotify usa'', ''spotify''),
      (''uber'', ''uber''), (''uber trip'', ''uber''), (''uber eats'', ''uber''), (''grab'', ''grab''),
      (''grab taxi'', ''grab''), (''grab food'', ''grab''), (''foodpanda'', ''foodpanda''),
      (''foodpanda sg'', ''foodpanda''), (''shopee'', ''shopee''), (''shopee pay'', ''shopee''),
      (''lazada'', ''lazada''), (''lazada sg'', ''lazada''), (''amazon'', ''amazon''),
      (''amazon prime'', ''amazon''), (''amazon web services'', ''amazon''), (''aws'', ''amazon'')]"

definition normalize_merchant :: "string \<Rightarrow> string" where
  "normalize_merchant raw = (let key = py_lower (py_strip raw) in dget_or MERCHANT_ALIAS_MAP key key)"

text \<open>The quotient of two counts, rounded to a float.\<close>

definition merchant_similarity :: "string \<Rightarrow> string \<Rightarrow> rat result" where
  "merchant_similarity a b =
     (let tokens_a = remdups (py_split (py_lower a)); tokens_b = remdups (py_split (py_lower b)) in
      if tokens_a = [] \<or> tokens_b = [] then Ok 0
      else
        let intersection = filter (\<lambda>t. t \<in> set tokens_b) tokens_a;
            union = remdups (tokens_a @ tokens_b) in
        case to_float (of_nat (length intersection) / of_nat (length union)) of
          Some x \<Rightarrow> Ok x
        | None \<Rightarrow> raise OverflowError ''integer division result too large for a float'')"

definition date_delta :: "date \<Rightarrow> date \<Rightarrow> int" where
  "date_delta a b = \<bar>days_between a b\<bar>"

record date_match_result =
  dm_matched :: bool
  dm_matched_on :: string
  dm_day_delta :: "int option"

definition date_match :: "bool \<Rightarrow> string \<Rightarrow> int option \<Rightarrow> date_match_result" where
  "date_match matched matched_on delta = \<lparr>dm_matched = matched, dm_matched_on = matched_on, dm_day_delta = delta\<rparr>"

definition match_date_window ::
  "date \<Rightarrow> date option \<Rightarrow> date option \<Rightarrow> int \<Rightarrow> int \<Rightarrow> date_match_result" where
  "match_date_window app_date statement_transaction_date statement_posted_date date_tolerance_days posted_date_window_days =
     (case statement_transaction_date of
        Some t \<Rightarrow>
          if app_date = t then date_match True ''transaction_date'' (Some 0)
          else date_match False ''none'' (Some \<bar>days_between app_date t\<bar>)
      | None \<Rightarrow>
          (case statement_posted_date of
             Some p \<Rightarrow>
               let signed_delta = days_between p app_date; abs_delta = \<bar>signed_delta\<bar> in
               if signed_delta < 0 then date_match False ''none'' (Some abs_delta)
               else if signed_delta = 0 then date_match True ''posted_date'' (Some 0)
               else if signed_delta \<le> posted_date_window_days
               then date_match True ''posted_date_window'' (Some abs_delta)
               else date_match False ''none'' (Some abs_delta)
           | None \<Rightarrow> date_match False ''none'' None))"

definition amount_exact_match :: "dec \<Rightarrow> dec \<Rightarrow> bool" where
  "amount_exact_match statement_amount candidate_amount = dec_eq statement_amount candidate_amount"

definition currency_match :: "string option \<Rightarrow> string option \<Rightarrow> bool" where
  "currency_match a b =
     (case (a, b) of
        (Some x, Some y) \<Rightarrow> py_upper (py_strip x) = py_upper (py_strip y)
      | _ \<Rightarrow> False)"

definition optional_json :: "string option \<Rightarrow> json" where
  "optional_json value = (case value of None \<Rightarrow> JNull | Some s \<Rightarrow> JStr s)"

definition hash_result :: "stdlib \<Rightarrow> match_result \<Rightarrow> string" where
  "hash_result lib r =
     (case mr_decision_hash r of
        Some h \<Rightarrow> h
      | None \<Rightarrow>
          let payload = JObj
            [(''status'', JStr (match_status_value (mr_status r))),
             (''reasons'', JList (map (\<lambda>c. JStr (reason_code_value c)) (mr_reasons r))),
             (''best_candidate_id'', optional_json (map_option ic_internal_id (mr_best_candidate r)))]
          in hexdigest (sha256 lib (encode (json_text True (sort_keys payload)))))"


section \<open>Review issues\<close>

datatype issue_type =
    IT_MATCHED | IT_AMOUNT_MISMATCH | IT_CURRENCY_MISMATCH | IT_DATE_MISMATCH | IT_MERCHANT_MISMATCH
  | IT_MISSING_IN_APP | IT_MISSING_IN_STATEMENT | IT_DATE_WINDOW_MATCH | IT_MERCHANT_VARIATION
  | IT_LOW_CONFIDENCE_MATCH | IT_POSSIBLE_DUPLICATE | IT_NEEDS_REVIEW

fun issue_type_value :: "issue_type \<Rightarrow> string" where
  "issue_type_value IT_MATCHED = ''matched''"
| "issue_type_value IT_AMOUNT_MISMATCH = ''amount_mismatch''"
| "issue_type_value IT_CURRENCY_MISMATCH = ''currency_mismatch''"
| "issue_type_value IT_DATE_MISMATCH = ''date_mismatch''"
| "issue_type_value IT_MERCHANT_MISMATCH = ''merchant_mismatch''"
| "issue_type_value IT_MISSING_IN_APP = ''missing_in_app''"
| "issue_type_value IT_MISSING_IN_STATEMENT = ''missing_in_statement''"
| "issue_type_value IT_DATE_WINDOW_MATCH = ''date_window_match''"
| "issue_type_value IT_MERCHANT_VARIATION = ''merchant_variation''"
| "issue_type_value IT_LOW_CONFIDENCE_MATCH = ''low_confidence_match''"
| "issue_type_value IT_POSSIBLE_DUPLICATE = ''possible_duplicate''"
| "issue_type_value IT_NEEDS_REVIEW = ''needs_review''"

datatype review_action =
    CONFIRM_MATCH | ADJUST_APP_TRANSACTION | CREATE_MISSING_APP_TRANSACTION | MARK_STATEMENT_ONLY
  | MARK_DUPLICATE | IGNORE | NEEDS_MORE_INFO

datatype review_priority = HIGH | MEDIUM | LOW

fun suggested_action_for_issue :: "issue_type \<Rightarrow> review_action" where
  "suggested_action_for_issue IT_MATCHED = CONFIRM_MATCH"
| "suggested_action_for_issue IT_AMOUNT_MISMATCH = ADJUST_APP_TRANSACTION"
| "suggested_action_for_issue IT_CURRENCY_MISMATCH = ADJUST_APP_TRANSACTION"
| "suggested_action_for_issue IT_DATE_MISMATCH = ADJUST_APP_TRANSACTION"
| "suggested_action_for_issue IT_DATE_WINDOW_MATCH = ADJUST_APP_TRANSACTION"
| "suggested_action_for_issue IT_MERCHANT_MISMATCH = NEEDS_MORE_INFO"
| "suggested_action_for_issue IT_MERCHANT_VARIATION = NEEDS_MORE_INFO"
| "suggested_action_for_issue IT_MISSING_IN_APP = CREATE_MISSING_APP_TRANSACTION"
| "suggested_action_for_issue IT_MISSING_IN_STATEMENT = MARK_STATEMENT_ONLY"
| "suggested_action_for_issue IT_POSSIBLE_DUPLICATE = MARK_DUPLICATE"
| "suggested_action_for_issue IT_NEEDS_REVIEW = NEEDS_MORE_INFO"
| "suggested_action_for_issue IT_LOW_CONFIDENCE_MATCH = NEEDS_MORE_INFO"

fun priority_score_for_issue :: "issue_type \<Rightarrow> int" where
  "priority_score_for_issue IT_AMOUNT_MISMATCH = 0"
| "priority_score_for_issue IT_CURRENCY_MISMATCH = 1"
| "priority_score_for_issue IT_POSSIBLE_DUPLICATE = 2"
| "priority_score_for_issue IT_DATE_MISMATCH = 3"
| "priority_score_for_issue IT_MISSING_IN_APP = 4"
| "priority_score_for_issue IT_MERCHANT_MISMATCH = 5"
| "priority_score_for_issue IT_MISSING_IN_STATEMENT = 6"
| "priority_score_for_issue IT_NEEDS_REVIEW = 7"
| "priority_score_for_issue IT_DATE_WINDOW_MATCH = 8"
| "priority_score_for_issue IT_MERCHANT_VARIATION = 9"
| "priority_score_for_issue IT_LOW_CONFIDENCE_MATCH = 10"
| "priority_score_for_issue IT_MATCHED = 99"

definition review_priority_for_issue :: "issue_type \<Rightarrow> review_priority" where
  "review_priority_for_issue issue =
     (if issue \<in> {IT_AMOUNT_MISMATCH, IT_CURRENCY_MISMATCH, IT_MISSING_IN_APP, IT_POSSIBLE_DUPLICATE} then HIGH
      else if issue \<in> {IT_DATE_MISMATCH, IT_DATE_WINDOW_MATCH, IT_MERCHANT_VARIATION, IT_MERCHANT_MISMATCH,
        IT_MISSING_IN_STATEMENT, IT_NEEDS_REVIEW, IT_LOW_CONFIDENCE_MATCH} then MEDIUM
      else LOW)"

fun supported_issue_types :: "review_action \<Rightarrow> issue_type list" where
  "supported_issue_types CONFIRM_MATCH = [IT_MATCHED, IT_NEEDS_REVIEW]"
| "supported_issue_types ADJUST_APP_TRANSACTION =
     [IT_AMOUNT_MISMATCH, IT_CURRENCY_MISMATCH, IT_DATE_MISMATCH, IT_DATE_WINDOW_MATCH, IT_MERCHANT_MISMATCH,
      IT_MERCHANT_VARIATION]"
| "supported_issue_types CREATE_MISSING_APP_TRANSACTION = [IT_MISSING_IN_APP]"
| "supported_issue_types MARK_STATEMENT_ONLY = [IT_MISSING_IN_STATEMENT, IT_NEEDS_REVIEW]"
| "supported_issue_types MARK_DUPLICATE = [IT_POSSIBLE_DUPLICATE]"
| "supported_issue_types IGNORE = []"
| "supported_issue_types NEEDS_MORE_INFO = []"

definition is_resolution_compatible :: "review_action \<Rightarrow> issue_type \<Rightarrow> bool" where
  "is_resolution_compatible action issue =
     (let supported = supported_issue_types action in supported = [] \<or> issue \<in> set supported)"


section \<open>Bounds of the similarity\<close>

lemma merchant_similarity_cases:
  obtains x y where "merchant_similarity a b = Ok y" and "0 \<le> y" and "y \<le> 1" and "to_float x = Some y" and "0 \<le> x"
proof -
  let ?a = "remdups (py_split (py_lower a))" and ?b = "remdups (py_split (py_lower b))"
  let ?i = "filter (\<lambda>t. t \<in> set ?b) ?a" and ?u = "remdups (?a @ ?b)"
  show ?thesis
  proof (cases "?a = [] \<or> ?b = []")
    case True
    then show ?thesis by (intro that [of 0 0]) (simp_all only: merchant_similarity_def Let_def if_True order_refl zero_le_one to_float_zero)
  next
    case False
    have "length ?i \<le> length ?u"
    proof -
      have "length ?i = card (set ?i)" by (rule distinct_card [symmetric]) simp
      also have "\<dots> \<le> card (set ?u)" by (rule card_mono) auto
      also have "\<dots> = length ?u" by (rule distinct_card) simp
      finally show ?thesis .
    qed
    moreover have "?u \<noteq> []" using False by simp
    ultimately have x: "(0 :: rat) \<le> of_nat (length ?i) / of_nat (length ?u)" "of_nat (length ?i) / of_nat (length ?u) \<le> (1 :: rat)"
      by (simp_all only: divide_le_eq_1 of_nat_le_iff of_nat_0_le_iff divide_nonneg_nonneg length_greater_0_conv of_nat_0_less_iff) auto
    then obtain y where "to_float (of_nat (length ?i) / of_nat (length ?u)) = Some y" "0 \<le> y" "y \<le> 1" by (rule to_float_unit)
    then show ?thesis using False x(1) by (intro that [of y "of_nat (length ?i) / of_nat (length ?u)"]) (simp_all only: merchant_similarity_def Let_def if_False option.case)
  qed
qed

end
