(* ===== verification/Recon_Decision.thy ===== *)
theory Recon_Decision
  imports Recon_Models
begin

text \<open>
  The decision contract of the reconciliation matcher, \<open>finance_core/reconciliation/decision.py\<close>: the
  direction compatibility of statements and candidates, the evaluation of one candidate through the
  hard gates, and the canonical record of a decision with its digests.
\<close>

section \<open>Versions and records\<close>

definition DECISION_CONTRACT_VERSION :: string where
  "DECISION_CONTRACT_VERSION = ''reconciliation-decision-v1''"

definition MATCHER_VERSION :: string where
  "MATCHER_VERSION = ''reconciliation-matcher-v2''"

definition COMPATIBILITY_VERSION :: string where
  "COMPATIBILITY_VERSION = ''reconciliation-direction-compatibility-v1''"

definition MERCHANT_NORMALIZATION_VERSION :: string where
  "MERCHANT_NORMALIZATION_VERSION = ''merchant-normalization-v1''"

definition CANDIDATE_SET_VERSION :: string where
  "CANDIDATE_SET_VERSION = ''reconciliation-candidate-set-v1''"

definition DECISION_HASH_DOMAIN :: string where
  "DECISION_HASH_DOMAIN = ''finance-reconciliation-decision-v1''"

definition CANDIDATE_HASH_DOMAIN :: string where
  "CANDIDATE_HASH_DOMAIN = ''finance-reconciliation-candidate-set-v1''"

definition STATEMENT_ID_DOMAIN :: string where
  "STATEMENT_ID_DOMAIN = ''finance-reconciliation-statement-identity-v1''"

datatype compatibility_result = COMPATIBLE | INCOMPATIBLE | REVIEW_REQUIRED

fun compatibility_value :: "compatibility_result \<Rightarrow> string" where
  "compatibility_value COMPATIBLE = ''compatible''"
| "compatibility_value INCOMPATIBLE = ''incompatible''"
| "compatibility_value REVIEW_REQUIRED = ''review_required''"

datatype original_sign = SIGN_POSITIVE | SIGN_NEGATIVE | SIGN_ZERO | SIGN_MISSING

fun original_sign_value :: "original_sign \<Rightarrow> string" where
  "original_sign_value SIGN_POSITIVE = ''positive''"
| "original_sign_value SIGN_NEGATIVE = ''negative''"
| "original_sign_value SIGN_ZERO = ''zero''"
| "original_sign_value SIGN_MISSING = ''missing''"

record candidate_evaluation =
  ce_candidate :: internal_candidate
  ce_transaction_type :: transaction_type
  ce_compatibility :: compatibility_result
  ce_compatibility_reason :: reason_code
  ce_hard_gate_results :: "string list"
  ce_date_result :: "date_match_result option"
  ce_statement_merchant_normalized :: "string option"
  ce_candidate_merchant_normalized :: "string option"
  ce_merchant_similarity_score :: "dec option"
  ce_merchant_exact :: bool
  ce_merchant_normalized_match :: bool
  ce_eligible :: bool

record decision_record =
  dr_decision_hash :: string
  dr_decision_material_json :: string
  dr_candidate_set_fingerprint :: string


section \<open>Direction compatibility\<close>

definition INTENT_TYPE_MAP :: "(string, transaction_type) dict" where
  "INTENT_TYPE_MAP =
     [(''expense'', TT_EXPENSE), (''personal_expense'', TT_EXPENSE), (''personal_expense_log'', TT_EXPENSE),
      (''simple_expense'', TT_EXPENSE), (''simple_expense_log'', TT_EXPENSE), (''shared_expense'', TT_EXPENSE),
      (''shared_expense_log'', TT_EXPENSE), (''income'', TT_INCOME), (''reimbursement_received'', TT_INCOME),
      (''dividend_income'', TT_INCOME), (''refund'', TT_REFUND), (''reversal'', TT_REVERSAL),
      (''chargeback'', TT_CHARGEBACK), (''card_payment'', TT_CARD_PAYMENT), (''payment'', TT_CARD_PAYMENT),
      (''transfer_in'', TT_TRANSFER_IN), (''transfer_out'', TT_TRANSFER_OUT), (''fee'', TT_FEE),
      (''investment_fee'', TT_FEE), (''interest_debit'', TT_INTEREST_DEBIT),
      (''interest_credit'', TT_INTEREST_CREDIT), (''cash_withdrawal'', TT_CASH_WITHDRAWAL),
      (''cash_deposit'', TT_CASH_DEPOSIT), (''unknown'', TT_UNKNOWN)]"

fun compatible_types :: "amount_direction \<Rightarrow> transaction_type list" where
  "compatible_types DEBIT = [TT_EXPENSE]"
| "compatible_types CREDIT = [TT_INCOME]"
| "compatible_types REFUND = [TT_REFUND]"
| "compatible_types REVERSAL = [TT_REVERSAL]"
| "compatible_types CHARGEBACK = [TT_CHARGEBACK]"
| "compatible_types PAYMENT = [TT_CARD_PAYMENT]"
| "compatible_types CARD_PAYMENT = [TT_CARD_PAYMENT]"
| "compatible_types TRANSFER_IN = [TT_TRANSFER_IN]"
| "compatible_types TRANSFER_OUT = [TT_TRANSFER_OUT]"
| "compatible_types FEE = [TT_FEE]"
| "compatible_types INTEREST_DEBIT = [TT_INTEREST_DEBIT]"
| "compatible_types INTEREST_CREDIT = [TT_INTEREST_CREDIT]"
| "compatible_types CASH_WITHDRAWAL = [TT_CASH_WITHDRAWAL]"
| "compatible_types CASH_DEPOSIT = [TT_CASH_DEPOSIT]"
| "compatible_types _ = []"

definition OUTGOING_DIRECTIONS :: "amount_direction list" where
  "OUTGOING_DIRECTIONS = [DEBIT, PAYMENT, CARD_PAYMENT, TRANSFER_OUT, FEE, INTEREST_DEBIT, CASH_WITHDRAWAL]"

definition INCOMING_DIRECTIONS :: "amount_direction list" where
  "INCOMING_DIRECTIONS = [CREDIT, REFUND, REVERSAL, CHARGEBACK, TRANSFER_IN, INTEREST_CREDIT, CASH_DEPOSIT]"

definition type_of_text :: "string \<Rightarrow> transaction_type" where
  "type_of_text raw =
     (if py_strip raw = [] then TT_UNKNOWN
      else dget_or INTENT_TYPE_MAP (py_lower (py_strip raw)) TT_UNKNOWN)"

definition normalize_transaction_type :: "internal_candidate \<Rightarrow> transaction_type" where
  "normalize_transaction_type candidate =
     (case ic_transaction_type candidate of
        Some (TypeEnum t) \<Rightarrow> t
      | Some (TypeText s) \<Rightarrow> type_of_text s
      | None \<Rightarrow> (case ic_source_type candidate of None \<Rightarrow> TT_UNKNOWN | Some s \<Rightarrow> type_of_text s))"

definition check_direction_compatibility ::
  "amount_direction option \<Rightarrow> internal_candidate \<Rightarrow> compatibility_result \<times> reason_code \<times> transaction_type" where
  "check_direction_compatibility direction candidate =
     (let t = normalize_transaction_type candidate in
      case direction of
        None \<Rightarrow> (REVIEW_REQUIRED, RC_MISSING_DIRECTION, t)
      | Some d \<Rightarrow>
          if d = UNKNOWN \<or> d = INTEREST then (REVIEW_REQUIRED, RC_UNKNOWN_DIRECTION, t)
          else if t = TT_UNKNOWN then (REVIEW_REQUIRED, RC_UNKNOWN_TRANSACTION_TYPE, t)
          else if t \<in> set (compatible_types d) then (COMPATIBLE, RC_DIRECTION_TYPE_COMPATIBLE, t)
          else (INCOMPATIBLE, RC_DIRECTION_TYPE_INCOMPATIBLE, t))"

definition amount_is_zero :: "statement_transaction \<Rightarrow> bool" where
  "amount_is_zero statement = (case st_amount statement of None \<Rightarrow> False | Some d \<Rightarrow> dec_eq d ZERO)"

definition original_amount_sign :: "statement_transaction \<Rightarrow> original_sign" where
  "original_amount_sign statement =
     (if amount_is_zero statement then SIGN_ZERO
      else
        case st_raw_amount statement of
          None \<Rightarrow> SIGN_MISSING
        | Some raw \<Rightarrow>
            let token = py_strip raw in
            if token = [] then SIGN_MISSING
            else if hd token = CHR ''('' \<and> last token = CHR '')'' then SIGN_NEGATIVE
            else if hd token = CHR ''-'' then SIGN_NEGATIVE
            else SIGN_POSITIVE)"

definition present_blank :: "string option \<Rightarrow> bool" where
  "present_blank value = (case value of None \<Rightarrow> False | Some s \<Rightarrow> py_strip s = [])"

definition statement_precheck :: "statement_transaction \<Rightarrow> reason_code option" where
  "statement_precheck statement =
     (if list_ex present_blank
        [st_public_id statement, st_row_fingerprint statement, st_statement_row_reference statement]
      then Some RC_INVALID_SOURCE_IDENTITY
      else
        case st_amount_direction statement of
          None \<Rightarrow> Some RC_MISSING_DIRECTION
        | Some d \<Rightarrow>
            if d = UNKNOWN \<or> d = INTEREST then Some RC_UNKNOWN_DIRECTION
            else if amount_is_zero statement then Some RC_ZERO_AMOUNT_REQUIRES_REVIEW
            else
              let raw_type = py_lower (py_strip (case st_raw_amount_type statement of None \<Rightarrow> [] | Some s \<Rightarrow> s)) in
              if raw_type \<in> set [''credit'', ''cr'', ''inflow''] \<and> d \<in> set OUTGOING_DIRECTIONS
              then Some RC_AMOUNT_SIGN_CONTRADICTION
              else if raw_type \<in> set [''debit'', ''dr'', ''outflow''] \<and> d \<in> set INCOMING_DIRECTIONS
              then Some RC_AMOUNT_SIGN_CONTRADICTION
              else None)"


section \<open>Evaluating a candidate\<close>

definition float_text :: "py_float \<Rightarrow> string" where
  "float_text f =
     (case f of
        Float neg x \<Rightarrow> (if neg then ''-'' else []) @ float_repr x
      | FloatInfinity neg \<Rightarrow> (if neg then ''-'' else []) @ ''inf''
      | FloatNaN \<Rightarrow> ''nan'')"

text \<open>\<open>Decimal(str(x))\<close> of a finite float; of a similarity and of a threshold between 0 and 1.\<close>

definition decimal_of_float :: "py_float \<Rightarrow> dec result" where
  "decimal_of_float f =
     (case decimal_of_string (float_text f) of
        Some (Finite d) \<Rightarrow> Ok d
      | _ \<Rightarrow> raise InvalidOperation ''ConversionSyntax'')"

definition str_or :: "string option \<Rightarrow> string \<Rightarrow> string" where
  "str_or value other = (case value of None \<Rightarrow> other | Some s \<Rightarrow> if s = [] then other else s)"

definition statement_merchant :: "statement_transaction \<Rightarrow> string" where
  "statement_merchant statement = str_or (st_merchant_normalized statement) (normalize_merchant (st_merchant_raw statement))"

definition rejected_evaluation ::
  "internal_candidate \<Rightarrow> compatibility_result \<Rightarrow> reason_code \<Rightarrow> string list \<Rightarrow> date_match_result option \<Rightarrow>
   candidate_evaluation" where
  "rejected_evaluation candidate compatibility reason gates date_result =
     \<lparr>ce_candidate = candidate, ce_transaction_type = normalize_transaction_type candidate,
      ce_compatibility = compatibility, ce_compatibility_reason = reason, ce_hard_gate_results = gates,
      ce_date_result = date_result, ce_statement_merchant_normalized = None,
      ce_candidate_merchant_normalized = None, ce_merchant_similarity_score = None,
      ce_merchant_exact = False, ce_merchant_normalized_match = False, ce_eligible = False\<rparr>"

definition evaluate_merchant ::
  "statement_transaction \<Rightarrow> internal_candidate \<Rightarrow> py_float \<Rightarrow> compatibility_result \<Rightarrow> string list \<Rightarrow>
   date_match_result \<Rightarrow> candidate_evaluation result" where
  "evaluate_merchant statement candidate threshold compatibility gates date_result =
     (let statement_normalized = statement_merchant statement;
          candidate_normalized = normalize_merchant (ic_merchant candidate);
          exact = (py_lower (py_strip (st_merchant_raw statement)) = py_lower (py_strip (ic_merchant candidate)));
          normalized_match = (py_lower statement_normalized = py_lower candidate_normalized) in
      rbind (merchant_similarity statement_normalized candidate_normalized) (\<lambda>similarity.
      rbind (decimal_of_float (Float False similarity)) (\<lambda>score.
      rbind (if exact \<or> normalized_match then Ok True
             else rbind (decimal_of_float threshold) (\<lambda>t. Ok (dec_le t score))) (\<lambda>compatible.
      Ok \<lparr>ce_candidate = candidate, ce_transaction_type = normalize_transaction_type candidate,
          ce_compatibility = compatibility,
          ce_compatibility_reason = (if compatible then RC_DIRECTION_TYPE_COMPATIBLE else RC_WEAK_MERCHANT_MATCH),
          ce_hard_gate_results =
            gates @ [if compatible then ''merchant_compatible'' else reason_code_value RC_WEAK_MERCHANT_MATCH],
          ce_date_result = Some date_result, ce_statement_merchant_normalized = Some statement_normalized,
          ce_candidate_merchant_normalized = Some candidate_normalized,
          ce_merchant_similarity_score = Some score, ce_merchant_exact = exact,
          ce_merchant_normalized_match = normalized_match, ce_eligible = compatible\<rparr>))))"

definition evaluate_candidate ::
  "statement_transaction \<Rightarrow> internal_candidate \<Rightarrow> int \<Rightarrow> int \<Rightarrow> py_float \<Rightarrow> candidate_evaluation result" where
  "evaluate_candidate statement candidate date_tolerance_days posted_date_window_days threshold =
     (let gates = [''source_identity_valid''] in
      if \<not> currency_match (st_currency statement) (Some (ic_currency candidate)) then
        Ok (rejected_evaluation candidate INCOMPATIBLE RC_CURRENCY_DIFFERS (gates @ [''currency_incompatible'']) None)
      else
        let gates = gates @ [''currency_compatible''] in
        case check_direction_compatibility (st_amount_direction statement) candidate of (compatibility, reason, t) \<Rightarrow>
        if compatibility \<noteq> COMPATIBLE then
          Ok (rejected_evaluation candidate compatibility reason (gates @ [reason_code_value reason]) None)
        else
          let gates = gates @ [reason_code_value RC_DIRECTION_TYPE_COMPATIBLE] in
          if (case st_amount statement of None \<Rightarrow> True | Some a \<Rightarrow> \<not> amount_exact_match a (ic_amount candidate)) then
            Ok (rejected_evaluation candidate compatibility RC_AMOUNT_DIFFERS
              (gates @ [reason_code_value RC_AMOUNT_DIFFERS]) None)
          else
            let gates = gates @ [reason_code_value RC_EXACT_AMOUNT_MATCH];
                date_result = match_date_window (ic_transaction_date candidate) (st_transaction_date statement)
                  (st_posted_date statement) date_tolerance_days posted_date_window_days in
            if \<not> dm_matched date_result then
              Ok (rejected_evaluation candidate compatibility RC_OUTSIDE_DATE_TOLERANCE
                (gates @ [reason_code_value RC_OUTSIDE_DATE_TOLERANCE]) (Some date_result))
            else
              evaluate_merchant statement candidate threshold compatibility
                (gates @ [''date_compatible:'' @ dm_matched_on date_result]) date_result)"


section \<open>The decision record\<close>

definition decimal_text :: "dec option \<Rightarrow> string option result" where
  "decimal_text value =
     (case value of None \<Rightarrow> Ok None | Some d \<Rightarrow> rbind (canonical_decimal_str (Finite d)) (\<lambda>s. Ok (Some s)))"

definition direction_text :: "amount_direction option \<Rightarrow> string option" where
  "direction_text value = map_option direction_value value"

definition date_text :: "date option \<Rightarrow> string option" where
  "date_text value = map_option date_isoformat value"

definition text_fingerprint :: "stdlib \<Rightarrow> string \<Rightarrow> string" where
  "text_fingerprint lib value = hexdigest (sha256 lib (encode value))"

definition decision_domain_hash :: "stdlib \<Rightarrow> string \<Rightarrow> string \<Rightarrow> string" where
  "decision_domain_hash lib domain payload_text = domain_hash lib domain (encode payload_text)"

definition optional_int :: "int option \<Rightarrow> py_object" where
  "optional_int value = (case value of None \<Rightarrow> ONone | Some n \<Rightarrow> OInt n)"

definition derive_statement_identity :: "stdlib \<Rightarrow> statement_transaction \<Rightarrow> string result" where
  "derive_statement_identity lib statement =
     (case List.find (\<lambda>v. \<not> present_blank v \<and> v \<noteq> None)
        [st_public_id statement, st_row_fingerprint statement, st_statement_row_reference statement] of
        Some (Some value) \<Rightarrow> Ok (py_strip value)
      | _ \<Rightarrow>
          rbind (decimal_text (st_amount statement)) (\<lambda>amount.
          rbind (canonical_json_text (mapping_of
            [(''contract_version'', OStr STATEMENT_ID_DOMAIN),
             (''source_batch_id'', optional_str (st_source_batch_id statement)),
             (''transaction_date'', optional_str (date_text (st_transaction_date statement))),
             (''posted_date'', optional_str (date_text (st_posted_date statement))),
             (''merchant_fingerprint'', OStr (text_fingerprint lib (st_merchant_raw statement))),
             (''amount'', optional_str amount),
             (''currency'', optional_str (st_currency statement)),
             (''direction'', optional_str (direction_text (st_amount_direction statement))),
             (''raw_amount'', optional_str (st_raw_amount statement))])) (\<lambda>material.
          Ok (decision_domain_hash lib STATEMENT_ID_DOMAIN material))))"

definition candidate_material :: "stdlib \<Rightarrow> candidate_evaluation \<Rightarrow> (string \<times> py_object) list result" where
  "candidate_material lib evaluation =
     (let candidate = ce_candidate evaluation in
      rbind (canonical_decimal_str (Finite (ic_amount candidate))) (\<lambda>amount.
      rbind (decimal_text (ce_merchant_similarity_score evaluation)) (\<lambda>score.
      Ok [(''candidate_public_id'', OStr (ic_internal_id candidate)),
          (''transaction_type'', OStr (transaction_type_value (ce_transaction_type evaluation))),
          (''transaction_date'', OStr (date_isoformat (ic_transaction_date candidate))),
          (''posted_date'', optional_str (date_text (ic_posted_date candidate))),
          (''amount'', OStr amount),
          (''currency'', OStr (ic_currency candidate)),
          (''merchant_fingerprint'', OStr (text_fingerprint lib (ic_merchant candidate))),
          (''merchant_normalized'', optional_str (ce_candidate_merchant_normalized evaluation)),
          (''merchant_similarity_score'', optional_str score),
          (''date_delta_days'', optional_int (Option.bind (ce_date_result evaluation) dm_day_delta)),
          (''comparison_date_source'', optional_str (map_option dm_matched_on (ce_date_result evaluation))),
          (''hard_gate_results'', OList (map OStr (ce_hard_gate_results evaluation))),
          (''compatibility_result'', OStr (compatibility_value (ce_compatibility evaluation))),
          (''compatibility_reason'', OStr (reason_code_value (ce_compatibility_reason evaluation))),
          (''eligible'', OBool (ce_eligible evaluation)),
          (''evidence_reference'', optional_str (ic_evidence_reference candidate))])))"

text \<open>The parameters of a matching run that enter the record.\<close>

record matcher_parameters =
  mp_date_tolerance_days :: int
  mp_posted_date_window_days :: int
  mp_merchant_similarity_threshold :: py_float
  mp_matcher_version :: string
  mp_compatibility_version :: string
  mp_merchant_normalization_version :: string
  mp_authorization_public_id :: "string option"

definition statement_material :: "stdlib \<Rightarrow> statement_transaction \<Rightarrow> (string \<times> py_object) list result" where
  "statement_material lib statement =
     rbind (derive_statement_identity lib statement) (\<lambda>identity.
     rbind (decimal_text (st_amount statement)) (\<lambda>amount.
     Ok [(''derived_identity'', OStr identity),
         (''public_id'', optional_str (st_public_id statement)),
         (''row_fingerprint'', optional_str (st_row_fingerprint statement)),
         (''source_content_hash'', optional_str (st_source_content_hash statement)),
         (''source_batch_id'', optional_str (st_source_batch_id statement)),
         (''row_reference'', optional_str (st_statement_row_reference statement)),
         (''original_amount_text'', optional_str (st_raw_amount statement)),
         (''original_amount_type'', optional_str (st_raw_amount_type statement)),
         (''original_amount_sign'', OStr (original_sign_value (original_amount_sign statement))),
         (''normalized_amount'', optional_str amount),
         (''currency'', optional_str (st_currency statement)),
         (''direction'', optional_str (direction_text (st_amount_direction statement))),
         (''transaction_date'', optional_str (date_text (st_transaction_date statement))),
         (''posted_date'', optional_str (date_text (st_posted_date statement))),
         (''merchant_fingerprint'', OStr (text_fingerprint lib (st_merchant_raw statement))),
         (''merchant_normalized'', OStr (statement_merchant statement))]))"

text \<open>The materials of the candidates, sorted by the candidates' public ids.\<close>

definition sorted_candidate_material :: "stdlib \<Rightarrow> candidate_evaluation list \<Rightarrow> py_object list result" where
  "sorted_candidate_material lib evaluations =
     rbind (mapM (\<lambda>e. rbind (candidate_material lib e) (\<lambda>m. Ok (ic_internal_id (ce_candidate e), mapping_of m)))
       evaluations) (\<lambda>ms. Ok (map snd (sort_key fst ms)))"

definition decision_material ::
  "matcher_parameters \<Rightarrow> (string \<times> py_object) list \<Rightarrow> string \<Rightarrow> py_object list \<Rightarrow> match_result \<Rightarrow> py_object" where
  "decision_material params statement fingerprint candidates r =
     mapping_of
       [(''decision_contract_version'', OStr DECISION_CONTRACT_VERSION),
        (''matcher_version'', OStr (mp_matcher_version params)),
        (''compatibility_version'', OStr (mp_compatibility_version params)),
        (''merchant_normalization_version'', OStr (mp_merchant_normalization_version params)),
        (''statement'', mapping_of statement),
        (''thresholds'', mapping_of
          [(''date_tolerance_days'', OInt (mp_date_tolerance_days params)),
           (''posted_date_window_days'', OInt (mp_posted_date_window_days params)),
           (''merchant_similarity_threshold'', OStr (float_text (mp_merchant_similarity_threshold params)))]),
        (''candidate_set_fingerprint'', OStr fingerprint),
        (''candidates'', OList candidates),
        (''final_decision'', mapping_of
          [(''status'', OStr (match_status_value (mr_status r))),
           (''reason_codes'', OList (map (\<lambda>c. OStr (reason_code_value c)) (mr_reasons r))),
           (''best_candidate_public_id'', optional_str (map_option ic_internal_id (mr_best_candidate r))),
           (''authorization_public_id'', optional_str (mp_authorization_public_id params))])]"

definition candidate_set_material :: "py_object list \<Rightarrow> py_object" where
  "candidate_set_material candidates =
     mapping_of [(''candidate_set_version'', OStr CANDIDATE_SET_VERSION), (''candidates'', OList candidates)]"

definition build_decision_record ::
  "stdlib \<Rightarrow> matcher_parameters \<Rightarrow> statement_transaction \<Rightarrow> match_result \<Rightarrow> candidate_evaluation list \<Rightarrow>
   decision_record result" where
  "build_decision_record lib params statement r evaluations =
     rbind (sorted_candidate_material lib evaluations) (\<lambda>candidates.
     rbind (canonical_json_text (candidate_set_material candidates)) (\<lambda>candidate_set_json.
     let fingerprint = decision_domain_hash lib CANDIDATE_HASH_DOMAIN candidate_set_json in
     rbind (statement_material lib statement) (\<lambda>statement_items.
     rbind (canonical_json_text (decision_material params statement_items fingerprint candidates r)) (\<lambda>material_json.
     Ok \<lparr>dr_decision_hash = decision_domain_hash lib DECISION_HASH_DOMAIN material_json,
         dr_decision_material_json = material_json,
         dr_candidate_set_fingerprint = fingerprint\<rparr>))))"

text \<open>
  The check of a stored decision: its text is the canonical text of the value it carries, and its
  hash is the digest of the text.
\<close>

definition verify_persisted_decision_hash :: "stdlib \<Rightarrow> string \<Rightarrow> string \<Rightarrow> bool" where
  "verify_persisted_decision_hash lib decision_hash material_json \<longleftrightarrow>
     is_sha256 decision_hash \<and>
     (case loads material_json of
        Some (JObj kvs) \<Rightarrow>
          set (dkeys kvs) = {''contract_version'', ''value''} \<and>
          dget kvs ''contract_version'' = Some (JStr ''finance-canonical-json-v1'') \<and>
          (case dget kvs ''value'' of
             None \<Rightarrow> False
           | Some v \<Rightarrow>
               (case canonical_json_text (json_object v) of
                  Inl _ \<Rightarrow> False
                | Inr canonical \<Rightarrow>
                    canonical = material_json \<and>
                    decision_domain_hash lib DECISION_HASH_DOMAIN canonical = decision_hash))
      | _ \<Rightarrow> False)"

end
