(* ===== verification/Recon_Matcher.thy ===== *)
theory Recon_Matcher
  imports Recon_Decision "HOL-Library.Product_Lexorder"
begin

text \<open>
  The deterministic matcher, \<open>finance_core/reconciliation/matcher.py\<close>: one statement transaction is
  matched against a pool of internal candidates. The candidates are narrowed gate by gate; the
  statement is matched only when exactly one candidate passes them all. The decision is recorded in
  the result with its digest.
\<close>

section \<open>Evidence\<close>

definition baseline_evidence :: "statement_transaction \<Rightarrow> internal_candidate list \<Rightarrow> match_evidence" where
  "baseline_evidence statement candidates =
     default_evidence\<lparr>ev_statement_amount := st_amount statement,
       ev_statement_currency := st_currency statement,
       ev_statement_txn_date := st_transaction_date statement,
       ev_statement_posted_date := st_posted_date statement,
       ev_statement_merchant := Some (st_merchant_raw statement),
       ev_statement_merchant_normalized := Some (statement_merchant statement),
       ev_candidate_count := int (length candidates),
       ev_statement_direction := direction_text (st_amount_direction statement),
       ev_original_amount_text := st_raw_amount statement,
       ev_original_amount_sign := Some (original_sign_value (original_amount_sign statement))\<rparr>"

text \<open>\<open>float(d)\<close> of a non-negative decimal.\<close>

definition float_of_decimal :: "dec \<Rightarrow> py_float" where
  "float_of_decimal d = (case to_float (dval d) of Some x \<Rightarrow> Float False x | None \<Rightarrow> FloatInfinity False)"

definition evaluation_evidence :: "statement_transaction \<Rightarrow> candidate_evaluation \<Rightarrow> int \<Rightarrow> match_evidence" where
  "evaluation_evidence statement evaluation date_tolerance_days =
     (let candidate = ce_candidate evaluation in
      \<lparr>ev_statement_amount = st_amount statement, ev_candidate_amount = Some (ic_amount candidate),
       ev_statement_currency = st_currency statement, ev_candidate_currency = Some (ic_currency candidate),
       ev_statement_txn_date = st_transaction_date statement,
       ev_statement_posted_date = st_posted_date statement,
       ev_candidate_txn_date = Some (ic_transaction_date candidate),
       ev_date_delta_days = Option.bind (ce_date_result evaluation) dm_day_delta,
       ev_date_tolerance_days = date_tolerance_days,
       ev_statement_merchant = Some (st_merchant_raw statement),
       ev_candidate_merchant = Some (ic_merchant candidate),
       ev_statement_merchant_normalized = ce_statement_merchant_normalized evaluation,
       ev_candidate_merchant_normalized = ce_candidate_merchant_normalized evaluation,
       ev_merchant_similarity = map_option float_of_decimal (ce_merchant_similarity_score evaluation),
       ev_candidate_count = 1,
       ev_statement_direction = direction_text (st_amount_direction statement),
       ev_candidate_transaction_type = Some (transaction_type_value (ce_transaction_type evaluation)),
       ev_original_amount_text = st_raw_amount statement,
       ev_original_amount_sign = Some (original_sign_value (original_amount_sign statement)),
       ev_compatibility_result = Some (compatibility_value (ce_compatibility evaluation)),
       ev_hard_gate_results = ce_hard_gate_results evaluation\<rparr>)"


section \<open>Narrowing the candidates\<close>

definition candidates_are_duplicates :: "internal_candidate \<Rightarrow> internal_candidate \<Rightarrow> bool" where
  "candidates_are_duplicates a b \<longleftrightarrow>
     dec_eq (ic_amount a) (ic_amount b) \<and> ic_currency a = ic_currency b \<and>
     ic_transaction_date a = ic_transaction_date b \<and>
     normalize_merchant (ic_merchant a) = normalize_merchant (ic_merchant b)"

definition currency_passed :: "candidate_evaluation \<Rightarrow> bool" where
  "currency_passed e \<longleftrightarrow> ''currency_compatible'' \<in> set (ce_hard_gate_results e)"

definition direction_passed :: "candidate_evaluation \<Rightarrow> bool" where
  "direction_passed e \<longleftrightarrow> ce_compatibility e = COMPATIBLE"

definition amount_passed :: "candidate_evaluation \<Rightarrow> bool" where
  "amount_passed e \<longleftrightarrow> reason_code_value RC_EXACT_AMOUNT_MATCH \<in> set (ce_hard_gate_results e)"

definition date_passed :: "candidate_evaluation \<Rightarrow> bool" where
  "date_passed e = (case ce_date_result e of None \<Rightarrow> False | Some r \<Rightarrow> dm_matched r)"

text \<open>The reasons of a match, from the date and the merchant comparison that admitted it.\<close>

definition matched_reasons :: "date_match_result \<Rightarrow> candidate_evaluation \<Rightarrow> reason_code list" where
  "matched_reasons date_result evaluation =
     [RC_SAME_CURRENCY, RC_DIRECTION_TYPE_COMPATIBLE, RC_EXACT_AMOUNT_MATCH] @
     (if dm_matched_on date_result = ''transaction_date'' then [RC_TRANSACTION_DATE_WITHIN_TOLERANCE]
      else if dm_matched_on date_result = ''posted_date'' then [RC_POSTED_DATE_WITHIN_TOLERANCE]
      else if dm_matched_on date_result = ''posted_date_window'' then [RC_POSTED_DATE_WINDOW_MATCH]
      else []) @
     [if ce_merchant_exact evaluation then RC_MERCHANT_EXACT_MATCH
      else if ce_merchant_normalized_match evaluation then RC_MERCHANT_NORMALIZED_MATCH
      else RC_MERCHANT_SIMILARITY_MATCH]"

text \<open>\<open>scored.sort\<close>: by the negated score, then by the candidate's id.\<close>

definition sort_scored :: "dcontext \<Rightarrow> candidate_evaluation list \<Rightarrow> candidate_evaluation list result" where
  "sort_scored ctx scored =
     rbind (mapM (\<lambda>e. rbind (dec_neg ctx (case ce_merchant_similarity_score e of None \<Rightarrow> ZERO | Some d \<Rightarrow> d)) (\<lambda>n.
       Ok ((dval n, ic_internal_id (ce_candidate e)), e))) scored) (\<lambda>keyed.
     Ok (map snd (sort_key fst keyed)))"

definition result_from_scored ::
  "statement_transaction \<Rightarrow> candidate_evaluation list \<Rightarrow> int \<Rightarrow> match_result result" where
  "result_from_scored statement scored date_tolerance_days =
     (case scored of
        first # second # rest \<Rightarrow>
          Ok (make_result
            (if candidates_are_duplicates (ce_candidate first) (ce_candidate second)
             then MS_POSSIBLE_DUPLICATE else MS_AMBIGUOUS)
            [RC_MULTIPLE_CANDIDATE_MATCHES] (evaluation_evidence statement first date_tolerance_days) statement
            None (map ce_candidate scored))
      | [evaluation] \<Rightarrow>
          (case ce_date_result evaluation of
             None \<Rightarrow> raise AssertionError []
           | Some date_result \<Rightarrow>
               Ok (make_result MS_MATCHED (matched_reasons date_result evaluation)
                 (evaluation_evidence statement evaluation date_tolerance_days) statement
                 (Some (ce_candidate evaluation)) [ce_candidate evaluation]))
      | [] \<Rightarrow> raise IndexError ''list index out of range'')"

definition result_from_evaluations ::
  "dcontext \<Rightarrow> statement_transaction \<Rightarrow> candidate_evaluation list \<Rightarrow> int \<Rightarrow> match_result result" where
  "result_from_evaluations ctx statement evaluations date_tolerance_days =
     (let currency_matched = filter currency_passed evaluations;
          direction_matched = filter direction_passed currency_matched;
          amount_matched = filter amount_passed direction_matched;
          date_matched = filter date_passed amount_matched;
          scored = filter ce_eligible date_matched in
      if currency_matched = [] then
        Ok (make_result MS_CURRENCY_MISMATCH [RC_CURRENCY_DIFFERS]
          (baseline_evidence statement (map ce_candidate evaluations)) statement None
          (map ce_candidate evaluations))
      else if direction_matched = [] then
        let review = (case List.find (\<lambda>e. ce_compatibility e = REVIEW_REQUIRED) currency_matched of
                        Some e \<Rightarrow> e | None \<Rightarrow> hd currency_matched) in
        Ok (make_result MS_NEEDS_REVIEW [ce_compatibility_reason review]
          (evaluation_evidence statement review date_tolerance_days) statement None
          (map ce_candidate currency_matched))
      else if amount_matched = [] then
        Ok (make_result MS_AMOUNT_MISMATCH [RC_AMOUNT_DIFFERS]
          (evaluation_evidence statement (hd direction_matched) date_tolerance_days) statement None
          (map ce_candidate direction_matched))
      else if date_matched = [] then
        Ok (make_result MS_DATE_MISMATCH [RC_OUTSIDE_DATE_TOLERANCE]
          (evaluation_evidence statement (hd amount_matched) date_tolerance_days) statement None
          (map ce_candidate amount_matched))
      else if scored = [] then
        Ok (make_result MS_MERCHANT_MISMATCH [RC_WEAK_MERCHANT_MATCH]
          (evaluation_evidence statement (hd date_matched) date_tolerance_days) statement None
          (map ce_candidate date_matched))
      else
        rbind (sort_scored ctx scored) (\<lambda>sorted. result_from_scored statement sorted date_tolerance_days))"


section \<open>Matching a statement\<close>

definition attach_decision_hash ::
  "stdlib \<Rightarrow> matcher_parameters \<Rightarrow> match_result \<Rightarrow> statement_transaction \<Rightarrow> candidate_evaluation list \<Rightarrow>
   match_result result" where
  "attach_decision_hash lib params r statement evaluations =
     rbind (build_decision_record lib params statement r evaluations) (\<lambda>record.
     Ok (r\<lparr>mr_decision_hash := Some (dr_decision_hash record),
           mr_decision_material_json := Some (dr_decision_material_json record),
           mr_candidate_set_fingerprint := Some (dr_candidate_set_fingerprint record),
           mr_decision_contract_version := Some ''reconciliation-decision-v1'',
           mr_matcher_version := Some (mp_matcher_version params),
           mr_compatibility_version := Some (mp_compatibility_version params),
           mr_merchant_normalization_version := Some (mp_merchant_normalization_version params),
           mr_authorization_public_id := mp_authorization_public_id params\<rparr>))"

definition unit_interval :: "py_float \<Rightarrow> bool" where
  "unit_interval f = (case f of Float neg x \<Rightarrow> if neg then x = 0 else 0 \<le> x \<and> x \<le> 1 | _ \<Rightarrow> False)"

definition validate_matcher_parameters :: "matcher_parameters \<Rightarrow> unit result" where
  "validate_matcher_parameters params =
     (if mp_date_tolerance_days params < 0 \<or> mp_posted_date_window_days params < 0
      then raise ValueError ''Date tolerance values must be non-negative''
      else if \<not> unit_interval (mp_merchant_similarity_threshold params)
      then raise ValueError ''merchant_similarity_threshold must be between 0 and 1''
      else Ok ())"

definition evaluate_with ::
  "matcher_parameters \<Rightarrow> statement_transaction \<Rightarrow> internal_candidate \<Rightarrow> candidate_evaluation result" where
  "evaluate_with params statement candidate =
     evaluate_candidate statement candidate (mp_date_tolerance_days params) (mp_posted_date_window_days params)
       (mp_merchant_similarity_threshold params)"

definition decide ::
  "dcontext \<Rightarrow> matcher_parameters \<Rightarrow> statement_transaction \<Rightarrow> internal_candidate list \<Rightarrow>
   candidate_evaluation list \<Rightarrow> match_result result" where
  "decide ctx params statement candidates evaluations =
     (case statement_precheck statement of
        Some reason \<Rightarrow>
          Ok (make_result MS_NEEDS_REVIEW [reason] (baseline_evidence statement candidates) statement None candidates)
      | None \<Rightarrow>
          if st_transaction_date statement = None \<and> st_posted_date statement = None then
            Ok (make_result MS_NEEDS_REVIEW [RC_MISSING_STATEMENT_DATE] (baseline_evidence statement candidates)
              statement None candidates)
          else if candidates = [] then
            Ok (make_result MS_NO_MATCH [RC_NO_CANDIDATE_FOUND] (baseline_evidence statement candidates)
              statement None [])
          else result_from_evaluations ctx statement evaluations (mp_date_tolerance_days params))"

definition match_statement ::
  "stdlib \<Rightarrow> dcontext \<Rightarrow> matcher_parameters \<Rightarrow> statement_transaction \<Rightarrow> internal_candidate list \<Rightarrow>
   match_result result" where
  "match_statement lib ctx params statement candidates =
     rbind (validate_matcher_parameters params) (\<lambda>_.
     rbind (ensure (distinct (map ic_internal_id candidates)) ValueError ''Candidate identities must be unique'') (\<lambda>_.
     rbind (mapM (evaluate_with params statement) candidates) (\<lambda>evaluations.
     rbind (decide ctx params statement candidates evaluations) (\<lambda>r.
     attach_decision_hash lib params r statement evaluations))))"

text \<open>The keyword arguments' default values.\<close>

definition default_parameters :: matcher_parameters where
  "default_parameters =
     \<lparr>mp_date_tolerance_days = 3, mp_posted_date_window_days = 3,
      mp_merchant_similarity_threshold = Float False (1 / 2), mp_matcher_version = MATCHER_VERSION,
      mp_compatibility_version = COMPATIBILITY_VERSION,
      mp_merchant_normalization_version = MERCHANT_NORMALIZATION_VERSION, mp_authorization_public_id = None\<rparr>"

end
