(* ===== verification/Recon_Matching.thy ===== *)
theory Recon_Matching
  imports Recon_Matcher
begin

text \<open>
  Batch matching, \<open>finance_core/reconciliation/matching.py\<close>: every statement of a batch is matched
  against the app transactions, classified with an issue type and a confidence score; app
  transactions claimed by two statements are flagged, and those no statement refers to are reported
  as missing. The models \<open>AppTransaction\<close> and \<open>ReconciliationCandidate\<close> of \<open>models.py\<close> are here.
\<close>

section \<open>Models\<close>

record app_transaction =
  at_app_txn_id :: string
  at_transaction_date :: date
  at_merchant :: string
  at_amount :: py_decimal
  at_currency :: string
  at_source_type :: "string option"
  at_source_channel :: "string option"
  at_normalized_merchant :: "string option"
  at_posted_date :: "date option"
  at_transaction_type :: "type_argument option"

text \<open>\<open>str(d)\<close>; the payload of a NaN is left out.\<close>

definition py_decimal_str :: "py_decimal \<Rightarrow> string" where
  "py_decimal_str x =
     (case x of
        Finite d \<Rightarrow> dec_str d
      | Infinite neg \<Rightarrow> (if neg then ''-'' else []) @ ''Infinity''
      | QNaN neg \<Rightarrow> (if neg then ''-'' else []) @ ''NaN''
      | SNaN neg \<Rightarrow> (if neg then ''-'' else []) @ ''sNaN'')"

definition make_app_transaction :: "app_transaction \<Rightarrow> app_transaction result" where
  "make_app_transaction a =
     rbind (py_less_eq (at_amount a) ZERO) (\<lambda>not_positive.
     if not_positive then raise ValueError (''AppTransaction amount must be positive, got '' @ py_decimal_str (at_amount a))
     else Ok a)"

record reconciliation_candidate =
  rc_statement :: statement_transaction
  rc_best_app_transaction :: "app_transaction option"
  rc_all_app_transactions :: "app_transaction list"
  rc_match_status :: match_status
  rc_reason_codes :: "reason_code list"
  rc_issue_type :: issue_type
  rc_confidence_score :: dec
  rc_evidence :: "match_evidence option"
  rc_candidate_id :: string
  rc_review_priority :: review_priority
  rc_is_review_required :: bool

definition candidate_is_matched :: "reconciliation_candidate \<Rightarrow> bool" where
  "candidate_is_matched c \<longleftrightarrow> rc_match_status c = MS_MATCHED"

definition candidate_needs_review :: "reconciliation_candidate \<Rightarrow> bool" where
  "candidate_needs_review c \<longleftrightarrow> rc_issue_type c \<noteq> IT_MATCHED"


section \<open>Classification\<close>

fun status_to_issue_type :: "match_status \<Rightarrow> issue_type" where
  "status_to_issue_type MS_MATCHED = IT_MATCHED"
| "status_to_issue_type MS_NO_MATCH = IT_MISSING_IN_APP"
| "status_to_issue_type MS_AMOUNT_MISMATCH = IT_AMOUNT_MISMATCH"
| "status_to_issue_type MS_CURRENCY_MISMATCH = IT_CURRENCY_MISMATCH"
| "status_to_issue_type MS_DATE_MISMATCH = IT_DATE_MISMATCH"
| "status_to_issue_type MS_MERCHANT_MISMATCH = IT_MERCHANT_MISMATCH"
| "status_to_issue_type MS_POSSIBLE_DUPLICATE = IT_POSSIBLE_DUPLICATE"
| "status_to_issue_type MS_AMBIGUOUS = IT_NEEDS_REVIEW"
| "status_to_issue_type MS_NEEDS_REVIEW = IT_NEEDS_REVIEW"

text \<open>The mapping of the statuses other than \<open>MATCHED\<close> is the one of \<open>status_to_issue_type\<close>.\<close>

definition result_to_issue_type :: "match_result \<Rightarrow> issue_type" where
  "result_to_issue_type r =
     (if mr_status r \<noteq> MS_MATCHED then status_to_issue_type (mr_status r)
      else
        let reasons = set (mr_reasons r);
            has_date_window = RC_POSTED_DATE_WINDOW_MATCH \<in> reasons;
            has_exact_date = (RC_TRANSACTION_DATE_WITHIN_TOLERANCE \<in> reasons \<or>
                              RC_POSTED_DATE_WITHIN_TOLERANCE \<in> reasons);
            has_exact_merchant = RC_MERCHANT_EXACT_MATCH \<in> reasons;
            has_norm_merchant = RC_MERCHANT_NORMALIZED_MATCH \<in> reasons;
            has_sim_merchant = RC_MERCHANT_SIMILARITY_MATCH \<in> reasons in
        if has_date_window \<and> \<not> has_exact_date then
          if has_sim_merchant then IT_MERCHANT_VARIATION else IT_DATE_WINDOW_MATCH
        else if has_sim_merchant then IT_MERCHANT_VARIATION
        else if has_norm_merchant \<and> \<not> has_exact_merchant then
          if has_exact_date then IT_MATCHED
          else if has_date_window then IT_MERCHANT_VARIATION
          else IT_MATCHED
        else IT_MATCHED)"

text \<open>\<open>Decimal("0.n")\<close>, and 1.0 for ten tenths.\<close>

definition tenths :: "nat \<Rightarrow> dec" where
  "tenths n = Dec False n (- 1)"

definition compute_confidence :: "dcontext \<Rightarrow> match_result \<Rightarrow> dec result" where
  "compute_confidence ctx r =
     (if mr_status r = MS_MATCHED then
        let reasons = set (mr_reasons r);
            base = (if RC_MERCHANT_EXACT_MATCH \<in> reasons then tenths 10
                    else if RC_MERCHANT_NORMALIZED_MATCH \<in> reasons then tenths 8
                    else if RC_MERCHANT_SIMILARITY_MATCH \<in> reasons then tenths 6
                    else tenths 7) in
        rbind (if RC_POSTED_DATE_WINDOW_MATCH \<in> reasons then dec_sub ctx base (tenths 1) else Ok base) (\<lambda>base.
        Ok (if dec_lt base (tenths 5) then tenths 5 else base))
      else if mr_status r = MS_AMBIGUOUS then Ok (tenths 3)
      else if mr_status r = MS_POSSIBLE_DUPLICATE then Ok (tenths 4)
      else Ok (tenths 0))"


section \<open>The batch\<close>

definition app_to_internal :: "app_transaction list \<Rightarrow> internal_candidate list result" where
  "app_to_internal app_txns =
     mapM (\<lambda>a. make_candidate
       \<lparr>ic_internal_id = at_app_txn_id a, ic_transaction_date = at_transaction_date a,
        ic_merchant = at_merchant a, ic_amount = PyDec (at_amount a), ic_currency = at_currency a,
        ic_source_type = at_source_type a, ic_source_channel = at_source_channel a,
        ic_attachment_path = None, ic_evidence_reference = None,
        ic_transaction_type = at_transaction_type a, ic_posted_date = None\<rparr>) app_txns"

definition app_by_id :: "app_transaction list \<Rightarrow> string \<Rightarrow> app_transaction option" where
  "app_by_id app_txns i = List.find (\<lambda>a. at_app_txn_id a = i) app_txns"

definition best_app_of :: "app_transaction list \<Rightarrow> match_result \<Rightarrow> app_transaction option" where
  "best_app_of app_txns r =
     (case mr_best_candidate r of
        Some c \<Rightarrow> app_by_id app_txns (ic_internal_id c)
      | None \<Rightarrow> (case mr_candidates r of c # cs \<Rightarrow> app_by_id app_txns (ic_internal_id c) | [] \<Rightarrow> None))"

definition all_apps_of :: "app_transaction list \<Rightarrow> match_result \<Rightarrow> app_transaction list" where
  "all_apps_of app_txns r = List.map_filter (\<lambda>c. app_by_id app_txns (ic_internal_id c)) (mr_candidates r)"

definition statement_candidate ::
  "stdlib \<Rightarrow> dcontext \<Rightarrow> matcher_parameters \<Rightarrow> app_transaction list \<Rightarrow> internal_candidate list \<Rightarrow>
   nat \<times> statement_transaction \<Rightarrow> reconciliation_candidate result" where
  "statement_candidate lib ctx params app_txns internal = (\<lambda>(i, statement).
     rbind (match_statement lib ctx params statement internal) (\<lambda>r.
     rbind (compute_confidence ctx r) (\<lambda>confidence.
     Ok \<lparr>rc_statement = statement, rc_best_app_transaction = best_app_of app_txns r,
         rc_all_app_transactions = all_apps_of app_txns r, rc_match_status = mr_status r,
         rc_reason_codes = mr_reasons r, rc_issue_type = result_to_issue_type r,
         rc_confidence_score = confidence, rc_evidence = Some (mr_evidence r),
         rc_candidate_id = ''cand-'' @ zero_padded 3 i @ ''-'' @
           str_or (st_statement_row_reference statement) (st_merchant_raw statement),
         rc_review_priority = LOW, rc_is_review_required = True\<rparr>)))"

text \<open>The ids the loop collects in \<open>referenced_app_ids\<close>.\<close>

definition referenced_ids :: "reconciliation_candidate list \<Rightarrow> string list" where
  "referenced_ids cs =
     concat (map (\<lambda>c. map at_app_txn_id
       ((case rc_best_app_transaction c of None \<Rightarrow> [] | Some a \<Rightarrow> [a]) @ rc_all_app_transactions c)) cs)"

definition matched_app :: "reconciliation_candidate \<Rightarrow> string option" where
  "matched_app c =
     (if rc_match_status c = MS_MATCHED then map_option at_app_txn_id (rc_best_app_transaction c) else None)"

definition matched_app_counts :: "reconciliation_candidate list \<Rightarrow> (string, nat) dict" where
  "matched_app_counts cs =
     foldl (\<lambda>counts c. case matched_app c of
         None \<Rightarrow> counts | Some i \<Rightarrow> dset counts i (dget_or counts i 0 + 1)) [] cs"

definition downgrade :: "reconciliation_candidate \<Rightarrow> reconciliation_candidate" where
  "downgrade c =
     \<lparr>rc_statement = rc_statement c, rc_best_app_transaction = rc_best_app_transaction c,
      rc_all_app_transactions = rc_all_app_transactions c, rc_match_status = MS_POSSIBLE_DUPLICATE,
      rc_reason_codes =
        (if RC_MULTIPLE_CANDIDATE_MATCHES \<notin> set (rc_reason_codes c)
         then rc_reason_codes c @ [RC_MULTIPLE_CANDIDATE_MATCHES] else rc_reason_codes c),
      rc_issue_type = IT_POSSIBLE_DUPLICATE, rc_confidence_score = tenths 4, rc_evidence = rc_evidence c,
      rc_candidate_id = rc_candidate_id c, rc_review_priority = LOW, rc_is_review_required = True\<rparr>"

definition flag_reused_matched_app_transactions ::
  "reconciliation_candidate list \<Rightarrow> reconciliation_candidate list" where
  "flag_reused_matched_app_transactions cs =
     (let reused = map fst (filter (\<lambda>(i, n). 1 < n) (matched_app_counts cs)) in
      if reused = [] then cs
      else map (\<lambda>c. case matched_app c of
          Some i \<Rightarrow> if i \<in> set reused then downgrade c else c | None \<Rightarrow> c) cs)"

definition missing_in_statement :: "app_transaction \<Rightarrow> reconciliation_candidate result" where
  "missing_in_statement a =
     rbind (make_statement
       \<lparr>st_transaction_date = Some (at_transaction_date a), st_posted_date = at_posted_date a,
        st_merchant_raw = at_merchant a, st_merchant_normalized = at_normalized_merchant a,
        st_amount = PyDec (at_amount a), st_currency = Some (at_currency a), st_account_name = None,
        st_account_id = None, st_source_batch_id = None, st_statement_row_reference = None,
        st_public_id = None, st_row_fingerprint = None, st_source_content_hash = None,
        st_amount_direction = DirectionText (direction_value UNKNOWN),
        st_raw_amount = Some (py_decimal_str (at_amount a)), st_raw_amount_type = None\<rparr>) (\<lambda>statement.
     Ok \<lparr>rc_statement = statement, rc_best_app_transaction = Some a, rc_all_app_transactions = [a],
         rc_match_status = MS_NO_MATCH, rc_reason_codes = [RC_NO_CANDIDATE_FOUND],
         rc_issue_type = IT_MISSING_IN_STATEMENT, rc_confidence_score = tenths 0, rc_evidence = None,
         rc_candidate_id = ''cand-missing-stmt-'' @ at_app_txn_id a,
         rc_review_priority = LOW, rc_is_review_required = True\<rparr>)"

text \<open>The matcher's keyword arguments that a batch leaves at their defaults are the versions.\<close>

definition batch_parameters :: "int \<Rightarrow> int \<Rightarrow> py_float \<Rightarrow> matcher_parameters" where
  "batch_parameters date_tolerance_days posted_date_window_days threshold =
     default_parameters\<lparr>mp_date_tolerance_days := date_tolerance_days,
       mp_posted_date_window_days := posted_date_window_days, mp_merchant_similarity_threshold := threshold\<rparr>"

definition match_batch ::
  "stdlib \<Rightarrow> dcontext \<Rightarrow> statement_transaction list \<Rightarrow> app_transaction list \<Rightarrow> int \<Rightarrow> int \<Rightarrow> py_float \<Rightarrow>
   reconciliation_candidate list result" where
  "match_batch lib ctx statements app_txns date_tolerance_days posted_date_window_days threshold =
     rbind (app_to_internal app_txns) (\<lambda>internal.
     rbind (mapM (statement_candidate lib ctx
       (batch_parameters date_tolerance_days posted_date_window_days threshold) app_txns internal)
       (enumerate 0 statements)) (\<lambda>cs.
     rbind (mapM missing_in_statement
       (filter (\<lambda>a. at_app_txn_id a \<notin> set (referenced_ids cs)) app_txns)) (\<lambda>synthetic.
     Ok (flag_reused_matched_app_transactions cs @ synthetic))))"

definition build_summary :: "reconciliation_candidate list \<Rightarrow> (string, nat) dict" where
  "build_summary cs =
     foldl (\<lambda>counts c. let key = issue_type_value (rc_issue_type c) in
       dset counts key (dget_or counts key 0 + 1)) [] cs"

end
