(* ===== verification/Float_Text.thy ===== *)
theory Float_Text
  imports Json
begin

text \<open>
  The texts of floats between 0 and 1 read as decimals: \<open>repr\<close> writes digits, a point and
  sometimes an exponent, and \<open>Decimal\<close> reads such a text exactly. The decimals are small enough to
  be negated and written canonically without an error.
\<close>

section \<open>The digits of a float\<close>

lemma ndigits_powi:
  assumes "0 < a"
  shows "of_int a < (10 powi int (ndigits (nat a)) :: rat)" and "10 powi (int (ndigits (nat a)) - 1) \<le> (of_int a :: rat)"
proof -
  let ?n = "ndigits (nat a)"
  have a: "(of_int a :: rat) = of_nat (nat a)" using assms by simp
  have "(of_nat (nat a) :: rat) < of_nat (10 ^ ?n)" unfolding of_nat_less_iff by (rule ndigits_less)
  then show "of_int a < (10 powi int ?n :: rat)" unfolding a by simp
  have "of_nat (10 ^ (?n - 1)) \<le> (of_nat (nat a) :: rat)" unfolding of_nat_le_iff using assms by (intro ndigits_ge) simp
  moreover have "(10 powi (int ?n - 1) :: rat) = 10 ^ (?n - 1)"
    using ndigits_pos [of "nat a"] by (metis Suc_leI of_nat_1 of_nat_diff power_int_of_nat One_nat_def)
  ultimately show "10 powi (int ?n - 1) \<le> (of_int a :: rat)" unfolding a by simp
qed

lemma decimal_point_bounds:
  assumes "0 < x"
  shows "x < 10 powi decimal_point x" and "10 powi (decimal_point x - 1) \<le> x"
proof -
  obtain a b where ab: "quotient_of x = (a, b)" by fastforce
  then have b: "0 < b" "x = of_int a / of_int b" by (simp_all add: quotient_of_denom_pos quotient_of_div)
  then have a: "0 < a" using assms by (simp add: zero_less_divide_iff)
  define m n where "m = ndigits (nat a)" and "n = ndigits (nat b)"
  note la = ndigits_powi [OF a, folded m_def] and lb = ndigits_powi [OF b(1), folded n_def]
  let ?d = "int m - int n"
  have "x < 10 powi int m / 10 powi (int n - 1)" unfolding b(2)
    using la lb a b(1) by (intro frac_less) (simp_all add: power_int_def)
  then have up: "x < 10 powi (?d + 1)" by (simp add: power_int_diff power_int_add)
  have "10 powi (int m - 1) / 10 powi int n \<le> x" unfolding b(2)
    using la lb a b(1) by (intro frac_le) (simp_all add: power_int_def)
  then have lo: "10 powi (?d - 1) \<le> x" by (simp add: power_int_diff)
  show "x < 10 powi decimal_point x" "10 powi (decimal_point x - 1) \<le> x"
    using up lo by (auto simp: decimal_point_def ab Let_def m_def n_def)
qed

lemma scaled_less:
  assumes "x < 10 powi d"
  shows "x / 10 powi (d - int m) < (10 ^ m :: rat)"
proof -
  have "(10 powi d :: rat) = 10 ^ m * 10 powi (d - int m)" using power_int_add [of "10 :: rat" "int m" "d - int m"] by simp
  then show ?thesis using assms by (simp add: divide_less_eq)
qed

lemma shortest_from_bounds:
  assumes "0 < x" and "x < 10 powi d" and "shortest_from k n x d = (c, q)" and "n + k = 18" and "1 \<le> n"
  shows "\<exists>m. q = d - int m \<and> 1 \<le> m \<and> m \<le> 17 \<and> c \<le> 10 ^ m"
  using assms
proof (induction k n x d rule: shortest_from.induct)
  case (1 n x d)
  have "x / 10 powi (d - 17) \<le> of_int (10 ^ 17)" using scaled_less [OF 1(2), of 17] by simp
  then have "round_even (x / 10 powi (d - 17)) \<le> 10 ^ 17" by (rule round_even_le)
  then show ?case using 1 by (intro exI [of _ 17]) auto
next
  case (2 k n x d)
  let ?y = "x / 10 powi (d - int n)"
  have y: "?y < of_int (10 ^ n)" using scaled_less [OF 2(3), of n] by simp
  then have "\<lfloor>?y\<rfloor> < 10 ^ n" by (simp only: floor_less_iff)
  then have lo: "\<lfloor>?y\<rfloor> + 1 \<le> 10 ^ n" by simp
  have "round_even ?y \<le> 10 ^ n" using y by (intro round_even_le) simp
  then show ?case using 2 lo by (auto simp: Let_def nat_le_iff split: if_splits intro!: exI [of _ n])
qed

lemma exponent_text_parse: "parse_exponent (CHR ''e'' # exponent_text z) = Some z"
proof -
  define ds where "ds = (if \<bar>z\<bar> < 10 then ''0'' else []) @ string_of_digits (digits (nat \<bar>z\<bar>))"
  have "list_all char_digit ds" "ds \<noteq> []" using digits_text(1) by (simp_all add: ds_def)
  moreover have "nat_of_string ds = nat \<bar>z\<bar>"
    using digits_text(3) [of "nat \<bar>z\<bar>"] by (simp add: ds_def nat_of_string_def digit_of_char_def)
  moreover have "exponent_text z = (if z < 0 then CHR ''-'' else CHR ''+'') # ds" by (simp add: exponent_text_def ds_def)
  ultimately show ?thesis by (simp add: parse_exponent_def split_sign_def)
qed

lemma parse_number_scientific:
  assumes "list_all char_digit ip" and "list_all char_digit fp" and "ip \<noteq> []"
    and "ex = [] \<and> z = 0 \<or> ex = CHR ''e'' # exponent_text z"
    and "exact_range (Dec neg (nat_of_string (ip @ fp)) (z - int (length fp)))"
  shows "parse_number neg (ip @ (if fp = [] then [] else CHR ''.'' # fp) @ ex) =
    Some (Dec neg (nat_of_string (ip @ fp)) (z - int (length fp)))"
proof -
  have ex: "takeWhile char_digit ex = []" "dropWhile char_digit ex = ex" "parse_exponent ex = Some z"
    using assms(4) exponent_text_parse by (auto simp: parse_exponent_def)
  have "ex = [] \<or> (\<exists>r. ex = CHR ''e'' # r)" using assms(4) by auto
  then show ?thesis using assms ex
    by (auto simp: parse_number_def Let_def takeWhile_all dropWhile_all)
qed

lemma py_strip_no_space: "list_all (\<lambda>c. \<not> is_space c) s \<Longrightarrow> py_strip s = s"
  by (cases "s = []") (auto intro!: py_strip_id simp: list_all_iff)

lemma decimal_of_string_digit:
  assumes "list_all (\<lambda>c. \<not> is_space c \<and> c \<noteq> CHR ''_'') s" and "s \<noteq> []" and "char_digit (hd s)" and "parse_number False s = Some d"
  shows "decimal_of_string s = Some (Finite d)"
proof -
  have "py_strip s = s" using assms(1) by (intro py_strip_no_space) (simp add: list_all_iff)
  moreover have "filter (\<lambda>c. c \<noteq> CHR ''_'') s = s" using assms(1) by (simp add: list_all_iff filter_id_conv)
  moreover have "split_sign s = (False, s)" using assms(2,3) by (cases s) (auto simp: split_sign_def)
  ultimately show ?thesis using assms(4) by (simp add: decimal_of_string_def)
qed

lemma decimal_of_scientific:
  assumes "list_all char_digit ip" and "list_all char_digit fp" and "ip \<noteq> []"
    and "ex = [] \<and> z = 0 \<or> ex = CHR ''e'' # exponent_text z"
    and "exact_range (Dec False (nat_of_string (ip @ fp)) (z - int (length fp)))"
  shows "decimal_of_string (ip @ (if fp = [] then [] else CHR ''.'' # fp) @ ex) =
    Some (Finite (Dec False (nat_of_string (ip @ fp)) (z - int (length fp))))"
proof -
  let ?s = "ip @ (if fp = [] then [] else CHR ''.'' # fp) @ ex"
  have "list_all (\<lambda>c. char_digit c \<or> c \<in> set ''.e+-'') ?s"
    using assms(1,2,4) digits_text(1) by (auto simp: exponent_text_def list_all_iff split: if_splits)
  moreover have "\<not> is_space c \<and> c \<noteq> CHR ''_''" if "char_digit c \<or> c \<in> set ''.e+-''" for c
    using that char_digit_not_space by auto (code_simp+)?
  ultimately have "list_all (\<lambda>c. \<not> is_space c \<and> c \<noteq> CHR ''_'') ?s" unfolding list_all_iff by blast
  moreover have "?s \<noteq> []" "char_digit (hd ?s)" using assms(1,3) by (cases ip, simp_all)+
  ultimately show ?thesis using parse_number_scientific [OF assms] by (rule decimal_of_string_digit)
qed

lemma nat_of_string_zeros:
  "nat_of_string (CHR ''0'' # s) = nat_of_string s" "nat_of_string (replicate k (CHR ''0'') @ s) = nat_of_string s"
proof -
  show *: "nat_of_string (CHR ''0'' # s) = nat_of_string s" for s by (simp add: nat_of_string_def digit_of_char_def)
  show "nat_of_string (replicate k (CHR ''0'') @ s) = nat_of_string s" by (induction k) (simp_all add: *)
qed

lemma float_repr_shape:
  assumes x: "x \<noteq> 0" and s: "shortest_from 17 1 x (decimal_point x) = (c, q)" and q: "q \<le> - 1" and p: "int (ndigits c) + q \<le> 1"
  obtains ip fp ex z where "float_repr x = ip @ (if fp = [] then [] else CHR ''.'' # fp) @ ex"
    and "list_all char_digit ip" and "list_all char_digit fp" and "ip \<noteq> []"
    and "ex = [] \<and> z = 0 \<or> ex = CHR ''e'' # exponent_text z"
    and "nat_of_string (ip @ fp) = c" and "z - int (length fp) = q"
proof -
  define ds where "ds = string_of_digits (digits c)"
  have len: "length ds = ndigits c" and ds: "list_all char_digit ds" "ds \<noteq> []" "nat_of_string ds = c"
    using digits_text [of c] by (simp_all add: ds_def)
  have sub: "list_all char_digit (take k ds)" "list_all char_digit (drop k ds)" for k
    using ds(1) by (auto simp: list_all_iff dest: in_set_takeD in_set_dropD)
  have one: "Suc 0 \<le> ndigits c" by (simp add: Suc_le_eq)
  let ?p = "int (ndigits c) + q"
  note r = float_repr_def [of x, unfolded s prod.case Let_def, folded ds_def, unfolded len]
  consider "?p \<le> - 4" | "- 4 < ?p" "?p \<le> 0" | "?p = 1" using p by linarith
  then show ?thesis
  proof cases
    case 1
    show ?thesis
    proof (rule that [of "take 1 ds" "drop 1 ds" "CHR ''e'' # exponent_text (?p - 1)" "?p - 1"])
      show "float_repr x = take 1 ds @ (if drop 1 ds = [] then [] else CHR ''.'' # drop 1 ds) @ CHR ''e'' # exponent_text (?p - 1)"
        using 1 x len one unfolding r by auto
    qed (use sub ds len one in \<open>simp_all add: of_nat_diff\<close>)
  next
    case 2
    show ?thesis
    proof (rule that [of "''0''" "zeros_text (- ?p) @ ds" "[]" 0])
      show "float_repr x = ''0'' @ (if zeros_text (- ?p) @ ds = [] then [] else CHR ''.'' # zeros_text (- ?p) @ ds) @ []"
        using 2 x ds(2) unfolding r by simp
    qed (use 2 ds len in \<open>auto simp: zeros_text_def nat_of_string_zeros list_all_iff\<close>)
  next
    case 3
    show ?thesis
    proof (rule that [of "take 1 ds" "drop 1 ds" "[]" 0])
      show "float_repr x = take 1 ds @ (if drop 1 ds = [] then [] else CHR ''.'' # drop 1 ds) @ []"
        using 3 x q len unfolding r by auto
    qed (use sub ds len 3 q in \<open>simp_all add: of_nat_diff\<close>)
  qed
qed

lemma exact_range_small: "c \<le> 10 ^ 17 \<Longrightarrow> - 400 \<le> q \<Longrightarrow> q \<le> 0 \<Longrightarrow> exact_range (Dec neg c q)"
  using ndigits_le_iff [of 18 c] by (simp add: exact_range_def adjusted_def)

lemma float_repr_reads:
  assumes x: "0 < x" "x < 1" "10 powi (- 330) \<le> x"
  obtains c q where "decimal_of_string (float_repr x) = Some (Finite (Dec False c q))"
    and "c \<le> 10 ^ 17" and "- 400 \<le> q" and "q \<le> - 1" and "int (ndigits c) + q \<le> 1"
proof -
  let ?d = "decimal_point x"
  note b = decimal_point_bounds [OF x(1)]
  have "(10 :: rat) powi (?d - 1) < 10 powi 0" "(10 :: rat) powi (- 330) < 10 powi ?d" using b x by simp_all
  then have d: "?d \<le> 0" "- 330 < ?d" by (simp_all only: ten_powi_less_iff)
  obtain c q where s: "shortest_from 17 1 x ?d = (c, q)" by fastforce
  then obtain m where m: "q = ?d - int m" "1 \<le> m" "m \<le> 17" "c \<le> 10 ^ m"
    using shortest_from_bounds [OF x(1) b(1)] by fastforce
  have "(10 :: nat) ^ m \<le> 10 ^ 17" using m by (intro power_increasing) simp_all
  then have c: "c \<le> 10 ^ 17" using m(4) by linarith
  have "(10 :: nat) ^ m < 10 ^ Suc m" by simp
  then have "c < 10 ^ Suc m" using m(4) by (rule le_less_trans [rotated])
  then have "ndigits c \<le> Suc m" by (simp only: ndigits_le_iff zero_less_Suc)
  then have p: "int (ndigits c) + q \<le> 1" using m d by simp
  have q: "q \<le> - 1" "- 400 \<le> q" using m d by simp_all
  obtain ip fp ex z where "float_repr x = ip @ (if fp = [] then [] else CHR ''.'' # fp) @ ex"
    "list_all char_digit ip" "list_all char_digit fp" "ip \<noteq> []" "ex = [] \<and> z = 0 \<or> ex = CHR ''e'' # exponent_text z"
    "nat_of_string (ip @ fp) = c" "z - int (length fp) = q" 
    by (rule float_repr_shape [OF _ s q(1) p]) (use x in simp)
  moreover have "exact_range (Dec False c q)" using c q by (intro exact_range_small) simp_all
  ultimately have "decimal_of_string (float_repr x) = Some (Finite (Dec False c q))" using decimal_of_scientific by metis
  then show ?thesis using c q p by (intro that)
qed

lemma to_float_lower:
  assumes "to_float y = Some x" and "0 \<le> y"
  shows "x = 0 \<or> 10 powi (- 330) \<le> x"
proof (cases "y = 0")
  case False
  define e where "e = max (- 1074) (binary_exponent y)"
  define k where "k = round_even (y / 2 powi e)"
  have x: "x = of_int k * 2 powi e" using assms(1) False by (simp add: to_float_def Let_def e_def k_def split: if_splits)
  have "0 \<le> k" using assms(2) round_even_nonneg by (simp add: k_def)
  moreover have "(10 :: rat) powi (- 330) \<le> 2 powi (- 1074)" by (simp add: power_int_minus)
  moreover have "(2 :: rat) powi (- 1074) \<le> 2 powi e" by (rule power_int_increasing) (simp_all add: e_def)
  moreover have "2 powi e \<le> of_int k * (2 powi e :: rat)" if "1 \<le> k" using that by simp
  ultimately show ?thesis unfolding x by (cases "k = 0") (simp, linarith)
qed (use assms in \<open>simp add: to_float_def\<close>)

lemma round_even_of_int [simp]: "round_even (of_int k) = k"
  by (simp add: round_even_def)

lemma to_float_exact:
  assumes "binary_exponent x = e" and "- 1074 \<le> e" and "x = of_int k * 2 powi e" and "x < 2 ^ 1024"
  shows "to_float x = Some x"
proof -
  have "max (- 1074) e = e" using assms(2) by simp
  moreover have "x / 2 powi e = of_int k" using assms(3) by simp
  ultimately show ?thesis using assms(3,4) unfolding to_float_def Let_def assms(1) by (simp add: assms(3))
qed

lemma to_float_half: "to_float (1 / 2) = Some (1 / 2)"
proof -
  have "quotient_of (1 / 2) = (1, 2)" "bitlen 2 = 2" "bitlen 1 = 1" by code_simp+
  then show ?thesis
    by (intro to_float_exact [where k = "2 ^ 52" and e = "- 53"])
      (simp_all add: binary_exponent_def Let_def power_int_minus)
qed

lemma to_float_one: "to_float 1 = Some 1"
  by (rule to_float_exact [where k = "2 ^ 52" and e = "- 52"]) (simp_all add: binary_exponent_def Let_def power_int_minus)

lemma float_repr_one: "float_repr 1 = ''1.0''"
proof -
  have "shortest_from 17 1 1 1 = (1, 0)" by (simp add: eval_nat_numeral Let_def round_even_def to_float_one)
  moreover have "decimal_point 1 = 1" by (simp add: decimal_point_def)
  moreover have "string_of_digits (digits 1) = ''1''" by code_simp
  ultimately show ?thesis by (simp add: float_repr_def Let_def zeros_text_def del: One_nat_def)
qed

text \<open>What the decimal of a float between 0 and 1 looks like.\<close>

definition small_decimal :: "dec \<Rightarrow> bool" where
  "small_decimal d \<longleftrightarrow>
     dcoeff d \<le> 10 ^ 17 \<and> - 400 \<le> dexp d \<and> dexp d \<le> 0 \<and> int (ndigits (dcoeff d)) + dexp d \<le> 1"

lemma dec_neg_small:
  assumes "small_decimal d" and "wf_context ctx"
  shows "\<exists>n. dec_neg ctx d = Ok n"
proof -
  let ?d = "if dcoeff d = 0 then copy_abs d else copy_negate d"
  have d: "dcoeff ?d = dcoeff d" "dexp ?d = dexp d" by (simp_all add: copy_abs_def copy_negate_def)
  have "int (ndigits (dcoeff d)) + dexp d \<le> 1" "1 \<le> prec ctx" "Etiny ctx \<le> - 2" "int (prec ctx) \<le> Emax ctx"
    using assms by (simp_all add: small_decimal_def wf_context_def)
  then show ?thesis unfolding dec_neg_def dec_fix_def Let_def d Etop_def by auto
qed

lemma canonical_small:
  assumes "small_decimal d"
  shows "\<exists>s. canonical_decimal_str (Finite d) = Ok s"
proof -
  have "dcoeff d < 10 ^ 18" using assms by (simp add: small_decimal_def)
  then have "length (digits (dcoeff d)) \<le> 18" by (simp add: ndigits_le_iff)
  moreover have "length (takeWhile (\<lambda>x. x = 0) (rev (digits (dcoeff d)))) \<le> length (digits (dcoeff d))"
    by (metis length_rev length_takeWhile_le)
  moreover have "- 400 \<le> dexp d" "dexp d \<le> 0" using assms by (simp_all add: small_decimal_def)
  ultimately show ?thesis
    by (auto simp: canonical_decimal_str_def MAX_CANONICAL_DECIMAL_CHARS_def Let_def)
qed

end
