(* ===== verification/Recon_Correctness.thy ===== *)
theory Recon_Correctness
  imports Recon_Matching Float_Text
begin

text \<open>
  Correctness of the matcher: a statement is matched exactly when one candidate passes every gate.
\<close>

definition date_gate :: "matcher_parameters \<Rightarrow> statement_transaction \<Rightarrow> date \<Rightarrow> bool" where
  "date_gate params statement app_date \<longleftrightarrow>
     (case (st_transaction_date statement, st_posted_date statement) of
        (Some t, _) \<Rightarrow> app_date = t
      | (None, Some p) \<Rightarrow> 0 \<le> days_between p app_date \<and> days_between p app_date \<le> mp_posted_date_window_days params
      | (None, None) \<Rightarrow> False)"

definition merchant_gate :: "matcher_parameters \<Rightarrow> statement_transaction \<Rightarrow> string \<Rightarrow> bool" where
  "merchant_gate params statement merchant \<longleftrightarrow>
     py_lower (py_strip (st_merchant_raw statement)) = py_lower (py_strip merchant) \<or>
     py_lower (statement_merchant statement) = py_lower (normalize_merchant merchant) \<or>
     (\<exists>similarity score t. merchant_similarity (statement_merchant statement) (normalize_merchant merchant) = Ok similarity \<and>
        decimal_of_float (Float False similarity) = Ok score \<and>
        decimal_of_float (mp_merchant_similarity_threshold params) = Ok t \<and> dval t \<le> dval score)"

definition passes_gates :: "matcher_parameters \<Rightarrow> statement_transaction \<Rightarrow> internal_candidate \<Rightarrow> bool" where
  "passes_gates params statement candidate \<longleftrightarrow>
     currency_match (st_currency statement) (Some (ic_currency candidate)) \<and>
     (\<exists>d. st_amount_direction statement = Some d \<and> normalize_transaction_type candidate \<in> set (compatible_types d)) \<and>
     (\<exists>a. st_amount statement = Some a \<and> dval a = dval (ic_amount candidate)) \<and>
     date_gate params statement (ic_transaction_date candidate) \<and>
     merchant_gate params statement (ic_merchant candidate)"

lemma compatible_iff:
  "fst (check_direction_compatibility direction candidate) = COMPATIBLE \<longleftrightarrow>
   (\<exists>d. direction = Some d \<and> normalize_transaction_type candidate \<in> set (compatible_types d))"
proof (cases direction)
  case (Some d)
  then show ?thesis by (cases d) (simp_all add: check_direction_compatibility_def Let_def)
qed (simp add: check_direction_compatibility_def Let_def)

lemma date_window_iff:
  assumes "0 \<le> mp_posted_date_window_days params"
  shows "dm_matched (match_date_window app_date (st_transaction_date statement) (st_posted_date statement) tolerance
           (mp_posted_date_window_days params)) \<longleftrightarrow> date_gate params statement app_date"
  using assms
  by (auto simp: match_date_window_def date_match_def date_gate_def Let_def split: option.splits)

lemma evaluate_merchant_Ok:
  assumes "evaluate_merchant statement candidate (mp_merchant_similarity_threshold params) k gates dr = Ok e"
  shows "ce_candidate e = candidate" "ce_eligible e \<longleftrightarrow> merchant_gate params statement (ic_merchant candidate)"
    "ce_compatibility e = k" "ce_date_result e = Some dr" "set gates \<subseteq> set (ce_hard_gate_results e)"
  using assms dec_le_iff
  by (auto simp: evaluate_merchant_def merchant_gate_def Let_def result_simps split: if_splits)

lemma evaluate_with_Ok:
  assumes "evaluate_with params statement candidate = Ok e" and "0 \<le> mp_posted_date_window_days params"
  shows "ce_candidate e = candidate" "ce_eligible e \<longleftrightarrow> passes_gates params statement candidate"
    "ce_eligible e \<Longrightarrow> currency_passed e \<and> direction_passed e \<and> amount_passed e \<and> date_passed e"
    "currency_passed e \<Longrightarrow> ce_compatibility e = fst (check_direction_compatibility (st_amount_direction statement) candidate)"
    "currency_passed e \<Longrightarrow> \<not> direction_passed e \<Longrightarrow>
     ce_compatibility_reason e = fst (snd (check_direction_compatibility (st_amount_direction statement) candidate))"
proof -
  let ?m = "match_date_window (ic_transaction_date candidate) (st_transaction_date statement) (st_posted_date statement)
              (mp_date_tolerance_days params) (mp_posted_date_window_days params)"
  obtain k reason t where chk: "check_direction_compatibility (st_amount_direction statement) candidate = (k, reason, t)"
    by (cases "check_direction_compatibility (st_amount_direction statement) candidate")
  have k: "k = COMPATIBLE \<longleftrightarrow> (\<exists>d. st_amount_direction statement = Some d \<and>
             normalize_transaction_type candidate \<in> set (compatible_types d))"
    using compatible_iff [of "st_amount_direction statement" candidate] chk by simp
  have dm: "dm_matched ?m \<longleftrightarrow> date_gate params statement (ic_transaction_date candidate)"
    by (rule date_window_iff) (rule assms(2))
  note e = assms(1) [unfolded evaluate_with_def evaluate_candidate_def Let_def chk prod.case]
  note defs = rejected_evaluation_def passes_gates_def currency_passed_def direction_passed_def amount_passed_def date_passed_def
  consider (currency) "\<not> currency_match (st_currency statement) (Some (ic_currency candidate))"
    | (direction) "currency_match (st_currency statement) (Some (ic_currency candidate))" "k \<noteq> COMPATIBLE"
    | (amount) "currency_match (st_currency statement) (Some (ic_currency candidate))" "k = COMPATIBLE"
        "\<not> (\<exists>a. st_amount statement = Some a \<and> dval a = dval (ic_amount candidate))"
    | (date) "currency_match (st_currency statement) (Some (ic_currency candidate))" "k = COMPATIBLE"
        "\<exists>a. st_amount statement = Some a \<and> dval a = dval (ic_amount candidate)" "\<not> dm_matched ?m"
    | (merchant) "currency_match (st_currency statement) (Some (ic_currency candidate))" "k = COMPATIBLE"
        "\<exists>a. st_amount statement = Some a \<and> dval a = dval (ic_amount candidate)" "dm_matched ?m" by blast
  then have "ce_candidate e = candidate \<and> (ce_eligible e \<longleftrightarrow> passes_gates params statement candidate) \<and>
    (ce_eligible e \<longrightarrow> currency_passed e \<and> direction_passed e \<and> amount_passed e \<and> date_passed e) \<and>
    (currency_passed e \<longrightarrow> ce_compatibility e = k) \<and>
    (currency_passed e \<longrightarrow> \<not> direction_passed e \<longrightarrow> ce_compatibility_reason e = reason)"
  proof cases
    case currency
    then show ?thesis using e by (auto simp: defs)
  next
    case direction
    then show ?thesis using e k by (auto simp: defs)
  next
    case amount
    then show ?thesis using e by (auto simp: defs amount_exact_match_def dec_eq_iff split: option.splits)
  next
    case date
    then show ?thesis using e dm by (auto simp: defs amount_exact_match_def dec_eq_iff)
  next
    case merchant
    then have "evaluate_merchant statement candidate (mp_merchant_similarity_threshold params) k
      ([''source_identity_valid''] @ [''currency_compatible''] @ [reason_code_value RC_DIRECTION_TYPE_COMPATIBLE] @
       [reason_code_value RC_EXACT_AMOUNT_MATCH] @ [''date_compatible:'' @ dm_matched_on ?m]) ?m = Ok e"
      using e by (auto simp: amount_exact_match_def dec_eq_iff)
    note m = evaluate_merchant_Ok [OF this]
    show ?thesis using m merchant k dm by (auto simp: defs)
  qed
  then show "ce_candidate e = candidate" "ce_eligible e \<longleftrightarrow> passes_gates params statement candidate"
    "ce_eligible e \<Longrightarrow> currency_passed e \<and> direction_passed e \<and> amount_passed e \<and> date_passed e"
    "currency_passed e \<Longrightarrow> ce_compatibility e = fst (check_direction_compatibility (st_amount_direction statement) candidate)"
    "currency_passed e \<Longrightarrow> \<not> direction_passed e \<Longrightarrow>
     ce_compatibility_reason e = fst (snd (check_direction_compatibility (st_amount_direction statement) candidate))"
    by (auto simp: chk)
qed

lemma sort_scored_mset:
  assumes "sort_scored ctx es = Ok ss"
  shows "mset ss = mset es"
proof -
  obtain keyed where k: "mapM (\<lambda>e. rbind (dec_neg ctx (case ce_merchant_similarity_score e of None \<Rightarrow> ZERO | Some d \<Rightarrow> d)) (\<lambda>n.
       Ok ((dval n, ic_internal_id (ce_candidate e)), e))) es = Ok keyed" and ss: "ss = map snd (sort_key fst keyed)"
    using assms by (auto simp: sort_scored_def result_simps)
  have "list_all2 (\<lambda>e x. snd x = e) es keyed" using k unfolding mapM_Ok_iff
    by (rule list_all2_mono) (auto simp: result_simps)
  then have "map snd keyed = es" by (induction rule: list_all2_induct) auto
  then show ?thesis unfolding ss by (metis mset_map mset_sort)
qed

lemma make_result_simps [simp]:
  "mr_status (make_result s rs ev st b cs) = s" "mr_reasons (make_result s rs ev st b cs) = rs"
  "mr_best_candidate (make_result s rs ev st b cs) = b" "mr_candidates (make_result s rs ev st b cs) = cs"
  "mr_evidence (make_result s rs ev st b cs) = ev"
  by (simp_all add: make_result_def)

lemma result_from_scored_Ok:
  assumes "result_from_scored statement ss n = Ok r"
  shows "mr_best_candidate r = (case ss of [e] \<Rightarrow> Some (ce_candidate e) | _ \<Rightarrow> None)"
    and "mr_status r = MS_MATCHED \<longleftrightarrow> mr_best_candidate r \<noteq> None"
  using assms by (auto simp: result_from_scored_def split: list.splits option.splits if_splits)

lemma mset_singleton_case:
  "mset xs = mset ys \<Longrightarrow> (case xs of [x] \<Rightarrow> f x | _ \<Rightarrow> d) = (case ys of [y] \<Rightarrow> f y | _ \<Rightarrow> d)"
  using mset_eq_length [of xs ys] by (auto split: list.splits)

lemma filter_gates:
  assumes "\<And>e. e \<in> set es \<Longrightarrow> ce_eligible e \<Longrightarrow> currency_passed e \<and> direction_passed e \<and> amount_passed e \<and> date_passed e"
  shows "filter ce_eligible (filter date_passed (filter amount_passed (filter direction_passed (filter currency_passed es)))) =
    filter ce_eligible es"
  using assms by (auto intro!: filter_cong)

lemma result_from_evaluations_scored:
  assumes gates: "\<And>e. e \<in> set es \<Longrightarrow> ce_eligible e \<Longrightarrow> currency_passed e \<and> direction_passed e \<and> amount_passed e \<and> date_passed e"
    and ne: "filter ce_eligible es \<noteq> []"
  shows "result_from_evaluations ctx statement es n =
    rbind (sort_scored ctx (filter ce_eligible es)) (\<lambda>ss. result_from_scored statement ss n)"
proof -
  have s: "filter ce_eligible (filter date_passed (filter amount_passed (filter direction_passed (filter currency_passed es)))) =
    filter ce_eligible es" by (rule filter_gates) (rule gates)
  obtain e where "e \<in> set es" "ce_eligible e" using ne by (auto simp: filter_empty_conv)
  then have "e \<in> set es" "currency_passed e" "direction_passed e" "amount_passed e" "date_passed e" using gates by auto
  then have "filter date_passed (filter amount_passed (filter direction_passed (filter currency_passed es))) \<noteq> []"
    "filter amount_passed (filter direction_passed (filter currency_passed es)) \<noteq> []"
    "filter direction_passed (filter currency_passed es) \<noteq> []" "filter currency_passed es \<noteq> []"
    by (auto simp: filter_empty_conv)
  then show ?thesis using ne unfolding result_from_evaluations_def Let_def s by (simp del: filter_filter)
qed

lemma result_from_evaluations_unscored:
  assumes "filter ce_eligible es = []"
  shows "\<exists>r. result_from_evaluations ctx statement es n = Ok r \<and> mr_best_candidate r = None \<and> mr_status r \<noteq> MS_MATCHED"
proof -
  have s: "filter ce_eligible (filter date_passed (filter amount_passed (filter direction_passed (filter currency_passed es)))) = []"
    using assms by (auto simp: filter_empty_conv)
  show ?thesis unfolding result_from_evaluations_def Let_def s by (simp split: if_split)
qed

lemma result_from_evaluations_Ok:
  assumes r: "result_from_evaluations ctx statement es n = Ok r"
    and gates: "\<And>e. e \<in> set es \<Longrightarrow> ce_eligible e \<Longrightarrow> currency_passed e \<and> direction_passed e \<and> amount_passed e \<and> date_passed e"
  shows "mr_best_candidate r = (case filter ce_eligible es of [e] \<Rightarrow> Some (ce_candidate e) | _ \<Rightarrow> None) \<and>
    (mr_status r = MS_MATCHED \<longleftrightarrow> mr_best_candidate r \<noteq> None)"
proof (cases "filter ce_eligible es = []")
  case True
  then show ?thesis using result_from_evaluations_unscored [of es ctx statement n] r by auto
next
  case False
  then obtain ss where ss: "sort_scored ctx (filter ce_eligible es) = Ok ss" "result_from_scored statement ss n = Ok r"
    using r result_from_evaluations_scored [OF gates] by (auto simp: result_simps)
  show ?thesis using result_from_scored_Ok [OF ss(2)] mset_singleton_case [OF sort_scored_mset [OF ss(1)]] by simp
qed

lemma attach_decision_hash_Ok:
  assumes "attach_decision_hash lib params q statement es = Ok r"
  obtains rec where "build_decision_record lib params statement q es = Ok rec"
    and "mr_status r = mr_status q" and "mr_reasons r = mr_reasons q" and "mr_best_candidate r = mr_best_candidate q"
    and "mr_candidates r = mr_candidates q" and "mr_evidence r = mr_evidence q"
    and "mr_decision_hash r = Some (dr_decision_hash rec)"
    and "mr_decision_material_json r = Some (dr_decision_material_json rec)"
    and "mr_candidate_set_fingerprint r = Some (dr_candidate_set_fingerprint rec)"
  using assms by (cases "build_decision_record lib params statement q es") (auto simp: attach_decision_hash_def intro: that)

lemma match_statement_Ok:
  assumes "match_statement lib ctx params statement candidates = Ok r"
  obtains es q where "0 \<le> mp_posted_date_window_days params" and "unit_interval (mp_merchant_similarity_threshold params)"
    and "distinct (map ic_internal_id candidates)"
    and "list_all2 (\<lambda>c e. evaluate_with params statement c = Ok e) candidates es"
    and "decide ctx params statement candidates es = Ok q"
    and "attach_decision_hash lib params q statement es = Ok r"
  using assms that
  by (auto simp: match_statement_def validate_matcher_parameters_def mapM_Ok_iff [symmetric] result_simps split: if_splits)

lemma eligible_candidates:
  assumes "list_all2 (\<lambda>c e. evaluate_with params statement c = Ok e) cs es" and "0 \<le> mp_posted_date_window_days params"
  shows "map ce_candidate (filter ce_eligible es) = filter (passes_gates params statement) cs"
    and "map ce_candidate es = cs"
    and "\<And>e. e \<in> set es \<Longrightarrow> ce_eligible e \<Longrightarrow> currency_passed e \<and> direction_passed e \<and> amount_passed e \<and> date_passed e"
  using assms(1)
proof (induction rule: list_all2_induct)
  case (Cons c cs e es)
  note ok = evaluate_with_Ok [OF Cons.hyps(1) assms(2)]
  { case 1 then show ?case using Cons.IH ok by simp }
  { case 2 then show ?case using Cons.IH ok by simp }
  { case 3 then show ?case using Cons.IH ok by auto }
qed simp_all

lemma decide_best:
  assumes "decide ctx params statement cs es = Ok q" and "0 \<le> mp_posted_date_window_days params"
    and es: "list_all2 (\<lambda>c e. evaluate_with params statement c = Ok e) cs es"
  shows "mr_best_candidate q =
      (if statement_precheck statement = None then case filter (passes_gates params statement) cs of [c] \<Rightarrow> Some c | _ \<Rightarrow> None
       else None) \<and> (mr_status q = MS_MATCHED \<longleftrightarrow> mr_best_candidate q \<noteq> None)"
proof -
  note el = eligible_candidates [OF es assms(2)]
  show ?thesis
  proof (cases "statement_precheck statement = None \<and> \<not> (st_transaction_date statement = None \<and> st_posted_date statement = None) \<and> cs \<noteq> []")
    case True
    then have "result_from_evaluations ctx statement es (mp_date_tolerance_days params) = Ok q"
      using assms(1) by (auto simp: decide_def)
    from result_from_evaluations_Ok [OF this el(3)] show ?thesis
      using True unfolding el(1) [symmetric] by (simp split: list.splits)
  next
    case False
    then have "statement_precheck statement = None \<longrightarrow> filter (passes_gates params statement) cs = []"
      by (auto simp: filter_empty_conv passes_gates_def date_gate_def)
    then show ?thesis using False assms(1) by (auto simp: decide_def split: option.splits if_splits)
  qed
qed

lemma filter_singleton_iff:
  assumes "distinct xs"
  shows "(case filter P xs of [x] \<Rightarrow> Some x | _ \<Rightarrow> None) = Some c \<longleftrightarrow> c \<in> set xs \<and> P c \<and> (\<forall>d\<in>set xs. P d \<longrightarrow> d = c)"
proof -
  have in_iff: "x \<in> set (filter P xs) \<longleftrightarrow> x \<in> set xs \<and> P x" for x by simp
  show ?thesis
  proof (cases "filter P xs")
    case Nil
    then show ?thesis using in_iff [of c] by auto
  next
    case (Cons x ys)
    show ?thesis
    proof (cases ys)
      case Nil
      then have "d \<in> set xs \<and> P d \<longleftrightarrow> d = x" for d using in_iff [of d] Cons by simp
      then show ?thesis using Cons Nil by auto
    next
      case (Cons y zs)
      note eq = \<open>filter P xs = x # ys\<close> [unfolded Cons]
      have "x \<noteq> y" using assms distinct_filter [of xs P] unfolding eq by simp
      moreover have "x \<in> set xs \<and> P x" "y \<in> set xs \<and> P y" using in_iff [of x] in_iff [of y] unfolding eq by simp_all
      ultimately show ?thesis unfolding eq by auto
    qed
  qed
qed

lemma match_statement_best:
  assumes "match_statement lib ctx params st cs = Ok r"
  shows "mr_best_candidate r =
      (if statement_precheck st = None then case filter (passes_gates params st) cs of [c] \<Rightarrow> Some c | _ \<Rightarrow> None
       else None) \<and> (mr_status r = MS_MATCHED \<longleftrightarrow> mr_best_candidate r \<noteq> None)"
proof -
  obtain es q where w: "0 \<le> mp_posted_date_window_days params"
    and es: "list_all2 (\<lambda>c e. evaluate_with params st c = Ok e) cs es"
    and q: "decide ctx params st cs es = Ok q" and r: "attach_decision_hash lib params q st es = Ok r"
    using assms by (rule match_statement_Ok)
  have "mr_status r = mr_status q" "mr_best_candidate r = mr_best_candidate q"
    using r by (rule attach_decision_hash_Ok, simp)+
  then show ?thesis using decide_best [OF q w es] by simp
qed

lemma matched_from_candidates:
  assumes "match_statement lib ctx params st cs = Ok r" and "mr_status r = MS_MATCHED"
  obtains c where "c \<in> set cs" and "mr_best_candidate r = Some c"
proof -
  obtain c where c: "mr_best_candidate r = Some c" using match_statement_best [OF assms(1), THEN conjunct2] assms(2) by auto
  then have "filter (passes_gates params st) cs = [c]"
    using match_statement_best [OF assms(1), THEN conjunct1] by (simp split: if_splits list.splits)
  then have "c \<in> set (filter (passes_gates params st) cs)" by simp
  then show ?thesis using c by (intro that) simp_all
qed

lemma decimal_of_unit_float:
  assumes "to_float y = Some x" and "0 \<le> y" and "0 \<le> x" and "x \<le> 1"
  obtains d where "decimal_of_float (Float False x) = Ok d" and "small_decimal d"
proof -
  have texts: "decimal_of_string (float_repr 0) = Some (Finite (Dec False 0 (- 1)))"
    "decimal_of_string (float_repr 1) = Some (Finite (Dec False 10 (- 1)))"
    unfolding float_repr_one by code_simp+
  have ends: "small_decimal (Dec False 0 (- 1))" "small_decimal (Dec False 10 (- 1))"
    by (simp_all add: small_decimal_def ndigits.simps)
  consider "x = 0" | "x = 1" | "0 < x" "x < 1" using assms(3,4) by linarith
  then show ?thesis
  proof cases
    case 3
    then have "10 powi (- 330) \<le> x" using to_float_lower [OF assms(1,2)] by simp
    then obtain c q where "decimal_of_string (float_repr x) = Some (Finite (Dec False c q))"
      and "c \<le> 10 ^ 17" and "- 400 \<le> q" and "q \<le> - 1" and "int (ndigits c) + q \<le> 1"
      using 3 by (elim float_repr_reads)
    then show ?thesis by (intro that [of "Dec False c q"]) (simp_all add: decimal_of_float_def float_text_def small_decimal_def)
  qed (use texts ends in \<open>auto simp: decimal_of_float_def float_text_def intro: that\<close>)
qed

text \<open>A threshold that is a float.\<close>

definition float_value :: "py_float \<Rightarrow> bool" where
  "float_value f = (case f of Float neg x \<Rightarrow> to_float x = Some x | _ \<Rightarrow> True)"

lemma threshold_decimal:
  assumes "unit_interval f" and "float_value f"
  shows "\<exists>d. decimal_of_float f = Ok d"
proof (cases f)
  case (Float neg x)
  show ?thesis
  proof (cases neg)
    case True
    have "decimal_of_float (Float True 0) = Ok (Dec True 0 (- 1))" by code_simp
    then show ?thesis using assms(1) True Float by (auto simp: unit_interval_def)
  next
    case False
    then have "to_float x = Some x" "0 \<le> x" "x \<le> 1" using assms Float by (simp_all add: unit_interval_def float_value_def)
    then show ?thesis using decimal_of_unit_float [of x x] Float False by metis
  qed
qed (use assms in \<open>simp_all add: unit_interval_def\<close>)

lemma similarity_score:
  obtains similarity d where "merchant_similarity a b = Ok similarity"
    and "decimal_of_float (Float False similarity) = Ok d" and "small_decimal d"
proof -
  obtain x y where y: "merchant_similarity a b = Ok y" "0 \<le> y" "y \<le> 1" "to_float x = Some y" "0 \<le> x"
    by (rule merchant_similarity_cases)
  obtain d where "decimal_of_float (Float False y) = Ok d" "small_decimal d"
    using y(4,5,2,3) by (rule decimal_of_unit_float)
  then show ?thesis using y(1) by (intro that)
qed

lemma evaluate_with_returns:
  assumes "unit_interval (mp_merchant_similarity_threshold params)" and "float_value (mp_merchant_similarity_threshold params)"
  shows "\<exists>e. evaluate_with params statement candidate = Ok e \<and>
    (\<forall>d. ce_merchant_similarity_score e = Some d \<longrightarrow> small_decimal d)"
proof -
  obtain t where t: "decimal_of_float (mp_merchant_similarity_threshold params) = Ok t"
    using threshold_decimal [OF assms] by blast
  obtain similarity d where s: "merchant_similarity (statement_merchant statement) (normalize_merchant (ic_merchant candidate)) = Ok similarity"
    "decimal_of_float (Float False similarity) = Ok d" "small_decimal d" by (rule similarity_score)
  have "\<exists>e. evaluate_merchant statement candidate (mp_merchant_similarity_threshold params) k gates dr = Ok e \<and>
    ce_merchant_similarity_score e = Some d" for k gates dr
    by (simp add: evaluate_merchant_def Let_def s t)
  then show ?thesis unfolding evaluate_with_def evaluate_candidate_def Let_def
    by (simp add: rejected_evaluation_def s(3) split: prod.split) (metis s(3) option.inject)
qed

definition merchant_tokens :: "string \<Rightarrow> string set" where
  "merchant_tokens a = set (py_split (py_lower a))"

lemma merchant_similarity_jaccard:
  "merchant_similarity a b =
     (let A = merchant_tokens a; B = merchant_tokens b in
      if A = {} \<or> B = {} then Ok 0
      else case to_float (of_nat (card (A \<inter> B)) / of_nat (card (A \<union> B))) of
             Some x \<Rightarrow> Ok x | None \<Rightarrow> raise OverflowError ''integer division result too large for a float'')"
proof -
  let ?a = "remdups (py_split (py_lower a))" and ?b = "remdups (py_split (py_lower b))"
  let ?A = "merchant_tokens a" and ?B = "merchant_tokens b"
  have "length (filter (\<lambda>t. t \<in> set ?b) ?a) = card (set (filter (\<lambda>t. t \<in> set ?b) ?a))"
    by (rule distinct_card [symmetric]) simp
  also have "set (filter (\<lambda>t. t \<in> set ?b) ?a) = ?A \<inter> ?B" by (auto simp: merchant_tokens_def)
  finally have i: "length (filter (\<lambda>t. t \<in> set ?b) ?a) = card (?A \<inter> ?B)" .
  have "length (remdups (?a @ ?b)) = card (set (remdups (?a @ ?b)))" by (rule distinct_card [symmetric]) simp
  also have "set (remdups (?a @ ?b)) = ?A \<union> ?B" by (simp add: merchant_tokens_def)
  finally have u: "length (remdups (?a @ ?b)) = card (?A \<union> ?B)" .
  have e: "?a = [] \<longleftrightarrow> ?A = {}" "?b = [] \<longleftrightarrow> ?B = {}" by (simp_all add: merchant_tokens_def)
  show ?thesis unfolding merchant_similarity_def Let_def i u e ..
qed

section \<open>Properties\<close>

text \<open>
  C38 The similarity of merchants. The comparison always returns a number between 0 and 1, whichever
  merchant comes first; it is 0 when the names share no word and 1 when they have the same words.
\<close>

theorem merchant_similarity_bounds:
  "\<exists>s. merchant_similarity a b = Ok s \<and> merchant_similarity b a = Ok s \<and> 0 \<le> s \<and> s \<le> 1 \<and>
     (merchant_tokens a \<inter> merchant_tokens b = {} \<longrightarrow> s = 0) \<and>
     (merchant_tokens a = merchant_tokens b \<and> merchant_tokens a \<noteq> {} \<longrightarrow> s = 1)"
proof -
  let ?A = "merchant_tokens a" and ?B = "merchant_tokens b"
  have fin: "finite ?A" "finite ?B" by (simp_all add: merchant_tokens_def)
  obtain s where s: "merchant_similarity a b = Ok s" "0 \<le> s" "s \<le> 1" by (rule merchant_similarity_cases)
  moreover have "merchant_similarity b a = merchant_similarity a b"
    by (simp add: merchant_similarity_jaccard Let_def Int_commute Un_commute disj_commute)
  moreover have "s = 0" if "?A \<inter> ?B = {}"
    using s(1) that by (simp add: merchant_similarity_jaccard Let_def to_float_zero split: if_splits)
  moreover have "s = 1" if "?A = ?B" "?A \<noteq> {}"
    using s(1) that fin by (simp add: merchant_similarity_jaccard Let_def to_float_one)
  ultimately show ?thesis by (intro exI [of _ s]) auto
qed

theorem merchant_similarity_bounds_witness:
  "merchant_similarity ''Grab Taxi'' ''TAXI grab'' = Ok 1 \<and> merchant_similarity ''Grab'' ''uber trip'' = Ok 0"
proof -
  have t: "merchant_tokens ''Grab Taxi'' = {''grab'', ''taxi''}" "merchant_tokens ''TAXI grab'' = {''grab'', ''taxi''}"
    "merchant_tokens ''Grab'' = {''grab''}" "merchant_tokens ''uber trip'' = {''uber'', ''trip''}"
    unfolding merchant_tokens_def by code_simp+
  show ?thesis using merchant_similarity_bounds [of "''Grab Taxi''" "''TAXI grab''"]
      merchant_similarity_bounds [of "''Grab''" "''uber trip''"] by (auto simp: t)
qed

end
