(* ===== verification/Recon_Record.thy ===== *)
theory Recon_Record
  imports Recon_Correctness
begin

text \<open>
  The record of a decision: when the matcher returns at all, the check of a stored record, and what
  the digest of a decision commits to.
\<close>

section \<open>When the matcher returns\<close>

definition writable :: "dec \<Rightarrow> bool" where
  "writable d \<longleftrightarrow> (\<exists>s. canonical_decimal_str (Finite d) = Ok s)"

lemma decimal_text_Ok: "(\<exists>t. decimal_text v = Ok t) \<longleftrightarrow> (\<forall>d. v = Some d \<longrightarrow> writable d)"
  by (auto simp: decimal_text_def writable_def result_simps split: option.splits)

lemma simple_optional_int [simp]: "simple (optional_int v)"
  by (simp add: optional_int_def split: option.splits)

lemma candidate_material_structured:
  assumes "candidate_material lib e = Ok m"
  shows "simple_items m" and "map fst m = [''candidate_public_id'', ''transaction_type'', ''transaction_date'', ''posted_date'',
    ''amount'', ''currency'', ''merchant_fingerprint'', ''merchant_normalized'', ''merchant_similarity_score'',
    ''date_delta_days'', ''comparison_date_source'', ''hard_gate_results'', ''compatibility_result'',
    ''compatibility_reason'', ''eligible'', ''evidence_reference'']"
  using assms by (auto simp: candidate_material_def Let_def result_simps list_all_iff)

lemma candidate_material_Ok:
  "(\<exists>m. candidate_material lib e = Ok m) \<longleftrightarrow>
   writable (ic_amount (ce_candidate e)) \<and> (\<forall>d. ce_merchant_similarity_score e = Some d \<longrightarrow> writable d)"
  unfolding decimal_text_Ok [symmetric] by (auto simp: candidate_material_def writable_def Let_def result_simps)

lemma sorted_candidate_material_Ok:
  "(\<exists>ms. sorted_candidate_material lib es = Ok ms) \<longleftrightarrow> (\<forall>e\<in>set es. \<exists>m. candidate_material lib e = Ok m)"
proof -
  have "(\<exists>ys. mapM f es = Ok ys) \<longleftrightarrow> (\<forall>e\<in>set es. \<exists>y. f e = Ok y)" for f :: "candidate_evaluation \<Rightarrow> (string \<times> py_object) result"
    by (induction es) (auto simp: result_simps)
  then show ?thesis by (auto simp: sorted_candidate_material_def result_simps)
qed

lemma sorted_candidate_material_structured:
  assumes "sorted_candidate_material lib es = Ok ms"
  shows "list_all structured ms"
proof -
  obtain ks where ks: "list_all2 (\<lambda>e y. rbind (candidate_material lib e) (\<lambda>m. Ok (ic_internal_id (ce_candidate e), mapping_of m)) = Ok y) es ks"
    and ms: "ms = map snd (sort_key fst ks)"
    using assms by (auto simp: sorted_candidate_material_def result_simps mapM_Ok_iff)
  have "list_all (\<lambda>y. structured (snd y)) ks" using ks
    by (induction rule: list_all2_induct) (auto simp: result_simps dest!: candidate_material_structured(1) structured_simple_items)
  then show ?thesis by (simp add: ms list_all_iff)
qed

lemma statement_material_items:
  assumes "statement_material lib st = Ok items"
  shows "simple_items items" and "map fst items = [''derived_identity'', ''public_id'', ''row_fingerprint'',
    ''source_content_hash'', ''source_batch_id'', ''row_reference'', ''original_amount_text'', ''original_amount_type'',
    ''original_amount_sign'', ''normalized_amount'', ''currency'', ''direction'', ''transaction_date'', ''posted_date'',
    ''merchant_fingerprint'', ''merchant_normalized'']"
  using assms by (auto simp: statement_material_def result_simps)

lemma derive_statement_identity_Ok:
  assumes "\<forall>d. st_amount st = Some d \<longrightarrow> writable d"
  shows "\<exists>i. derive_statement_identity lib st = Ok i"
proof -
  obtain t where t: "decimal_text (st_amount st) = Ok t" using assms decimal_text_Ok by blast
  have "structured (mapping_of
            [(''contract_version'', OStr STATEMENT_ID_DOMAIN),
             (''source_batch_id'', optional_str (st_source_batch_id st)),
             (''transaction_date'', optional_str (date_text (st_transaction_date st))),
             (''posted_date'', optional_str (date_text (st_posted_date st))),
             (''merchant_fingerprint'', OStr (text_fingerprint lib (st_merchant_raw st))),
             (''amount'', optional_str t),
             (''currency'', optional_str (st_currency st)),
             (''direction'', optional_str (direction_text (st_amount_direction st))),
             (''raw_amount'', optional_str (st_raw_amount st))])"
    by (rule structured_simple_items) simp
  then show ?thesis using t by (auto simp: derive_statement_identity_def structured_text split: option.splits)
qed

lemma statement_material_Ok:
  "(\<exists>items. statement_material lib st = Ok items) \<longleftrightarrow> (\<forall>d. st_amount st = Some d \<longrightarrow> writable d)"
  using derive_statement_identity_Ok [of st lib]
  unfolding decimal_text_Ok [symmetric] by (auto simp: statement_material_def result_simps)

lemma decision_material_structured:
  assumes "simple_items items" and "list_all structured candidates"
  shows "structured (decision_material params items fingerprint candidates r)"
  using structured_simple_items [OF assms(1)] assms(2)
  by (simp add: decision_material_def structured_mapping) (simp add: list_all_iff simple_structured)

lemma candidate_set_structured: "list_all structured candidates \<Longrightarrow> structured (candidate_set_material candidates)"
  by (simp add: candidate_set_material_def structured_mapping)

lemma build_decision_record_Ok:
  "(\<exists>rec. build_decision_record lib params st r es = Ok rec) \<longleftrightarrow>
   (\<exists>ms. sorted_candidate_material lib es = Ok ms) \<and> (\<exists>items. statement_material lib st = Ok items)"
proof (cases "sorted_candidate_material lib es")
  case (Inr ms)
  note m = sorted_candidate_material_structured [OF Inr]
  show ?thesis
  proof (cases "statement_material lib st")
    case items: (Inr items)
    show ?thesis
      using structured_text [OF candidate_set_structured [OF m]]
        structured_text [OF decision_material_structured [OF statement_material_items(1) [OF items] m]]
      by (simp add: build_decision_record_def Let_def Inr items)
  qed (use structured_text [OF candidate_set_structured [OF m]] in \<open>simp add: build_decision_record_def Let_def Inr\<close>)
qed (simp add: build_decision_record_def)

lemma sort_scored_returns:
  assumes "\<And>e d. e \<in> set es \<Longrightarrow> ce_merchant_similarity_score e = Some d \<Longrightarrow> small_decimal d" and "wf_context ctx"
  shows "\<exists>ss. sort_scored ctx es = Ok ss"
proof -
  have z: "small_decimal ZERO" by (simp add: small_decimal_def ZERO_def ndigits.simps)
  have "\<exists>n. dec_neg ctx (case ce_merchant_similarity_score e of None \<Rightarrow> ZERO | Some d \<Rightarrow> d) = Ok n" if "e \<in> set es" for e
    using assms that z by (auto intro!: dec_neg_small split: option.split)
  then have "\<exists>ys. mapM (\<lambda>e. rbind (dec_neg ctx (case ce_merchant_similarity_score e of None \<Rightarrow> ZERO | Some d \<Rightarrow> d))
    (\<lambda>n. Ok ((dval n, ic_internal_id (ce_candidate e)), e))) es = Ok ys"
    by (induction es) (fastforce simp: result_simps)+
  then show ?thesis by (auto simp: sort_scored_def result_simps)
qed

lemma decide_returns:
  assumes es: "list_all2 (\<lambda>c e. evaluate_with params statement c = Ok e) cs es" and w: "0 \<le> mp_posted_date_window_days params"
    and small: "\<And>e d. e \<in> set es \<Longrightarrow> ce_merchant_similarity_score e = Some d \<Longrightarrow> small_decimal d" and "wf_context ctx"
  shows "\<exists>q. decide ctx params statement cs es = Ok q"
proof -
  note el = eligible_candidates [OF es w]
  have "\<exists>q. result_from_evaluations ctx statement es n = Ok q" for n
  proof (cases "filter ce_eligible es = []")
    case True
    then show ?thesis using result_from_evaluations_unscored by blast
  next
    case False
    obtain ss where ss: "sort_scored ctx (filter ce_eligible es) = Ok ss"
      using sort_scored_returns [of "filter ce_eligible es" ctx] small assms(4) by auto
    then have m: "mset ss = mset (filter ce_eligible es)" by (rule sort_scored_mset)
    then have "ss \<noteq> []" using False by auto
    moreover have "ce_date_result e \<noteq> None" if "e \<in> set ss" for e
      using that el(3) [of e] mset_eq_setD [OF m] by (auto simp: date_passed_def split: option.splits)
    ultimately have "\<exists>q. result_from_scored statement ss n = Ok q"
      by (auto simp: result_from_scored_def split: list.splits option.splits)
    then show ?thesis using result_from_evaluations_scored [OF el(3) False] ss by simp
  qed
  then show ?thesis by (auto simp: decide_def split: option.splits)
qed

text \<open>Parameters that are not refused.\<close>

definition proper_parameters :: "matcher_parameters \<Rightarrow> bool" where
  "proper_parameters p \<longleftrightarrow> 0 \<le> mp_date_tolerance_days p \<and> 0 \<le> mp_posted_date_window_days p \<and>
     unit_interval (mp_merchant_similarity_threshold p) \<and> float_value (mp_merchant_similarity_threshold p)"

lemma match_statement_total:
  assumes "wf_context ctx" and "proper_parameters params" and "distinct (map ic_internal_id cs)"
  shows "(\<exists>r. match_statement lib ctx params st cs = Ok r) \<longleftrightarrow>
    (\<forall>a. st_amount st = Some a \<longrightarrow> writable a) \<and> (\<forall>c\<in>set cs. writable (ic_amount c))"
proof -
  have p: "unit_interval (mp_merchant_similarity_threshold params)" "float_value (mp_merchant_similarity_threshold params)"
    "0 \<le> mp_posted_date_window_days params" using assms(2) by (simp_all add: proper_parameters_def)
  obtain es where es: "mapM (evaluate_with params st) cs = Ok es"
    and small: "\<forall>e\<in>set es. \<forall>d. ce_merchant_similarity_score e = Some d \<longrightarrow> small_decimal d"
    using mapM_returns [of cs "evaluate_with params st", OF evaluate_with_returns [OF p(1,2)]] by blast
  have l: "list_all2 (\<lambda>c e. evaluate_with params st c = Ok e) cs es" using es by (simp add: mapM_Ok_iff)
  have cs: "map ce_candidate es = cs" using eligible_candidates(2) [OF l p(3)] .
  obtain q where q: "decide ctx params st cs es = Ok q" using decide_returns [OF l p(3)] small assms(1) by blast
  have "(\<exists>r. match_statement lib ctx params st cs = Ok r) \<longleftrightarrow> (\<exists>rec. build_decision_record lib params st q es = Ok rec)"
    using assms(2,3) es q
    by (auto simp: match_statement_def validate_matcher_parameters_def attach_decision_hash_def result_simps proper_parameters_def)
  also have "\<dots> \<longleftrightarrow> (\<forall>a. st_amount st = Some a \<longrightarrow> writable a) \<and> (\<forall>e\<in>set es. writable (ic_amount (ce_candidate e)))"
    unfolding build_decision_record_Ok sorted_candidate_material_Ok candidate_material_Ok statement_material_Ok
    using small canonical_small by (auto simp: writable_def)
  also have "(\<forall>e\<in>set es. writable (ic_amount (ce_candidate e))) \<longleftrightarrow> (\<forall>c\<in>set cs. writable (ic_amount c))"
    by (simp flip: cs)
  finally show ?thesis .
qed

section \<open>ASCII inputs\<close>

definition ascii_option :: "string option \<Rightarrow> bool" where
  "ascii_option v = (case v of None \<Rightarrow> True | Some s \<Rightarrow> ascii s)"

definition ascii_statement :: "statement_transaction \<Rightarrow> bool" where
  "ascii_statement st \<longleftrightarrow> ascii (st_merchant_raw st) \<and>
     list_all ascii_option [st_merchant_normalized st, st_currency st, st_source_batch_id st, st_statement_row_reference st,
       st_public_id st, st_row_fingerprint st, st_source_content_hash st, st_raw_amount st, st_raw_amount_type st]"

definition ascii_candidate :: "internal_candidate \<Rightarrow> bool" where
  "ascii_candidate c \<longleftrightarrow> ascii (ic_internal_id c) \<and> ascii (ic_merchant c) \<and> ascii (ic_currency c) \<and>
     ascii_option (ic_evidence_reference c)"

definition ascii_parameters :: "matcher_parameters \<Rightarrow> bool" where
  "ascii_parameters p \<longleftrightarrow> ascii (mp_matcher_version p) \<and> ascii (mp_compatibility_version p) \<and>
     ascii (mp_merchant_normalization_version p) \<and> ascii_option (mp_authorization_public_id p)"

lemma ascii_optional_text [simp]: "ascii_object (optional_str v) \<longleftrightarrow> ascii_option v"
  by (simp add: optional_str_def ascii_option_def split: option.splits)

lemma ascii_optional_int [simp]: "ascii_object (optional_int v)"
  by (simp add: optional_int_def split: option.splits)

lemma ascii_values [simp]:
  "ascii (match_status_value s)" "ascii (reason_code_value c)" "ascii (direction_value d)" "ascii (transaction_type_value t)"
  "ascii (compatibility_value k)" "ascii (original_sign_value g)"
proof -
  show "ascii (match_status_value s)" by (cases s) simp_all
  show "ascii (reason_code_value c)" by (cases c) simp_all
  show "ascii (direction_value d)" by (cases d) simp_all
  show "ascii (transaction_type_value t)" by (cases t) simp_all
  show "ascii (compatibility_value k)" by (cases k) simp_all
  show "ascii (original_sign_value g)" by (cases g) simp_all
qed

lemma ascii_lower [simp]: "ascii s \<Longrightarrow> ascii (py_lower s)"
proof -
  have "of_char c < (128 :: nat) \<Longrightarrow> of_char (char_lower c) < (128 :: nat)" for c
    by (simp add: char_lower_def Let_def)
  then show "ascii s \<Longrightarrow> ascii (py_lower s)" by (auto simp: ascii_def py_lower_def list_all_iff)
qed

lemma ascii_strip [simp]: "ascii s \<Longrightarrow> ascii (py_strip s)"
  by (auto simp: ascii_def py_strip_def list_all_iff dest!: set_dropWhileD)

lemma ascii_normalize_merchant [simp]: "ascii s \<Longrightarrow> ascii (normalize_merchant s)"
proof -
  have "list_all (\<lambda>kv. ascii (snd kv)) MERCHANT_ALIAS_MAP" by code_simp
  then have "ascii v" if "dget MERCHANT_ALIAS_MAP k = Some v" for k v
    using that by (auto simp: dget_def list_all_iff dest!: map_of_SomeD)
  then show "ascii s \<Longrightarrow> ascii (normalize_merchant s)"
    by (auto simp: normalize_merchant_def Let_def dget_or_def dget_def split: option.splits)
qed

lemma ascii_float_text [simp]: "ascii (float_text f)"
  by (auto simp: float_text_def float_repr_def exponent_text_def zeros_text_def Let_def split: py_float.split prod.split)

lemma ascii_texts [simp]:
  "decimal_text v = Ok t \<Longrightarrow> ascii_option t" "ascii_option (date_text d)" "ascii_option (direction_text a)"
  by (auto simp: decimal_text_def ascii_option_def date_text_def direction_text_def result_simps ascii_canonical_decimal
      split: option.splits)

lemma ascii_digest [simp]:
  assumes "digest_shape (sha256 lib)"
  shows "ascii (text_fingerprint lib s)" "ascii (decision_domain_hash lib d t)" "is_sha256 (decision_domain_hash lib d t)"
  using assms hexdigest_hex ascii_hex
  by (auto simp: text_fingerprint_def decision_domain_hash_def domain_hash_def digest_shape_def is_sha256_def)

lemma ascii_matched_on [simp]: "ascii (dm_matched_on (match_date_window a t p n w))"
  by (auto simp: match_date_window_def date_match_def Let_def split: option.splits)

lemma ascii_evaluation:
  assumes "evaluate_with params st c = Ok e" and "ascii_candidate c"
  shows "list_all ascii (ce_hard_gate_results e)" and "ascii_option (ce_candidate_merchant_normalized e)"
    and "ascii_option (map_option dm_matched_on (ce_date_result e))"
proof -
  have m: "list_all ascii gates \<Longrightarrow> ascii (dm_matched_on dr) \<Longrightarrow> evaluate_merchant st c t k gates dr = Ok e \<Longrightarrow>
    list_all ascii (ce_hard_gate_results e) \<and> ascii_option (ce_candidate_merchant_normalized e) \<and>
    ascii_option (map_option dm_matched_on (ce_date_result e))" for gates dr t k
    using assms(2) by (auto simp: evaluate_merchant_def Let_def result_simps ascii_option_def ascii_candidate_def)
  have "list_all ascii (ce_hard_gate_results e) \<and> ascii_option (ce_candidate_merchant_normalized e) \<and>
    ascii_option (map_option dm_matched_on (ce_date_result e))"
    using assms(1) unfolding evaluate_with_def evaluate_candidate_def Let_def
    by (auto simp: rejected_evaluation_def ascii_option_def [of None] ascii_option_def [of "Some _"] simp del: reason_code_value.simps
        split: if_splits prod.splits intro!: m [THEN conjunct1] m [THEN conjunct2, THEN conjunct1] m [THEN conjunct2, THEN conjunct2])
  then show "list_all ascii (ce_hard_gate_results e)" "ascii_option (ce_candidate_merchant_normalized e)"
    "ascii_option (map_option dm_matched_on (ce_date_result e))" by blast+
qed

lemma ascii_candidate_material:
  assumes "candidate_material lib e = Ok m" and "evaluate_with params st c = Ok e" and "0 \<le> mp_posted_date_window_days params"
    and "ascii_candidate c" and "digest_shape (sha256 lib)"
  shows "ascii_items m"
proof -
  have c: "ce_candidate e = c" using assms(2,3) by (rule evaluate_with_Ok)
  show ?thesis using assms(1,4,5) ascii_evaluation [OF assms(2,4)]
    by (auto simp: candidate_material_def Let_def result_simps c ascii_candidate_def ascii_canonical_decimal list_all_iff)
qed

abbreviation evaluation_id :: "candidate_evaluation \<Rightarrow> string" where
  "evaluation_id e \<equiv> ic_internal_id (ce_candidate e)"

lemma ascii_sorted_material:
  assumes "list_all2 (\<lambda>c e. evaluate_with params st c = Ok e) cs es" and "0 \<le> mp_posted_date_window_days params"
    and "list_all ascii_candidate cs" and "digest_shape (sha256 lib)" and "sorted_candidate_material lib es = Ok ms"
  shows "list_all ascii_object ms"
proof -
  obtain ks where ks: "list_all2 (\<lambda>e y. rbind (candidate_material lib e) (\<lambda>m. Ok (evaluation_id e, mapping_of m)) = Ok y) es ks"
    and ms: "ms = map snd (sort_key fst ks)"
    using assms(5) by (auto simp: sorted_candidate_material_def result_simps mapM_Ok_iff)
  have "ascii_object (snd y)" if y: "y \<in> set ks" for y
  proof -
    obtain e where e: "e \<in> set es" "rbind (candidate_material lib e) (\<lambda>m. Ok (evaluation_id e, mapping_of m)) = Ok y"
      using list_all2_member [OF ks y] by blast
    then obtain m where m: "candidate_material lib e = Ok m" "snd y = mapping_of m" by (auto simp: result_simps)
    obtain c where c: "c \<in> set cs" "evaluate_with params st c = Ok e" using list_all2_member [OF assms(1) e(1)] by blast
    have "ascii_candidate c" using assms(3) c(1) by (simp add: list_all_iff)
    then show ?thesis using ascii_candidate_material [OF m(1) c(2) assms(2) _ assms(4)] unfolding m(2) ascii_mapping by blast
  qed
  then show ?thesis by (simp add: ms list_all_iff)
qed

lemma ascii_statement_merchant [simp]: "ascii_statement st \<Longrightarrow> ascii (statement_merchant st)"
  by (auto simp: statement_merchant_def str_or_def ascii_statement_def ascii_option_def split: option.splits)

lemma ascii_identity:
  assumes "derive_statement_identity lib st = Ok i" and "ascii_statement st" and "digest_shape (sha256 lib)"
  shows "ascii i"
proof -
  let ?ids = "[st_public_id st, st_row_fingerprint st, st_statement_row_reference st]"
  have ids: "ascii_option v" if "v \<in> set ?ids" for v using assms(2) that by (auto simp: ascii_statement_def)
  show ?thesis
  proof (cases "List.find (\<lambda>v. \<not> present_blank v \<and> v \<noteq> None) ?ids")
    case (Some v)
    then obtain s where s: "v = Some s" "ascii_option v" using find_SomeD [OF Some] ids by blast
    then have "i = py_strip s" using assms(1) unfolding derive_statement_identity_def Some option.case by simp
    then show ?thesis using s by (simp add: ascii_option_def)
  next
    case None
    then show ?thesis using assms(1,3) unfolding derive_statement_identity_def None option.case
      by (auto simp only: result_simps sum.inject ascii_digest)
  qed
qed

lemma ascii_statement_material:
  assumes "statement_material lib st = Ok items" and "ascii_statement st" and "digest_shape (sha256 lib)"
  shows "ascii_items items"
  using assms ascii_identity [of lib st]
  by (auto simp: statement_material_def result_simps) (auto simp: ascii_statement_def)

lemma ascii_decision_material:
  assumes "ascii_items items" and "list_all ascii_object candidates" and "ascii fingerprint" and "ascii_parameters params"
    and "ascii_option (map_option ic_internal_id (mr_best_candidate r))"
  shows "ascii_object (decision_material params items fingerprint candidates r)"
proof -
  have "ascii DECISION_CONTRACT_VERSION" by code_simp
  then show ?thesis using assms
    by (simp add: decision_material_def ascii_mapping ascii_parameters_def) (simp add: list_all_iff)
qed

lemma canonical_text_verifies:
  assumes "canonical_json_text v = Ok t" and "ascii_object v" and "digest_shape (sha256 lib)"
  shows "verify_persisted_decision_hash lib (decision_domain_hash lib DECISION_HASH_DOMAIN t) t"
proof -
  obtain j where j: "plain j" "dumps (envelope j) = Ok t" "loads t = Some (envelope (sort_keys j))"
    by (rule canonical_json_text_Ok [OF assms(1,2)]) (rule that)
  have "normalize (json_object (sort_keys j)) = Ok (sort_keys j)" using plain_sort_keys [OF j(1)] by (rule normalize_json_object)
  then have "canonical_json_text (json_object (sort_keys j)) = Ok t"
    using j(2) dumps_sort_keys [of "envelope j"] by (simp add: canonical_json_text_def sort_envelope)
  moreover have "CANONICAL_JSON_CONTRACT_VERSION = ''finance-canonical-json-v1''" by (simp add: CANONICAL_JSON_CONTRACT_VERSION_def)
  ultimately show ?thesis using j(3) assms(3)
    by (simp add: verify_persisted_decision_hash_def envelope_def dkeys_def dget_def)
qed

lemma match_status_value_inject: "match_status_value s = match_status_value t \<longleftrightarrow> s = t"
  by (cases s; cases t) simp_all

lemma reason_code_value_inject: "reason_code_value s = reason_code_value t \<longleftrightarrow> s = t"
  by (cases s; cases t) simp_all

text \<open>The parts of a decision's record.\<close>

lemma decision_record_parts:
  assumes "match_statement lib ctx params st cs = Ok r" and "digest_shape (sha256 lib)"
    and "ascii_statement st" and "list_all ascii_candidate cs" and "ascii_parameters params"
  obtains items fp ms t where "statement_material lib st = Ok items" and "list_all structured ms"
    and "canonical_json_text (decision_material params items fp ms r) = Ok t"
    and "ascii_object (decision_material params items fp ms r)"
    and "mr_decision_material_json r = Some t"
    and "mr_decision_hash r = Some (decision_domain_hash lib DECISION_HASH_DOMAIN t)"
proof -
  obtain es q where w: "0 \<le> mp_posted_date_window_days params"
    and es: "list_all2 (\<lambda>c e. evaluate_with params st c = Ok e) cs es"
    and q: "decide ctx params st cs es = Ok q" and r: "attach_decision_hash lib params q st es = Ok r"
    using assms(1) by (rule match_statement_Ok)
  obtain rec where rec: "build_decision_record lib params st q es = Ok rec" and
    rq: "mr_status r = mr_status q" "mr_reasons r = mr_reasons q" "mr_best_candidate r = mr_best_candidate q" and
    json: "mr_decision_material_json r = Some (dr_decision_material_json rec)" "mr_decision_hash r = Some (dr_decision_hash rec)"
    using r by (rule attach_decision_hash_Ok)
  obtain ms c items t where ms: "sorted_candidate_material lib es = Ok ms" and items: "statement_material lib st = Ok items"
    and t': "canonical_json_text (decision_material params items (decision_domain_hash lib CANDIDATE_HASH_DOMAIN c) ms q) = Ok t"
    and d: "dr_decision_hash rec = decision_domain_hash lib DECISION_HASH_DOMAIN t" "dr_decision_material_json rec = t"
    using rec by (auto simp: build_decision_record_def Let_def result_simps)
  define fp where "fp = decision_domain_hash lib CANDIDATE_HASH_DOMAIN c"
  have fp: "ascii fp" using assms(2) by (simp add: fp_def)
  note t = t' [folded fp_def]
  have best: "ascii_option (map_option ic_internal_id (mr_best_candidate r))"
  proof (cases "mr_best_candidate r")
    case (Some c)
    then have "(case filter (passes_gates params st) cs of [c] \<Rightarrow> Some c | _ \<Rightarrow> None) = Some c"
      using decide_best [OF q w es] rq(3) by (auto split: if_splits)
    then have "filter (passes_gates params st) cs = [c]" by (auto split: list.splits)
    then have "c \<in> set (filter (passes_gates params st) cs)" by simp
    then have "c \<in> set cs" by simp
    then show ?thesis using assms(4) Some by (simp add: list_all_iff ascii_candidate_def ascii_option_def)
  qed (simp add: ascii_option_def)
  have eq: "decision_material params items fp ms q = decision_material params items fp ms r"
    using rq by (simp add: decision_material_def)
  have "ascii_object (decision_material params items fp ms r)"
    using ascii_statement_material [OF items assms(3,2)] ascii_sorted_material [OF es w assms(4,2) ms] fp assms(5) best
    by (rule ascii_decision_material)
  then show ?thesis using items sorted_candidate_material_structured [OF ms] t d json unfolding eq by (intro that) simp_all
qed

definition decision_preimage :: "string \<Rightarrow> bytes" where
  "decision_preimage t = encode DECISION_HASH_DOMAIN @ [0] @ encode t"

lemma decision_hash_same:
  assumes "digest_shape (sha256 lib)"
    and "decision_domain_hash lib DECISION_HASH_DOMAIN t = decision_domain_hash lib DECISION_HASH_DOMAIN u"
  shows "t = u \<or> collision (sha256 lib) (decision_preimage t) (decision_preimage u)"
  using same_digest [OF assms(1), of "decision_preimage t" "decision_preimage u"] assms(2)
  by (auto simp: decision_domain_hash_def domain_hash_def decision_preimage_def)

lemma verify_persisted_hash:
  assumes "verify_persisted_decision_hash lib h u"
  shows "decision_domain_hash lib DECISION_HASH_DOMAIN u = h"
proof -
  obtain kvs where l: "loads u = Some (JObj kvs)"
    using assms by (simp add: verify_persisted_decision_hash_def split: option.split_asm json.split_asm)
  obtain v where v: "dget kvs ''value'' = Some v"
    using assms by (cases "dget kvs ''value''") (simp_all add: verify_persisted_decision_hash_def l)
  show ?thesis
    using assms by (cases "canonical_json_text (json_object v)") (simp_all add: verify_persisted_decision_hash_def l v)
qed

lemma decision_material_inject:
  assumes "simple_items items" and "simple_items items'" and "map fst items = map fst items'"
    and "list_all structured ms" and "list_all structured ms'"
    and eq: "sort_keys (object_json (decision_material params items fp ms r)) =
      sort_keys (object_json (decision_material params' items' fp' ms' r'))"
  shows "items = items' \<and> mr_status r = mr_status r' \<and> mr_reasons r = mr_reasons r' \<and>
      map_option ic_internal_id (mr_best_candidate r) = map_option ic_internal_id (mr_best_candidate r')"
proof -
  have st: "structured (decision_material params items fp ms r)" using assms(1,4) by (rule decision_material_structured)
  note fields = sort_mapping_fields [OF st [unfolded decision_material_def] _ eq [unfolded decision_material_def]]
  have "sort_keys (object_json (mapping_of items)) = sort_keys (object_json (mapping_of items'))"
    using arg_cong [OF fields, of "\<lambda>xs. xs ! 4"] by simp
  then have "items = items'" by (rule simple_mapping_inject [OF assms(1,2,3)])
  moreover
  let ?f = "\<lambda>params r. [(''status'', OStr (match_status_value (mr_status r))),
           (''reason_codes'', OList (map (\<lambda>c. OStr (reason_code_value c)) (mr_reasons r))),
           (''best_candidate_public_id'', optional_str (map_option ic_internal_id (mr_best_candidate r))),
           (''authorization_public_id'', optional_str (mp_authorization_public_id params))]"
  have "sort_keys (object_json (mapping_of (?f params r))) = sort_keys (object_json (mapping_of (?f params' r')))"
    using arg_cong [OF fields, of "\<lambda>xs. xs ! 8"] by simp
  then have "?f params r = ?f params' r'" by (rule simple_mapping_inject [rotated 3]) (simp_all add: list_all_iff)
  moreover have "map (\<lambda>c. OStr (reason_code_value c)) xs = map (\<lambda>c. OStr (reason_code_value c)) ys \<longleftrightarrow> xs = ys" for xs ys
    by (rule inj_map_eq_map) (simp add: inj_on_def reason_code_value_inject)
  ultimately show ?thesis by (simp add: match_status_value_inject)
qed

section \<open>An example\<close>

definition sample_statement :: statement_transaction where
  "sample_statement =
     \<lparr>st_transaction_date = Some (Date 2024 5 1), st_posted_date = None, st_merchant_raw = ''Grab Taxi'',
      st_merchant_normalized = None, st_amount = Some (Dec False 1250 (- 2)), st_currency = Some ''SGD'',
      st_account_name = None, st_account_id = None, st_source_batch_id = None, st_statement_row_reference = None,
      st_public_id = Some ''st-1'', st_row_fingerprint = None, st_source_content_hash = None,
      st_amount_direction = Some DEBIT, st_raw_amount = Some ''12.50'', st_raw_amount_type = None\<rparr>"

definition sample_candidate :: "string \<Rightarrow> nat \<Rightarrow> internal_candidate" where
  "sample_candidate i n =
     \<lparr>ic_internal_id = i, ic_transaction_date = Date 2024 5 1, ic_merchant = ''GRAB'', ic_amount = Dec False n (- 1),
      ic_currency = ''sgd'', ic_source_type = None, ic_source_channel = None, ic_attachment_path = None,
      ic_evidence_reference = None, ic_transaction_type = Some (TypeText ''expense''), ic_posted_date = None\<rparr>"

abbreviation sample_pool :: "internal_candidate list" where
  "sample_pool \<equiv> [sample_candidate ''a-1'' 125, sample_candidate ''a-2'' 90]"

lemma sample_writable: "writable (Dec False 1250 (- 2))" "writable (Dec False 125 (- 1))" "writable (Dec False 90 (- 1))"
proof -
  have "canonical_decimal_str (Finite (Dec False 1250 (- 2))) = Ok ''12.5''"
    "canonical_decimal_str (Finite (Dec False 125 (- 1))) = Ok ''12.5''"
    "canonical_decimal_str (Finite (Dec False 90 (- 1))) = Ok ''9''" by code_simp+
  then show "writable (Dec False 1250 (- 2))" "writable (Dec False 125 (- 1))" "writable (Dec False 90 (- 1))"
    by (simp_all add: writable_def)
qed

lemma default_proper: "proper_parameters default_parameters"
  by (simp add: proper_parameters_def default_parameters_def unit_interval_def float_value_def to_float_half)

lemma default_wf: "wf_context default_context"
  by code_simp

lemma sample_returns:
  obtains r where "match_statement sample_lib default_context default_parameters sample_statement sample_pool = Ok r"
  using match_statement_total [OF default_wf default_proper, of sample_pool sample_lib sample_statement] sample_writable
  by (auto simp: sample_candidate_def sample_statement_def)

lemma sample_ascii_inputs:
  "ascii_statement sample_statement" "list_all ascii_candidate sample_pool" "ascii_parameters default_parameters"
  by code_simp+

lemma sample_gates:
  "statement_precheck sample_statement = None" "passes_gates default_parameters sample_statement (sample_candidate ''a-1'' 125)"
  "\<not> passes_gates default_parameters sample_statement (sample_candidate ''a-2'' 90)"
proof -
  show "statement_precheck sample_statement = None" by code_simp
  have c: "currency_match (st_currency sample_statement) (Some (ic_currency (sample_candidate ''a-1'' 125)))"
    "normalize_transaction_type (sample_candidate ''a-1'' 125) = TT_EXPENSE"
    "py_lower (statement_merchant sample_statement) = py_lower (normalize_merchant ''GRAB'')" by code_simp+
  show "passes_gates default_parameters sample_statement (sample_candidate ''a-1'' 125)"
    using c by (simp add: passes_gates_def date_gate_def merchant_gate_def sample_statement_def sample_candidate_def dval_def)
  show "\<not> passes_gates default_parameters sample_statement (sample_candidate ''a-2'' 90)"
    by (simp add: passes_gates_def sample_statement_def sample_candidate_def dval_def)
qed

section \<open>Properties\<close>

text \<open>
  C30 When a statement is matched. A statement passes the matcher as matched exactly when its own
  fields pass the precheck and one and only one candidate passes every gate: the currency, the
  direction, the exact amount, the date, and the merchant. That candidate, and no other, is the best
  candidate of the result.
\<close>

theorem match_statement_exact:
  assumes "match_statement lib ctx params statement candidates = Ok r"
  shows "(mr_status r = MS_MATCHED \<longleftrightarrow>
      statement_precheck statement = None \<and> (\<exists>!c. c \<in> set candidates \<and> passes_gates params statement c)) \<and>
    (\<forall>c. mr_best_candidate r = Some c \<longleftrightarrow>
      statement_precheck statement = None \<and> c \<in> set candidates \<and> passes_gates params statement c \<and>
      (\<forall>d\<in>set candidates. passes_gates params statement d \<longrightarrow> d = c))"
proof -
  have "distinct (map ic_internal_id candidates)" using assms by (rule match_statement_Ok)
  then have "distinct candidates" by (simp add: distinct_map)
  note best = filter_singleton_iff [OF this, of "passes_gates params statement"]
  show ?thesis using match_statement_best [OF assms]
    by (cases "statement_precheck statement = None") (simp_all add: best not_None_eq, blast)
qed


theorem match_statement_exact_witness:
  "\<exists>r. match_statement sample_lib default_context default_parameters sample_statement sample_pool = Ok r \<and>
     mr_status r = MS_MATCHED \<and> mr_best_candidate r = Some (sample_candidate ''a-1'' 125)"
proof -
  obtain r where r: "match_statement sample_lib default_context default_parameters sample_statement sample_pool = Ok r"
    by (rule sample_returns)
  have "sample_candidate ''a-1'' 125 \<noteq> sample_candidate ''a-2'' 90" by (simp add: sample_candidate_def)
  then show ?thesis using r match_statement_exact [OF r] sample_gates by auto
qed

text \<open>
  C36 When the matcher returns. With a proper decimal context and a threshold that is a float, the
  matcher returns a result exactly when the parameters are in range, the candidates' ids differ, and
  every amount has a canonical text; the similarity scores never stop it.
\<close>

theorem match_statement_returns:
  assumes "wf_context ctx" and "float_value (mp_merchant_similarity_threshold params)"
  shows "(\<exists>r. match_statement lib ctx params statement candidates = Ok r) \<longleftrightarrow>
    0 \<le> mp_date_tolerance_days params \<and> 0 \<le> mp_posted_date_window_days params \<and>
    unit_interval (mp_merchant_similarity_threshold params) \<and> distinct (map ic_internal_id candidates) \<and>
    (\<forall>a. st_amount statement = Some a \<longrightarrow> writable a) \<and> (\<forall>c\<in>set candidates. writable (ic_amount c))"
proof (cases "proper_parameters params \<and> distinct (map ic_internal_id candidates)")
  case True
  then show ?thesis using match_statement_total [OF assms(1)] by (auto simp: proper_parameters_def)
next
  case False
  then have "\<nexists>r. match_statement lib ctx params statement candidates = Ok r"
    using assms(2) by (auto simp: match_statement_def validate_matcher_parameters_def proper_parameters_def result_simps)
  then show ?thesis using False assms(2) by (auto simp: proper_parameters_def)
qed

theorem match_statement_returns_witness:
  "(\<exists>r. match_statement sample_lib default_context default_parameters sample_statement sample_pool = Ok r) \<and>
   (\<nexists>r. match_statement sample_lib default_context default_parameters sample_statement
      [sample_candidate ''a-1'' 125, sample_candidate ''a-1'' 90] = Ok r)"
proof -
  have "float_value (mp_merchant_similarity_threshold default_parameters)" using default_proper by (simp add: proper_parameters_def)
  note ret = match_statement_returns [OF default_wf this, of sample_lib sample_statement]
  show ?thesis using ret [of sample_pool] ret [of "[sample_candidate ''a-1'' 125, sample_candidate ''a-1'' 90]"]
      default_proper sample_writable
    by (simp add: proper_parameters_def) (simp add: sample_candidate_def sample_statement_def)
qed

text \<open>
  C34 A recorded decision verifies. The hash and the text that the matcher records pass the check of
  stored decisions, and any other text that passes it with the same hash collides with the recorded one.
\<close>

theorem decision_record_verifies:
  assumes "match_statement lib ctx params st cs = Ok r" and "digest_shape (sha256 lib)"
    and "ascii_statement st" and "list_all ascii_candidate cs" and "ascii_parameters params"
  shows "\<exists>h t. mr_decision_hash r = Some h \<and> mr_decision_material_json r = Some t \<and>
    verify_persisted_decision_hash lib h t \<and>
    (\<forall>u. verify_persisted_decision_hash lib h u \<longrightarrow>
       u = t \<or> collision (sha256 lib) (decision_preimage t) (decision_preimage u))"
proof -
  obtain items fp ms t where t: "canonical_json_text (decision_material params items fp ms r) = Ok t"
    "ascii_object (decision_material params items fp ms r)" "mr_decision_material_json r = Some t"
    "mr_decision_hash r = Some (decision_domain_hash lib DECISION_HASH_DOMAIN t)"
    by (rule decision_record_parts [OF assms]) (rule that)
  let ?h = "decision_domain_hash lib DECISION_HASH_DOMAIN t"
  have "verify_persisted_decision_hash lib ?h t" using t(1,2) assms(2) by (rule canonical_text_verifies)
  moreover have "u = t \<or> collision (sha256 lib) (decision_preimage t) (decision_preimage u)"
    if "verify_persisted_decision_hash lib ?h u" for u
    using decision_hash_same [OF assms(2), of t u] verify_persisted_hash [OF that] by auto
  ultimately show ?thesis using t by blast
qed

theorem decision_record_verifies_witness:
  "\<exists>r h t. match_statement sample_lib default_context default_parameters sample_statement sample_pool = Ok r \<and>
     mr_decision_hash r = Some h \<and> mr_decision_material_json r = Some t \<and> verify_persisted_decision_hash sample_lib h t"
proof -
  obtain r where r: "match_statement sample_lib default_context default_parameters sample_statement sample_pool = Ok r"
    by (rule sample_returns)
  show ?thesis using r decision_record_verifies [OF r sample_shape sample_ascii_inputs] by blast
qed

text \<open>
  C33 What the hash of a decision commits to. Two decisions with the same hash agree on the status, the
  reasons, the best candidate's id and everything recorded of the statement, or their texts collide.
\<close>

theorem decision_hash_commits:
  assumes "match_statement lib ctx params st cs = Ok r" and "match_statement lib ctx' params' st' cs' = Ok r'"
    and "digest_shape (sha256 lib)"
    and "ascii_statement st" and "list_all ascii_candidate cs" and "ascii_parameters params"
    and "ascii_statement st'" and "list_all ascii_candidate cs'" and "ascii_parameters params'"
    and "mr_decision_hash r = mr_decision_hash r'"
  shows "mr_status r = mr_status r' \<and> mr_reasons r = mr_reasons r' \<and>
      map_option ic_internal_id (mr_best_candidate r) = map_option ic_internal_id (mr_best_candidate r') \<and>
      statement_material lib st = statement_material lib st' \<or>
    (\<exists>t t'. mr_decision_material_json r = Some t \<and> mr_decision_material_json r' = Some t' \<and>
      collision (sha256 lib) (decision_preimage t) (decision_preimage t'))"
proof -
  obtain items fp ms t where items: "statement_material lib st = Ok items" and ms: "list_all structured ms"
    and t: "canonical_json_text (decision_material params items fp ms r) = Ok t"
    and asc: "ascii_object (decision_material params items fp ms r)" and j: "mr_decision_material_json r = Some t"
    and h: "mr_decision_hash r = Some (decision_domain_hash lib DECISION_HASH_DOMAIN t)"
    by (rule decision_record_parts [OF assms(1,3-6)]) (rule that)
  obtain items' fp' ms' t' where items': "statement_material lib st' = Ok items'" and ms': "list_all structured ms'"
    and t': "canonical_json_text (decision_material params' items' fp' ms' r') = Ok t'"
    and asc': "ascii_object (decision_material params' items' fp' ms' r')" and j': "mr_decision_material_json r' = Some t'"
    and h': "mr_decision_hash r' = Some (decision_domain_hash lib DECISION_HASH_DOMAIN t')"
    by (rule decision_record_parts [OF assms(2,3,7-9)]) (rule that)
  show ?thesis
  proof (cases "t = t'")
    case True
    have "items = items' \<and> mr_status r = mr_status r' \<and> mr_reasons r = mr_reasons r' \<and>
      map_option ic_internal_id (mr_best_candidate r) = map_option ic_internal_id (mr_best_candidate r')"
    proof (rule decision_material_inject)
      show "simple_items items" "simple_items items'" "map fst items = map fst items'"
        using statement_material_items [OF items] statement_material_items [OF items'] by simp_all
      show "list_all structured ms" "list_all structured ms'" by (rule ms, rule ms')
      show "sort_keys (object_json (decision_material params items fp ms r)) =
        sort_keys (object_json (decision_material params' items' fp' ms' r'))"
        using statement_material_items(1) [OF items] statement_material_items(1) [OF items'] ms ms' asc asc' t t' True
        by (intro structured_text_inject decision_material_structured) simp_all
    qed
    then show ?thesis using items items' by simp
  next
    case False
    then show ?thesis using decision_hash_same [OF assms(3), of t t'] assms(10) h h' j j' by auto
  qed
qed

theorem decision_hash_commits_witness:
  "\<exists>r. match_statement sample_lib default_context default_parameters sample_statement sample_pool = Ok r \<and>
     (mr_status r = mr_status r \<and> mr_reasons r = mr_reasons r \<and>
      map_option ic_internal_id (mr_best_candidate r) = map_option ic_internal_id (mr_best_candidate r) \<and>
      statement_material sample_lib sample_statement = statement_material sample_lib sample_statement \<or>
      (\<exists>t t'. mr_decision_material_json r = Some t \<and> mr_decision_material_json r = Some t' \<and>
        collision (sha256 sample_lib) (decision_preimage t) (decision_preimage t')))"
proof -
  obtain r where r: "match_statement sample_lib default_context default_parameters sample_statement sample_pool = Ok r"
    by (rule sample_returns)
  show ?thesis using r decision_hash_commits [OF r r sample_shape sample_ascii_inputs sample_ascii_inputs refl] by blast
qed

end
