(* ===== verification/Recon_Order.thy ===== *)
theory Recon_Order
  imports Recon_Record
begin

text \<open>
  Matching does not depend on the order in which the candidates are given.
\<close>

section \<open>The order of the candidates\<close>

lemma mapM_mset:
  assumes "mapM f xs = Ok ys" and "mset xs' = mset xs"
  obtains ys' where "mapM f xs' = Ok ys'" and "mset ys' = mset ys"
proof -
  let ?g = "\<lambda>x. case f x of Inr y \<Rightarrow> y"
  have l: "list_all2 (\<lambda>x y. f x = Ok y) xs ys" using assms(1) by (simp add: mapM_Ok_iff)
  then have ys: "ys = map ?g xs" by (induction rule: list_all2_induct) simp_all
  have "f x = Ok (?g x)" if "x \<in> set xs" for x using l that by (fastforce simp: in_set_conv_nth list_all2_conv_all_nth)
  then have "mapM f xs' = Ok (map ?g xs')" using mset_eq_setD [OF assms(2)] by (intro mapM_eq_map) simp
  then show ?thesis using assms(2) ys by (intro that [of "map ?g xs'"]) simp_all
qed

text \<open>Results that are told apart by their keys are sorted the same way from any order.\<close>

lemma mapM_sort_perm:
  fixes f :: "'a \<Rightarrow> ('k :: linorder \<times> 'b) result"
  assumes "mapM f xs = Ok ks" and "mset xs' = mset xs"
    and "\<And>x y k l. x \<in> set xs \<Longrightarrow> y \<in> set xs \<Longrightarrow> f x = Ok k \<Longrightarrow> f y = Ok l \<Longrightarrow> fst k = fst l \<Longrightarrow> k = l"
  obtains ks' where "mapM f xs' = Ok ks'" and "sort_key fst ks' = sort_key fst ks"
proof -
  obtain ks' where ks': "mapM f xs' = Ok ks'" "mset ks' = mset ks" using assms(1,2) by (rule mapM_mset)
  have mem: "\<exists>x\<in>set xs. f x = Ok k" if "k \<in> set ks" for k
    using that assms(1) by (fastforce simp: mapM_Ok_iff in_set_conv_nth list_all2_conv_all_nth)
  have "inj_on fst (set ks')" unfolding mset_eq_setD [OF ks'(2)]
    by (rule inj_onI) (use mem assms(3) in blast)
  then have "sort_key fst ks' = sort_key fst ks" by (intro sort_key_inj_key_eq) (simp_all add: ks'(2))
  then show ?thesis using ks'(1) by (intro that)
qed

lemma sorted_candidate_material_perm:
  assumes "mset es' = mset es" and "inj_on evaluation_id (set es)" and "sorted_candidate_material lib es = Ok ms"
  shows "sorted_candidate_material lib es' = Ok ms"
proof -
  let ?f = "\<lambda>e. rbind (candidate_material lib e) (\<lambda>m. Ok (evaluation_id e, mapping_of m))"
  obtain ks where ks: "mapM ?f es = Ok ks" "ms = map snd (sort_key fst ks)"
    using assms(3) by (auto simp: sorted_candidate_material_def result_simps)
  obtain ks' where "mapM ?f es' = Ok ks'" "sort_key fst ks' = sort_key fst ks"
    using ks(1) assms(1) by (rule mapM_sort_perm) (use assms(2) in \<open>auto simp: result_simps inj_on_def\<close>)
  then show ?thesis using ks(2) by (simp add: sorted_candidate_material_def)
qed

lemma sort_scored_perm:
  assumes "mset es' = mset es" and "inj_on evaluation_id (set es)" and "sort_scored ctx es = Ok ss"
  shows "sort_scored ctx es' = Ok ss"
proof -
  let ?f = "\<lambda>e. rbind (dec_neg ctx (case ce_merchant_similarity_score e of None \<Rightarrow> ZERO | Some d \<Rightarrow> d)) (\<lambda>n.
       Ok ((dval n, evaluation_id e), e))"
  obtain ks where ks: "mapM ?f es = Ok ks" "ss = map snd (sort_key fst ks)"
    using assms(3) by (auto simp: sort_scored_def result_simps)
  obtain ks' where "mapM ?f es' = Ok ks'" "sort_key fst ks' = sort_key fst ks"
    using ks(1) assms(1) by (rule mapM_sort_perm) (use assms(2) in \<open>auto simp: result_simps inj_on_def\<close>)
  then show ?thesis using ks(2) by (simp add: sort_scored_def)
qed

text \<open>What the decision record keeps of a result.\<close>

definition outcome :: "match_result \<Rightarrow> match_status \<times> reason_code list \<times> internal_candidate option" where
  "outcome r = (mr_status r, mr_reasons r, mr_best_candidate r)"

lemma build_decision_record_perm:
  assumes "mset es' = mset es" and "inj_on evaluation_id (set es)" and "outcome r' = outcome r"
    and "build_decision_record lib params st r es = Ok rec"
  shows "build_decision_record lib params st r' es' = Ok rec"
proof -
  obtain ms where ms: "sorted_candidate_material lib es = Ok ms" using assms(4) by (auto simp: build_decision_record_def result_simps)
  have "decision_material params items fp ms r' = decision_material params items fp ms r" for items fp
    using assms(3) by (simp add: decision_material_def outcome_def)
  then show ?thesis using assms(4) ms sorted_candidate_material_perm [OF assms(1,2) ms]
    by (simp add: build_decision_record_def Let_def)
qed

definition known_direction_reasons :: "candidate_evaluation list \<Rightarrow> bool" where
  "known_direction_reasons es \<longleftrightarrow> (\<forall>e\<in>set es. currency_passed e \<and> \<not> direction_passed e \<longrightarrow>
     ce_compatibility_reason e =
       (if ce_compatibility e = REVIEW_REQUIRED then RC_UNKNOWN_TRANSACTION_TYPE else RC_DIRECTION_TYPE_INCOMPATIBLE))"

lemma review_reason:
  assumes "known_direction_reasons es" and "filter direction_passed (filter currency_passed es) = []" and "filter currency_passed es \<noteq> []"
  shows "ce_compatibility_reason (case List.find (\<lambda>e. ce_compatibility e = REVIEW_REQUIRED) (filter currency_passed es) of
            Some e \<Rightarrow> e | None \<Rightarrow> hd (filter currency_passed es)) =
    (if \<exists>e\<in>set (filter currency_passed es). ce_compatibility e = REVIEW_REQUIRED
     then RC_UNKNOWN_TRANSACTION_TYPE else RC_DIRECTION_TYPE_INCOMPATIBLE)"
proof -
  let ?cs = "filter currency_passed es"
  have r: "ce_compatibility_reason e =
       (if ce_compatibility e = REVIEW_REQUIRED then RC_UNKNOWN_TRANSACTION_TYPE else RC_DIRECTION_TYPE_INCOMPATIBLE)" if "e \<in> set ?cs" for e
    using assms(1,2) that by (auto simp: known_direction_reasons_def filter_empty_conv)
  show ?thesis
  proof (cases "List.find (\<lambda>e. ce_compatibility e = REVIEW_REQUIRED) ?cs")
    case None
    then have no: "\<not> (\<exists>e\<in>set ?cs. ce_compatibility e = REVIEW_REQUIRED)" unfolding find_None_iff by blast
    have hd: "hd ?cs \<in> set ?cs" by (rule hd_in_set) (rule assms(3))
    then have "ce_compatibility (hd ?cs) \<noteq> REVIEW_REQUIRED" using no by blast
    then show ?thesis unfolding None option.case using r [OF hd] no by (simp only: if_False)
  next
    case (Some e)
    then obtain i where i: "i < length ?cs" "ce_compatibility (?cs ! i) = REVIEW_REQUIRED" "e = ?cs ! i"
      unfolding find_Some_iff by blast
    then have e: "e \<in> set ?cs" "ce_compatibility e = REVIEW_REQUIRED" by (simp_all only: nth_mem)
    then have "\<exists>e\<in>set ?cs. ce_compatibility e = REVIEW_REQUIRED" by blast
    then show ?thesis unfolding Some option.case using r [OF e(1)] e(2) by (simp only: if_True simp_thms)
  qed
qed

lemma result_from_evaluations_perm:
  assumes m: "mset es' = mset es" and inj: "inj_on evaluation_id (set es)" and known: "known_direction_reasons es"
    and gates: "\<And>e. e \<in> set es \<Longrightarrow> ce_eligible e \<Longrightarrow> currency_passed e \<and> direction_passed e \<and> amount_passed e \<and> date_passed e"
    and r: "result_from_evaluations ctx statement es n = Ok r"
  shows "\<exists>r'. result_from_evaluations ctx statement es' n = Ok r' \<and> outcome r' = outcome r"
proof -
  have set: "set es' = set es" using m by (rule mset_eq_setD)
  have nil: "filter P es' = [] \<longleftrightarrow> filter P es = []" for P by (simp add: filter_empty_conv set)
  show ?thesis
  proof (cases "filter ce_eligible es = []")
    case True
    then have s: "filter ce_eligible (filter date_passed (filter amount_passed (filter direction_passed (filter currency_passed es)))) = []"
      by (auto simp: filter_empty_conv)
    have s': "filter ce_eligible (filter date_passed (filter amount_passed (filter direction_passed (filter currency_passed es')))) = []"
      using True by (auto simp: filter_empty_conv set)
    have known': "known_direction_reasons es'" using known by (simp add: known_direction_reasons_def set)
    show ?thesis
    proof (cases "filter currency_passed es \<noteq> [] \<and> filter direction_passed (filter currency_passed es) = []")
      case rev: True
      then have rev': "filter currency_passed es' \<noteq> []" "filter direction_passed (filter currency_passed es') = []"
        by (simp_all add: nil)
      show ?thesis using r rev rev' review_reason [OF known] review_reason [OF known' rev'(2,1)]
        unfolding result_from_evaluations_def Let_def
        by (auto simp: outcome_def set simp del: filter_filter)
    next
      case False
      then show ?thesis using r
        unfolding result_from_evaluations_def Let_def s s'
        by (auto simp: outcome_def nil split: if_splits)
    qed
  next
    case False
    then obtain ss where ss: "sort_scored ctx (filter ce_eligible es) = Ok ss" "result_from_scored statement ss n = Ok r"
      using r result_from_evaluations_scored [OF gates] by (auto simp: result_simps)
    have "mset (filter ce_eligible es') = mset (filter ce_eligible es)" by (simp add: m)
    moreover have "inj_on evaluation_id (set (filter ce_eligible es))" using inj by (auto simp: inj_on_def)
    ultimately have "sort_scored ctx (filter ce_eligible es') = Ok ss" using ss(1) by (rule sort_scored_perm)
    moreover have "filter ce_eligible es' \<noteq> []" using False by (simp add: nil)
    ultimately show ?thesis using ss(2) result_from_evaluations_scored [of es'] gates by (simp add: set)
  qed
qed

lemma evaluations_known:
  assumes "list_all2 (\<lambda>c e. evaluate_with params statement c = Ok e) cs es" and "0 \<le> mp_posted_date_window_days params"
    and "statement_precheck statement = None"
  shows "known_direction_reasons es"
proof -
  obtain d where d: "st_amount_direction statement = Some d" "d \<noteq> UNKNOWN" "d \<noteq> INTEREST"
    using assms(3) by (auto simp: statement_precheck_def split: if_splits option.splits)
  have "ce_compatibility_reason e =
     (if ce_compatibility e = REVIEW_REQUIRED then RC_UNKNOWN_TRANSACTION_TYPE else RC_DIRECTION_TYPE_INCOMPATIBLE)"
    if e: "e \<in> set es" "currency_passed e" "\<not> direction_passed e" for e
  proof -
    obtain c where c: "evaluate_with params statement c = Ok e"
      using assms(1) e(1) by (auto simp: list_all2_conv_all_nth in_set_conv_nth)
    have "ce_compatibility e \<noteq> COMPATIBLE" using e(3) by (simp add: direction_passed_def)
    then show ?thesis using evaluate_with_Ok(4,5) [OF c assms(2)] e d
      by (auto simp: check_direction_compatibility_def Let_def split: if_splits)
  qed
  then show ?thesis by (simp add: known_direction_reasons_def)
qed

lemma decide_perm:
  assumes es: "list_all2 (\<lambda>c e. evaluate_with params statement c = Ok e) cs es" and w: "0 \<le> mp_posted_date_window_days params"
    and m: "mset es' = mset es" and "mset cs' = mset cs" and inj: "inj_on evaluation_id (set es)"
    and q: "decide ctx params statement cs es = Ok q"
  shows "\<exists>q'. decide ctx params statement cs' es' = Ok q' \<and> outcome q' = outcome q"
proof (cases "statement_precheck statement")
  case None
  have nil: "cs' = [] \<longleftrightarrow> cs = []" using assms(4) by auto
  show ?thesis
  proof (cases "(st_transaction_date statement = None \<and> st_posted_date statement = None) \<or> cs = []")
    case True
    then show ?thesis using q None nil by (auto simp: decide_def outcome_def split: if_splits)
  next
    case False
    then have "result_from_evaluations ctx statement es (mp_date_tolerance_days params) = Ok q" using q None by (auto simp: decide_def)
    from result_from_evaluations_perm [OF m inj evaluations_known [OF es w None] eligible_candidates(3) [OF es w] this]
    show ?thesis using None False nil by (auto simp: decide_def)
  qed
qed (use q in \<open>auto simp: decide_def outcome_def\<close>)

lemma match_statement_Ok_iff:
  "match_statement lib ctx params statement candidates = Ok r \<longleftrightarrow>
   validate_matcher_parameters params = Ok () \<and> distinct (map ic_internal_id candidates) \<and>
   (\<exists>es q. mapM (evaluate_with params statement) candidates = Ok es \<and> decide ctx params statement candidates es = Ok q \<and>
     attach_decision_hash lib params q statement es = Ok r)"
  by (simp add: match_statement_def result_simps)

text \<open>
  C35 The order of the candidates. Matching the same candidates in another order returns too, with the
  same status, reasons and best candidate and the same recorded decision, hash and fingerprint.
\<close>

theorem match_statement_order:
  assumes "match_statement lib ctx params statement candidates = Ok r" and "mset candidates' = mset candidates"
  shows "\<exists>r'. match_statement lib ctx params statement candidates' = Ok r' \<and>
    mr_status r' = mr_status r \<and> mr_reasons r' = mr_reasons r \<and> mr_best_candidate r' = mr_best_candidate r \<and>
    mr_decision_hash r' = mr_decision_hash r \<and> mr_decision_material_json r' = mr_decision_material_json r \<and>
    mr_candidate_set_fingerprint r' = mr_candidate_set_fingerprint r"
proof -
  obtain es q where v: "validate_matcher_parameters params = Ok ()" and d: "distinct (map ic_internal_id candidates)"
    and es: "mapM (evaluate_with params statement) candidates = Ok es"
    and q: "decide ctx params statement candidates es = Ok q" and r: "attach_decision_hash lib params q statement es = Ok r"
    using assms(1) [unfolded match_statement_Ok_iff] by (elim conjE exE) (rule that; assumption)
  have w: "0 \<le> mp_posted_date_window_days params" using v by (auto simp: validate_matcher_parameters_def split: if_splits)
  obtain es' where es': "mapM (evaluate_with params statement) candidates' = Ok es'" "mset es' = mset es"
    using es assms(2) by (rule mapM_mset)
  note l = es [unfolded mapM_Ok_iff]
  have "map evaluation_id es = map ic_internal_id candidates"
    using arg_cong [OF eligible_candidates(2) [OF l w], of "map ic_internal_id"] by (simp add: comp_def)
  then have "distinct (map evaluation_id es)" using d by simp
  then have inj: "inj_on evaluation_id (set es)" by (simp add: distinct_map)
  obtain q' where q': "decide ctx params statement candidates' es' = Ok q'" "outcome q' = outcome q"
    using decide_perm [OF l w es'(2) assms(2) inj q] by blast
  obtain rec where rec: "build_decision_record lib params statement q es = Ok rec" and
    r: "mr_status r = mr_status q" "mr_reasons r = mr_reasons q" "mr_best_candidate r = mr_best_candidate q"
    "mr_decision_hash r = Some (dr_decision_hash rec)" "mr_decision_material_json r = Some (dr_decision_material_json rec)"
    "mr_candidate_set_fingerprint r = Some (dr_candidate_set_fingerprint rec)"
    using r by (rule attach_decision_hash_Ok)
  have "build_decision_record lib params statement q' es' = Ok rec"
    using es'(2) inj q'(2) rec by (rule build_decision_record_perm)
  moreover have "distinct (map ic_internal_id candidates')" 
    using d mset_eq_imp_distinct_iff [of "map ic_internal_id candidates'" "map ic_internal_id candidates"] assms(2) by simp
  ultimately show ?thesis using v es'(1) q' r
    unfolding match_statement_Ok_iff by (simp add: attach_decision_hash_def outcome_def)
qed

theorem match_statement_order_witness:
  "\<exists>r r'. match_statement sample_lib default_context default_parameters sample_statement sample_pool = Ok r \<and>
     match_statement sample_lib default_context default_parameters sample_statement (rev sample_pool) = Ok r' \<and>
     mr_best_candidate r' = mr_best_candidate r \<and> mr_decision_hash r' = mr_decision_hash r"
proof -
  obtain r where r: "match_statement sample_lib default_context default_parameters sample_statement sample_pool = Ok r"
    by (rule sample_returns)
  have "mset (rev sample_pool) = mset sample_pool" by simp
  from match_statement_order [OF r this] r show ?thesis by blast
qed

end
