(* ===== verification/Recon_Batch.thy ===== *)
theory Recon_Batch
  imports Recon_Record
begin

text \<open>
  Batches: how a matched statement is classified, that no app transaction is matched twice, and that
  every statement and every app transaction is accounted for.
\<close>

section \<open>Matched statements\<close>

definition exact_day :: "statement_transaction \<Rightarrow> internal_candidate \<Rightarrow> bool" where
  "exact_day st c \<longleftrightarrow>
     (case st_transaction_date st of
        Some t \<Rightarrow> ic_transaction_date c = t
      | None \<Rightarrow> (case st_posted_date st of None \<Rightarrow> False | Some p \<Rightarrow> days_between p (ic_transaction_date c) = 0))"

definition exact_merchant :: "statement_transaction \<Rightarrow> internal_candidate \<Rightarrow> bool" where
  "exact_merchant st c \<longleftrightarrow> py_lower (py_strip (st_merchant_raw st)) = py_lower (py_strip (ic_merchant c))"

definition normalized_merchant :: "statement_transaction \<Rightarrow> internal_candidate \<Rightarrow> bool" where
  "normalized_merchant st c \<longleftrightarrow> py_lower (statement_merchant st) = py_lower (normalize_merchant (ic_merchant c))"

lemma eligible_evaluation:
  assumes "evaluate_with params st c = Ok e" and "ce_eligible e" and "0 \<le> mp_posted_date_window_days params"
  obtains dr where "ce_date_result e = Some dr" and "ce_merchant_exact e = exact_merchant st c"
    and "ce_merchant_normalized_match e = normalized_merchant st c"
    and "dm_matched_on dr = (if exact_day st c then if st_transaction_date st = None then ''posted_date'' else ''transaction_date''
                             else ''posted_date_window'')"
proof -
  let ?m = "match_date_window (ic_transaction_date c) (st_transaction_date st) (st_posted_date st)
              (mp_date_tolerance_days params) (mp_posted_date_window_days params)"
  obtain gates k where e: "evaluate_merchant st c (mp_merchant_similarity_threshold params) k gates ?m = Ok e" and m: "dm_matched ?m"
    using assms(1,2) unfolding evaluate_with_def evaluate_candidate_def Let_def
    by (auto simp: rejected_evaluation_def split: if_splits prod.splits)
  show ?thesis
  proof (rule that)
    show "ce_date_result e = Some ?m" "ce_merchant_exact e = exact_merchant st c"
      "ce_merchant_normalized_match e = normalized_merchant st c"
      using e by (auto simp: evaluate_merchant_def Let_def result_simps exact_merchant_def normalized_merchant_def)
    show "dm_matched_on ?m = (if exact_day st c then if st_transaction_date st = None then ''posted_date'' else ''transaction_date''
                             else ''posted_date_window'')"
      using m by (auto simp: match_date_window_def date_match_def exact_day_def Let_def split: option.splits if_splits)
  qed
qed

lemma result_from_evaluations_matched:
  assumes r: "result_from_evaluations ctx st es n = Ok r" and best: "mr_best_candidate r = Some c"
    and gates: "\<And>e. e \<in> set es \<Longrightarrow> ce_eligible e \<Longrightarrow> currency_passed e \<and> direction_passed e \<and> amount_passed e \<and> date_passed e"
  obtains e dr where "e \<in> set es" and "ce_eligible e" and "ce_candidate e = c" and "ce_date_result e = Some dr"
    and "mr_reasons r = matched_reasons dr e" and "mr_candidates r = [c]"
proof -
  have ne: "filter ce_eligible es \<noteq> []" using result_from_evaluations_unscored [of es ctx st n] r best by auto
  obtain ss where ss: "sort_scored ctx (filter ce_eligible es) = Ok ss" "result_from_scored st ss n = Ok r"
    using r result_from_evaluations_scored [OF gates ne] by (auto simp: result_simps)
  then obtain e where e: "ss = [e]" "ce_candidate e = c"
    using result_from_scored_Ok(1) [OF ss(2)] best by (auto split: list.splits)
  then have "e \<in> set (filter ce_eligible es)" using mset_eq_setD [OF sort_scored_mset [OF ss(1)]] by auto
  moreover obtain dr where "ce_date_result e = Some dr" "mr_reasons r = matched_reasons dr e" "mr_candidates r = [c]"
    using ss(2) e by (auto simp: result_from_scored_def make_result_def split: option.splits)
  ultimately show ?thesis using e(2) by (intro that) simp_all
qed

lemma matched_result:
  assumes "match_statement lib ctx params st cs = Ok r" and "mr_best_candidate r = Some c"
  obtains dr e where "mr_reasons r = matched_reasons dr e" and "evaluate_with params st c = Ok e" and "ce_eligible e"
    and "ce_date_result e = Some dr" and "0 \<le> mp_posted_date_window_days params" and "mr_status r = MS_MATCHED"
    and "mr_candidates r = [c]"
proof -
  obtain es q where w: "0 \<le> mp_posted_date_window_days params"
    and es: "list_all2 (\<lambda>c e. evaluate_with params st c = Ok e) cs es"
    and q: "decide ctx params st cs es = Ok q" and r: "attach_decision_hash lib params q st es = Ok r"
    using assms(1) by (rule match_statement_Ok)
  have rq: "mr_status r = mr_status q" "mr_reasons r = mr_reasons q" "mr_best_candidate r = mr_best_candidate q"
    "mr_candidates r = mr_candidates q" using r by (rule attach_decision_hash_Ok, simp)+
  then have best: "mr_best_candidate q = Some c" using assms(2) by simp
  then have "result_from_evaluations ctx st es (mp_date_tolerance_days params) = Ok q"
    using q by (auto simp: decide_def split: option.splits if_splits)
  then obtain e dr where e: "e \<in> set es" "ce_eligible e" "ce_candidate e = c" "ce_date_result e = Some dr"
    "mr_reasons q = matched_reasons dr e" "mr_candidates q = [c]"
    using best eligible_candidates(3) [OF es w] by (rule result_from_evaluations_matched)
  obtain d where "evaluate_with params st d = Ok e" using list_all2_member [OF es e(1)] by blast
  moreover have "d = c" using evaluate_with_Ok(1) [OF calculation w] e(3) by simp
  moreover have "mr_status q = MS_MATCHED" using decide_best [OF q w es] best by simp
  ultimately show ?thesis using e rq w by (intro that) simp_all
qed

lemma tenths_sub:
  assumes "wf_context ctx" and "0 < n" and "n \<le> 10"
  shows "dec_sub ctx (tenths n) (tenths 1) = Ok (tenths (n - 1))"
proof -
  have "dec_sub ctx (tenths n) (tenths 1) = dec_fix ctx (tenths (n - 1))"
    using assms(2) by (auto simp: dec_sub_def dec_add_def dec_add_exact_def tenths_def copy_negate_def at_exp_def scoeff_def Let_def
        nat_diff_distrib)
  also have "\<dots> = Ok (tenths (n - 1))"
    using assms by (intro dec_fix_id) (simp_all add: tenths_def adjusted_def wf_context_def)
  finally show ?thesis .
qed

lemma dval_tenths: "dval (tenths n) = of_nat n / 10"
  by (simp add: tenths_def dval_def)

section \<open>Claims on app transactions\<close>

abbreviation claims :: "reconciliation_candidate list \<Rightarrow> string \<Rightarrow> nat" where
  "claims cs i \<equiv> length (filter (\<lambda>c. matched_app c = Some i) cs)"

lemma matched_app_counts_correct:
  "wf_dict (matched_app_counts cs) \<and> dget (matched_app_counts cs) i = (if claims cs i = 0 then None else Some (claims cs i))"
proof (induction cs rule: rev_induct)
  case Nil
  then show ?case by (simp add: matched_app_counts_def dget_def)
next
  case (snoc c cs)
  have "matched_app_counts (cs @ [c]) = (case matched_app c of None \<Rightarrow> matched_app_counts cs
    | Some k \<Rightarrow> dset (matched_app_counts cs) k (dget_or (matched_app_counts cs) k 0 + 1))"
    by (simp add: matched_app_counts_def split: option.split)
  then show ?case using snoc by (auto simp: dict_simps dget_or_def simp flip: dget_def split: option.splits)
qed

definition flagged :: "reconciliation_candidate list \<Rightarrow> reconciliation_candidate \<Rightarrow> reconciliation_candidate" where
  "flagged cs c = (case matched_app c of Some i \<Rightarrow> if 1 < claims cs i then downgrade c else c | None \<Rightarrow> c)"

lemma flag_reused_map: "flag_reused_matched_app_transactions cs = map (flagged cs) cs"
proof -
  let ?r = "map fst (filter (\<lambda>(i, n). 1 < n) (matched_app_counts cs))"
  have r: "i \<in> set ?r \<longleftrightarrow> 1 < claims cs i" for i
  proof -
    have "i \<in> set ?r \<longleftrightarrow> (\<exists>n. (i, n) \<in> set (matched_app_counts cs) \<and> 1 < n)" by force
    also have "\<dots> \<longleftrightarrow> (\<exists>n. dget (matched_app_counts cs) i = Some n \<and> 1 < n)"
      using matched_app_counts_correct [of cs i, THEN conjunct1] by (simp add: dget_def map_of_eq_Some_iff)
    also have "\<dots> \<longleftrightarrow> 1 < claims cs i" using matched_app_counts_correct [of cs i] by auto
    finally show ?thesis .
  qed
  have f: "(case matched_app c of Some i \<Rightarrow> if i \<in> set ?r then downgrade c else c | None \<Rightarrow> c) = flagged cs c" for c
    unfolding flagged_def r ..
  show ?thesis
  proof (cases "?r = []")
    case True
    then have "\<not> 1 < claims cs i" for i using r [of i] by simp
    then have "flagged cs c = c" for c by (simp add: flagged_def split: option.split)
    then have "map (flagged cs) cs = cs" by (simp add: map_idI)
    then show ?thesis using True by (simp add: flag_reused_matched_app_transactions_def Let_def)
  next
    case False
    then show ?thesis unfolding flag_reused_matched_app_transactions_def Let_def f by simp
  qed
qed

lemma flagged_simps [simp]:
  "rc_statement (flagged cs c) = rc_statement c" "rc_best_app_transaction (flagged cs c) = rc_best_app_transaction c"
  "rc_all_app_transactions (flagged cs c) = rc_all_app_transactions c"
  by (simp_all add: flagged_def downgrade_def split: option.split)

lemma flagged_matched:
  assumes "i < length cs" and "j < length cs" and "i \<noteq> j"
    and "matched_app (flagged cs (cs ! i)) = Some a" and "matched_app (flagged cs (cs ! j)) = Some b"
  shows "a \<noteq> b"
proof
  assume ab: "a = b"
  have m: "matched_app (flagged cs c) = Some a \<Longrightarrow> matched_app c = Some a \<and> claims cs a \<le> 1" for c a
    by (auto simp: flagged_def downgrade_def matched_app_def split: option.splits if_splits)
  have ij: "matched_app (cs ! i) = Some a" "matched_app (cs ! j) = Some a" "claims cs a \<le> 1"
    using m [OF assms(4)] m [OF assms(5)] ab by simp_all
  have "{i, j} \<subseteq> {k. k < length cs \<and> matched_app (cs ! k) = Some a}" using assms(1,2) ij by auto
  then have "card {i, j} \<le> claims cs a" unfolding length_filter_conv_card by (intro card_mono) auto
  then show False using assms(3) ij(3) by simp
qed

section \<open>Batches\<close>

lemma app_to_internal_ids:
  assumes "app_to_internal apps = Ok internal"
  shows "map ic_internal_id internal = map at_app_txn_id apps"
proof -
  have id: "make_candidate a = Ok c \<Longrightarrow> ic_internal_id c = ic_internal_id a" for a c
    by (auto simp: make_candidate_def split: if_splits py_value.splits py_decimal.splits)
  have "list_all2 (\<lambda>a c. ic_internal_id c = at_app_txn_id a) apps internal"
    using assms unfolding app_to_internal_def mapM_Ok_iff by (rule list_all2_mono) (auto dest!: id)
  then show ?thesis by (induction rule: list_all2_induct) simp_all
qed

lemma app_by_id_present: "i \<in> at_app_txn_id ` set apps \<Longrightarrow> \<exists>a. app_by_id apps i = Some a \<and> at_app_txn_id a = i"
  by (induction apps) (auto simp: app_by_id_def)

lemma match_batch_Ok:
  assumes "match_batch lib ctx statements apps tolerance window threshold = Ok out"
  obtains internal cs synthetic where "app_to_internal apps = Ok internal"
    and "list_all2 (\<lambda>p c. statement_candidate lib ctx (batch_parameters tolerance window threshold) apps internal p = Ok c)
      (enumerate 0 statements) cs"
    and "list_all2 (\<lambda>a c. missing_in_statement a = Ok c) (filter (\<lambda>a. at_app_txn_id a \<notin> set (referenced_ids cs)) apps) synthetic"
    and "out = map (flagged cs) cs @ synthetic"
  using assms unfolding match_batch_def rbind_Ok_iff mapM_Ok_iff flag_reused_map by (auto intro: that)

lemma statement_candidate_Ok:
  assumes "statement_candidate lib ctx params apps internal (i, st) = Ok c"
  obtains r where "match_statement lib ctx params st internal = Ok r" and "rc_statement c = st"
    and "rc_match_status c = mr_status r" and "rc_best_app_transaction c = best_app_of apps r"
    and "rc_all_app_transactions c = all_apps_of apps r"
  using assms by (auto simp: statement_candidate_def result_simps intro: that)

lemma synthetic_Ok: "missing_in_statement a = Ok c \<Longrightarrow> rc_match_status c = MS_NO_MATCH \<and> rc_issue_type c = IT_MISSING_IN_STATEMENT \<and>
   rc_best_app_transaction c = Some a"
  by (auto simp: missing_in_statement_def result_simps)

lemma candidate_matched_app:
  assumes "statement_candidate lib ctx params apps internal p = Ok c" and "app_to_internal apps = Ok internal"
    and "rc_match_status c = MS_MATCHED"
  shows "\<exists>a. rc_best_app_transaction c = Some a"
proof -
  obtain i st where p: "p = (i, st)" by (cases p)
  obtain r where r: "match_statement lib ctx params st internal = Ok r" "rc_match_status c = mr_status r"
    "rc_best_app_transaction c = best_app_of apps r" using assms(1) unfolding p by (rule statement_candidate_Ok)
  then have "mr_status r = MS_MATCHED" using assms(3) by simp
  then obtain d where d: "d \<in> set internal" "mr_best_candidate r = Some d" by (rule matched_from_candidates [OF r(1)])
  then have "ic_internal_id d \<in> set (map ic_internal_id internal)" by simp
  then have "ic_internal_id d \<in> at_app_txn_id ` set apps" unfolding app_to_internal_ids [OF assms(2)] by simp
  then show ?thesis using app_by_id_present r(3) d(2) by (auto simp: best_app_of_def)
qed

definition proper_app :: "app_transaction \<Rightarrow> bool" where
  "proper_app a \<longleftrightarrow> py_strip (at_app_txn_id a) \<noteq> [] \<and> (\<exists>d. at_amount a = Finite d \<and> 0 < dval d \<and> writable d)"

lemma app_to_internal_proper:
  assumes "list_all proper_app apps"
  shows "\<exists>internal. app_to_internal apps = Ok internal \<and> (\<forall>c\<in>set internal. writable (ic_amount c))"
  unfolding app_to_internal_def
proof (rule mapM_returns)
  fix a assume "a \<in> set apps"
  then have "proper_app a" using assms by (simp add: list_all_iff)
  then show "\<exists>c. make_candidate
       \<lparr>ic_internal_id = at_app_txn_id a, ic_transaction_date = at_transaction_date a,
        ic_merchant = at_merchant a, ic_amount = PyDec (at_amount a), ic_currency = at_currency a,
        ic_source_type = at_source_type a, ic_source_channel = at_source_channel a,
        ic_attachment_path = None, ic_evidence_reference = None,
        ic_transaction_type = at_transaction_type a, ic_posted_date = None\<rparr> = Ok c \<and> writable (ic_amount c)"
    by (auto simp: proper_app_def make_candidate_def dec_le_iff ZERO_def dval_def [of "Dec False 0 _"])
qed

lemma missing_in_statement_proper:
  assumes "proper_app a"
  shows "\<exists>c. missing_in_statement a = Ok c"
proof -
  have "direction_check (DirectionText (direction_value UNKNOWN)) = Ok (Some UNKNOWN)" by code_simp
  then show ?thesis using assms
    by (auto simp: missing_in_statement_def make_statement_def statement_amount_check_def proper_app_def dec_lt_iff ZERO_def dval_def [of "Dec False 0 _"])
qed

lemma compute_confidence_Ok:
  assumes "wf_context ctx"
  shows "\<exists>d. compute_confidence ctx r = Ok d"
  using tenths_sub [OF assms] by (simp add: compute_confidence_def Let_def del: One_nat_def)

lemma statement_candidate_returns:
  assumes "wf_context ctx" and "proper_parameters params" and "app_to_internal apps = Ok internal"
    and "distinct (map at_app_txn_id apps)" and "\<forall>c\<in>set internal. writable (ic_amount c)"
    and "\<forall>a. st_amount st = Some a \<longrightarrow> writable a"
  shows "\<exists>c. statement_candidate lib ctx params apps internal (i, st) = Ok c \<and> rc_statement c = st"
proof -
  have "distinct (map ic_internal_id internal)" using assms(4) app_to_internal_ids [OF assms(3)] by simp
  then obtain r where "match_statement lib ctx params st internal = Ok r"
    using match_statement_total [OF assms(1,2)] assms(5,6) by blast
  moreover obtain d where "compute_confidence ctx r = Ok d" using compute_confidence_Ok [OF assms(1)] by blast
  ultimately show ?thesis by (simp add: statement_candidate_def)
qed

lemma match_batch_returns:
  assumes "wf_context ctx" and "proper_parameters (batch_parameters tolerance window threshold)"
    and "list_all proper_app apps" and "distinct (map at_app_txn_id apps)"
    and "\<forall>st\<in>set statements. \<forall>a. st_amount st = Some a \<longrightarrow> writable a"
  obtains out where "match_batch lib ctx statements apps tolerance window threshold = Ok out"
proof -
  let ?p = "batch_parameters tolerance window threshold"
  obtain internal where int: "app_to_internal apps = Ok internal" "\<forall>c\<in>set internal. writable (ic_amount c)"
    using app_to_internal_proper [OF assms(3)] by blast
  have sc: "\<exists>c. statement_candidate lib ctx ?p apps internal x = Ok c \<and> rc_statement c = snd x" if "x \<in> set (enumerate 0 statements)" for x
  proof -
    have "snd x \<in> set (map snd (enumerate 0 statements))" unfolding set_map using that by (rule imageI)
    then have "snd x \<in> set statements" by (simp only: map_snd_enumerate)
    then show ?thesis using statement_candidate_returns [OF assms(1,2) int(1) assms(4) int(2), of "snd x" lib "fst x"] assms(5)
      by simp
  qed
  obtain cs where cs: "mapM (statement_candidate lib ctx ?p apps internal) (enumerate 0 statements) = Ok cs"
    using sc by (rule mapM_related)
  let ?missing = "filter (\<lambda>a. at_app_txn_id a \<notin> set (referenced_ids cs)) apps"
  obtain synthetic where syn: "mapM missing_in_statement ?missing = Ok synthetic"
    using mapM_returns [of ?missing missing_in_statement "\<lambda>_. True"] missing_in_statement_proper assms(3)
    by (auto simp: list_all_iff)
  have "match_batch lib ctx statements apps tolerance window threshold = Ok (map (flagged cs) cs @ synthetic)"
    using int(1) cs syn by (simp add: match_batch_def flag_reused_map)
  then show ?thesis by (rule that)
qed

text \<open>
  The app transactions that the match of a statement considers: the best candidate and the candidates
  it lists.
\<close>

definition considers :: "match_result \<Rightarrow> string \<Rightarrow> bool" where
  "considers r i \<longleftrightarrow> (\<exists>c. (mr_best_candidate r = Some c \<or> c \<in> set (mr_candidates r)) \<and> ic_internal_id c = i)"

lemma batch_results:
  assumes "list_all2 (\<lambda>p c. statement_candidate lib ctx params apps internal p = Ok c) (enumerate n statements) cs"
  obtains rs where "list_all2 (\<lambda>st r. match_statement lib ctx params st internal = Ok r) statements rs"
    and "list_all2 (\<lambda>r c. rc_best_app_transaction c = best_app_of apps r \<and> rc_all_app_transactions c = all_apps_of apps r) rs cs"
    and "map rc_statement cs = statements"
  using assms
proof (induction statements arbitrary: n cs thesis)
  case Nil
  then show ?case by simp
next
  case (Cons st statements)
  from Cons.prems(2) obtain c cs' where cs: "cs = c # cs'" "statement_candidate lib ctx params apps internal (n, st) = Ok c"
    "list_all2 (\<lambda>p c. statement_candidate lib ctx params apps internal p = Ok c) (enumerate (Suc n) statements) cs'"
    by (auto simp: list_all2_Cons1)
  from cs(3) obtain rs where rs: "list_all2 (\<lambda>st r. match_statement lib ctx params st internal = Ok r) statements rs"
    "list_all2 (\<lambda>r c. rc_best_app_transaction c = best_app_of apps r \<and> rc_all_app_transactions c = all_apps_of apps r) rs cs'"
    "map rc_statement cs' = statements" by (rule Cons.IH [rotated])
  obtain r where "match_statement lib ctx params st internal = Ok r" "rc_statement c = st"
    "rc_best_app_transaction c = best_app_of apps r" "rc_all_app_transactions c = all_apps_of apps r"
    using cs(2) by (rule statement_candidate_Ok)
  then show ?case using cs(1) rs by (intro Cons.prems(1) [of "r # rs"]) simp_all
qed

lemma app_by_id_Some: "app_by_id apps i = Some a \<Longrightarrow> at_app_txn_id a = i"
  unfolding app_by_id_def by (drule find_SomeD) simp

lemma candidate_considers:
  assumes "rc_best_app_transaction c = best_app_of apps r" and "rc_all_app_transactions c = all_apps_of apps r" and "a \<in> set apps"
  shows "at_app_txn_id a \<in> set (referenced_ids [c]) \<longleftrightarrow> considers r (at_app_txn_id a)"
proof
  assume "at_app_txn_id a \<in> set (referenced_ids [c])"
  then consider b where "best_app_of apps r = Some b" "at_app_txn_id b = at_app_txn_id a"
    | b where "b \<in> set (all_apps_of apps r)" "at_app_txn_id b = at_app_txn_id a"
    using assms(1,2) by (cases "best_app_of apps r") (auto simp: referenced_ids_def)
  then show "considers r (at_app_txn_id a)"
  proof cases
    case 1
    then show ?thesis using app_by_id_Some
      by (fastforce simp: best_app_of_def considers_def split: option.splits list.splits)
  next
    case 2
    then show ?thesis using app_by_id_Some by (fastforce simp: all_apps_of_def considers_def map_filter_def)
  qed
next
  assume "considers r (at_app_txn_id a)"
  then obtain d where d: "mr_best_candidate r = Some d \<or> d \<in> set (mr_candidates r)" "ic_internal_id d = at_app_txn_id a"
    by (auto simp: considers_def)
  obtain b where "app_by_id apps (ic_internal_id d) = Some b" "at_app_txn_id b = at_app_txn_id a"
    using app_by_id_present [of "at_app_txn_id a" apps] assms(3) d(2) by auto
  then show "at_app_txn_id a \<in> set (referenced_ids [c])" using d(1) assms(1,2)
    by (force simp: referenced_ids_def best_app_of_def all_apps_of_def map_filter_def split: option.splits)
qed

lemma batch_considers:
  assumes "list_all2 (\<lambda>r c. rc_best_app_transaction c = best_app_of apps r \<and> rc_all_app_transactions c = all_apps_of apps r) rs cs"
    and "a \<in> set apps"
  shows "at_app_txn_id a \<in> set (referenced_ids cs) \<longleftrightarrow> (\<exists>r \<in> set rs. considers r (at_app_txn_id a))"
  using assms(1)
proof (induction rule: list_all2_induct)
  case (Cons r rs c cs)
  have "set (referenced_ids (c # cs)) = set (referenced_ids [c]) \<union> set (referenced_ids cs)" by (simp add: referenced_ids_def Un_assoc)
  then show ?case using Cons candidate_considers [OF _ _ assms(2)] by auto
qed (simp add: referenced_ids_def)

section \<open>An example\<close>

text \<open>A statement that only carries a posting date, two days after the transaction.\<close>

definition posted_statement :: statement_transaction where
  "posted_statement = sample_statement\<lparr>st_transaction_date := None, st_posted_date := Some (Date 2024 5 3)\<rparr>"

definition cheaper_statement :: statement_transaction where
  "cheaper_statement = sample_statement\<lparr>st_amount := Some (Dec False 90 (- 1))\<rparr>"

definition sample_app :: "string \<Rightarrow> nat \<Rightarrow> app_transaction" where
  "sample_app i n =
     \<lparr>at_app_txn_id = i, at_transaction_date = Date 2024 5 1, at_merchant = ''GRAB'', at_amount = Finite (Dec False n (- 1)),
      at_currency = ''sgd'', at_source_type = None, at_source_channel = None, at_normalized_merchant = None,
      at_posted_date = None, at_transaction_type = Some (TypeText ''expense'')\<rparr>"

abbreviation sample_apps :: "app_transaction list" where
  "sample_apps \<equiv> [sample_app ''a-1'' 125, sample_app ''a-2'' 90]"

lemma sample_internal: "app_to_internal sample_apps = Ok sample_pool"
  by code_simp

lemma sample_batch_parameters: "batch_parameters 3 3 (Float False (1 / 2)) = default_parameters"
  by (simp add: batch_parameters_def default_parameters_def)

lemma sample_merchants:
  "py_lower (statement_merchant sample_statement) = py_lower (normalize_merchant ''GRAB'')"
  "py_lower (py_strip ''Grab Taxi'') \<noteq> py_lower (py_strip ''GRAB'')" "statement_precheck posted_statement = None"
  "statement_precheck cheaper_statement = None" "days_between (Date 2024 5 3) (Date 2024 5 1) = 2"
  by code_simp+

lemma sample_merchant_of: "statement_merchant posted_statement = statement_merchant sample_statement"
  "statement_merchant cheaper_statement = statement_merchant sample_statement"
  by (simp_all add: statement_merchant_def posted_statement_def cheaper_statement_def)

lemma sample_currency: "currency_match (Some ''SGD'') (Some ''sgd'')" "normalize_transaction_type (sample_candidate i n) = TT_EXPENSE"
  by code_simp (simp add: normalize_transaction_type_def sample_candidate_def, code_simp)

lemmas sample_defs = passes_gates_def date_gate_def merchant_gate_def sample_statement_def sample_candidate_def dval_def

lemma sample_candidate_gates:
  "passes_gates default_parameters sample_statement (sample_candidate i n) \<longleftrightarrow> n = 125"
  "passes_gates default_parameters posted_statement (sample_candidate i n) \<longleftrightarrow> n = 125"
  "passes_gates default_parameters cheaper_statement (sample_candidate i n) \<longleftrightarrow> n = 90"
proof -
  have m: "merchant_gate default_parameters st (ic_merchant (sample_candidate i n))"
    if "statement_merchant st = statement_merchant sample_statement" for st
    using that sample_merchants(1) by (simp add: merchant_gate_def sample_candidate_def)
  have d: "date_gate default_parameters sample_statement (ic_transaction_date (sample_candidate i n))"
    "date_gate default_parameters posted_statement (ic_transaction_date (sample_candidate i n))"
    "date_gate default_parameters cheaper_statement (ic_transaction_date (sample_candidate i n))"
    by (simp_all add: date_gate_def sample_statement_def posted_statement_def cheaper_statement_def sample_candidate_def
        sample_merchants(5) default_parameters_def del: One_nat_def)
  note pass = passes_gates_def sample_statement_def posted_statement_def cheaper_statement_def dval_def
  show "passes_gates default_parameters sample_statement (sample_candidate i n) \<longleftrightarrow> n = 125"
    using m [of sample_statement] d(1) sample_currency(1) sample_currency(2) [of i n] unfolding pass by (auto simp: sample_candidate_def)
  show "passes_gates default_parameters posted_statement (sample_candidate i n) \<longleftrightarrow> n = 125"
    using m [OF sample_merchant_of(1)] d(2) sample_currency(1) sample_currency(2) [of i n] unfolding pass by (auto simp: sample_candidate_def)
  show "passes_gates default_parameters cheaper_statement (sample_candidate i n) \<longleftrightarrow> n = 90"
    using m [OF sample_merchant_of(2)] d(3) sample_currency(1) sample_currency(2) [of i n] unfolding pass by (auto simp: sample_candidate_def)
qed

lemma sample_best:
  assumes "st \<in> {sample_statement, posted_statement, cheaper_statement}"
  obtains r where "match_statement sample_lib default_context default_parameters st sample_pool = Ok r"
    and "mr_best_candidate r = Some (if st = cheaper_statement then sample_candidate ''a-2'' 90 else sample_candidate ''a-1'' 125)"
    and "mr_status r = MS_MATCHED"
proof -
  have w: "\<forall>a. st_amount st = Some a \<longrightarrow> writable a" "\<forall>c\<in>set sample_pool. writable (ic_amount c)"
    using assms sample_writable
    by (auto simp: sample_statement_def posted_statement_def cheaper_statement_def sample_candidate_def)
  have "distinct (map ic_internal_id sample_pool)" by (simp add: sample_candidate_def)
  then obtain r where r: "match_statement sample_lib default_context default_parameters st sample_pool = Ok r"
    using match_statement_total [OF default_wf default_proper] w by blast
  have "sample_statement \<noteq> cheaper_statement" "posted_statement \<noteq> cheaper_statement"
    by (simp_all add: sample_statement_def posted_statement_def cheaper_statement_def)
  then have "mr_best_candidate r = Some (if st = cheaper_statement then sample_candidate ''a-2'' 90 else sample_candidate ''a-1'' 125)"
    using match_statement_best [OF r, THEN conjunct1] assms sample_gates(1) sample_merchants(3,4)
    by (auto simp: sample_candidate_gates)
  then show ?thesis using r match_statement_best [OF r, THEN conjunct2] by (intro that) simp_all
qed

lemma sample_considers:
  assumes "match_statement sample_lib default_context default_parameters st sample_pool = Ok r"
    and "st \<in> {sample_statement, posted_statement}"
  shows "considers r i \<longleftrightarrow> i = ''a-1''"
proof -
  have "st \<in> {sample_statement, posted_statement, cheaper_statement}" "st \<noteq> cheaper_statement"
    using assms(2) by (auto simp: sample_statement_def posted_statement_def cheaper_statement_def)
  then have best: "mr_best_candidate r = Some (sample_candidate ''a-1'' 125)"
    using sample_best [of st thesis for thesis] assms(1) by auto
  have cand: "mr_candidates r = [sample_candidate ''a-1'' 125]" using assms(1) best by (rule matched_result)
  have "ic_internal_id (sample_candidate ''a-1'' 125) = ''a-1''" by (simp add: sample_candidate_def)
  then show ?thesis unfolding considers_def best cand by auto
qed

lemma sample_app_proper: "list_all proper_app sample_apps" "distinct (map at_app_txn_id sample_apps)"
proof -
  have "py_strip ''a-1'' \<noteq> []" "py_strip ''a-2'' \<noteq> []" by code_simp+
  then show "list_all proper_app sample_apps" using sample_writable
    by (simp add: proper_app_def sample_app_def dval_def)
  show "distinct (map at_app_txn_id sample_apps)" by (simp add: sample_app_def)
qed

lemma sample_matched_app:
  assumes "statement_candidate sample_lib default_context default_parameters sample_apps sample_pool (i, st) = Ok c"
    and "st \<in> {sample_statement, posted_statement, cheaper_statement}"
  shows "rc_match_status c = MS_MATCHED" and "matched_app c = Some (if st = cheaper_statement then ''a-2'' else ''a-1'')"
proof -
  obtain r where r: "match_statement sample_lib default_context default_parameters st sample_pool = Ok r"
    "rc_match_status c = mr_status r" "rc_best_app_transaction c = best_app_of sample_apps r"
    using assms(1) by (rule statement_candidate_Ok)
  obtain r' where r': "match_statement sample_lib default_context default_parameters st sample_pool = Ok r'"
    "mr_best_candidate r' = Some (if st = cheaper_statement then sample_candidate ''a-2'' 90 else sample_candidate ''a-1'' 125)"
    "mr_status r' = MS_MATCHED" using assms(2) by (rule sample_best)
  have eq: "r' = r" using r(1) r'(1) by simp
  show m: "rc_match_status c = MS_MATCHED" using r(2) r'(3) eq by simp
  show "matched_app c = Some (if st = cheaper_statement then ''a-2'' else ''a-1'')"
    using m r(3) r'(2) unfolding eq by (simp add: matched_app_def best_app_of_def app_by_id_def sample_candidate_def sample_app_def)
qed

lemma sample_batch:
  obtains out where "match_batch sample_lib default_context [sample_statement, cheaper_statement] sample_apps 3 3 (Float False (1 / 2)) = Ok out"
    and "rc_match_status (out ! 0) = MS_MATCHED" and "rc_match_status (out ! 1) = MS_MATCHED" and "1 < length out"
proof -
  have w: "\<forall>st\<in>set [sample_statement, cheaper_statement]. \<forall>a. st_amount st = Some a \<longrightarrow> writable a"
    using sample_writable by (simp add: sample_statement_def cheaper_statement_def)
  obtain out where out: "match_batch sample_lib default_context [sample_statement, cheaper_statement] sample_apps 3 3 (Float False (1 / 2)) = Ok out"
    using match_batch_returns [OF default_wf default_proper [folded sample_batch_parameters] sample_app_proper w] by blast
  then obtain cs synthetic where cs: "list_all2 (\<lambda>p c. statement_candidate sample_lib default_context default_parameters sample_apps sample_pool p = Ok c)
      (enumerate 0 [sample_statement, cheaper_statement]) cs" and o: "out = map (flagged cs) cs @ synthetic"
    by (rule match_batch_Ok) (simp add: sample_internal sample_batch_parameters)
  then obtain c d where cd: "cs = [c, d]"
    "statement_candidate sample_lib default_context default_parameters sample_apps sample_pool (0, sample_statement) = Ok c"
    "statement_candidate sample_lib default_context default_parameters sample_apps sample_pool (1, cheaper_statement) = Ok d"
    by (auto simp: list_all2_Cons1)
  have "rc_match_status c = MS_MATCHED" "matched_app c = Some ''a-1''"
    using sample_matched_app [OF cd(2)] by (simp_all add: sample_statement_def cheaper_statement_def)
  moreover have "rc_match_status d = MS_MATCHED" "matched_app d = Some ''a-2''"
    using sample_matched_app [OF cd(3)] by simp_all
  ultimately show ?thesis by (intro that [OF out]) (simp_all add: o cd(1) flagged_def)
qed

section \<open>Properties\<close>

text \<open>
  C37 How a match is classified. A matched statement is reported as a plain match, the only outcome
  that needs no review, exactly when the merchant of its candidate agrees, literally or after
  normalization, and the day is exact. A merchant that only resembles the statement's is a merchant
  variation, and the exact merchant on another day a window match. The confidence is 1, 4/5 or 3/5 by
  the merchant, less 1/10 on another day.
\<close>

theorem matched_classification:
  assumes "match_statement lib ctx params st cs = Ok r" and "mr_best_candidate r = Some c" and "wf_context ctx"
  shows "(result_to_issue_type r = IT_MATCHED \<longleftrightarrow> (exact_merchant st c \<or> normalized_merchant st c) \<and> exact_day st c) \<and>
    (\<not> exact_merchant st c \<and> \<not> normalized_merchant st c \<longrightarrow> result_to_issue_type r = IT_MERCHANT_VARIATION) \<and>
    (exact_merchant st c \<and> \<not> exact_day st c \<longrightarrow> result_to_issue_type r = IT_DATE_WINDOW_MATCH) \<and>
    (\<exists>d. compute_confidence ctx r = Ok d \<and>
      dval d = (if exact_merchant st c then 1 else if normalized_merchant st c then 4 / 5 else 3 / 5) -
        (if exact_day st c then 0 else 1 / 10))"
proof -
  obtain dr e where e: "mr_reasons r = matched_reasons dr e" "evaluate_with params st c = Ok e" "ce_eligible e"
    "ce_date_result e = Some dr" "0 \<le> mp_posted_date_window_days params" "mr_status r = MS_MATCHED"
    using assms(1,2) by (rule matched_result)
  obtain dr' where "ce_date_result e = Some dr'" "ce_merchant_exact e = exact_merchant st c"
    "ce_merchant_normalized_match e = normalized_merchant st c"
    "dm_matched_on dr' = (if exact_day st c then if st_transaction_date st = None then ''posted_date'' else ''transaction_date''
                             else ''posted_date_window'')"
    using e(2,3,5) by (rule eligible_evaluation)
  then have reasons: "set (mr_reasons r) = {RC_SAME_CURRENCY, RC_DIRECTION_TYPE_COMPATIBLE, RC_EXACT_AMOUNT_MATCH,
      if exact_day st c then if st_transaction_date st = None then RC_POSTED_DATE_WITHIN_TOLERANCE
        else RC_TRANSACTION_DATE_WITHIN_TOLERANCE else RC_POSTED_DATE_WINDOW_MATCH,
      if exact_merchant st c then RC_MERCHANT_EXACT_MATCH else if normalized_merchant st c then RC_MERCHANT_NORMALIZED_MATCH
        else RC_MERCHANT_SIMILARITY_MATCH}"
    using e(1,4) by (auto simp: matched_reasons_def)
  have "(result_to_issue_type r = IT_MATCHED \<longleftrightarrow> (exact_merchant st c \<or> normalized_merchant st c) \<and> exact_day st c) \<and>
    (\<not> exact_merchant st c \<and> \<not> normalized_merchant st c \<longrightarrow> result_to_issue_type r = IT_MERCHANT_VARIATION) \<and>
    (exact_merchant st c \<and> \<not> exact_day st c \<longrightarrow> result_to_issue_type r = IT_DATE_WINDOW_MATCH)"
    unfolding result_to_issue_type_def Let_def reasons e(6) by auto
  moreover have "compute_confidence ctx r = Ok (tenths
      ((if exact_merchant st c then 10 else if normalized_merchant st c then 8 else 6) - (if exact_day st c then 0 else 1)))"
    unfolding compute_confidence_def Let_def reasons e(6) by (auto simp: tenths_sub assms(3) dec_lt_iff dval_tenths simp del: One_nat_def)
  ultimately show ?thesis by (auto simp: dval_tenths)
qed

theorem matched_classification_witness:
  "\<exists>r d. match_statement sample_lib default_context default_parameters sample_statement sample_pool = Ok r \<and>
     result_to_issue_type r = IT_MATCHED \<and> compute_confidence default_context r = Ok d \<and> dval d = 4 / 5"
proof -
  obtain r where r: "match_statement sample_lib default_context default_parameters sample_statement sample_pool = Ok r"
    "mr_best_candidate r = Some (sample_candidate ''a-1'' 125)"
    by (rule sample_best [of sample_statement]) (simp_all add: cheaper_statement_def sample_statement_def)
  have "\<not> exact_merchant sample_statement (sample_candidate ''a-1'' 125)" "normalized_merchant sample_statement (sample_candidate ''a-1'' 125)"
    "exact_day sample_statement (sample_candidate ''a-1'' 125)" by code_simp+
  then show ?thesis using r matched_classification [OF r default_wf] by auto
qed

text \<open>
  C31 No app transaction settles two statements. Two different candidates of a batch that are both
  matched name app transactions with different ids, whatever the statements and the app transactions.
\<close>

theorem match_batch_exclusive:
  assumes "match_batch lib ctx statements apps tolerance window threshold = Ok out"
    and "i < length out" and "j < length out" and "i \<noteq> j"
    and "rc_match_status (out ! i) = MS_MATCHED" and "rc_match_status (out ! j) = MS_MATCHED"
  shows "\<exists>a b. rc_best_app_transaction (out ! i) = Some a \<and> rc_best_app_transaction (out ! j) = Some b \<and>
    at_app_txn_id a \<noteq> at_app_txn_id b"
proof -
  obtain internal cs synthetic where int: "app_to_internal apps = Ok internal"
    and cs: "list_all2 (\<lambda>p c. statement_candidate lib ctx (batch_parameters tolerance window threshold) apps internal p = Ok c)
      (enumerate 0 statements) cs"
    and syn: "list_all2 (\<lambda>a c. missing_in_statement a = Ok c) (filter (\<lambda>a. at_app_txn_id a \<notin> set (referenced_ids cs)) apps) synthetic"
    and out: "out = map (flagged cs) cs @ synthetic" using assms(1) by (rule match_batch_Ok)
  have one: "k < length cs \<and> out ! k = flagged cs (cs ! k) \<and> (\<exists>a. rc_best_app_transaction (out ! k) = Some a)"
    if "k < length out" "rc_match_status (out ! k) = MS_MATCHED" for k
  proof (cases "k < length cs")
    case True
    then have o: "out ! k = flagged cs (cs ! k)" by (simp add: out nth_append)
    then have "rc_match_status (cs ! k) = MS_MATCHED"
      using that(2) by (auto simp: flagged_def downgrade_def split: option.splits if_splits)
    then have "\<exists>a. rc_best_app_transaction (cs ! k) = Some a"
      using list_all2_member [OF cs nth_mem [OF True]] candidate_matched_app int by blast
    then show ?thesis using True o by simp
  next
    case False
    then have "out ! k \<in> set synthetic" using that(1) by (simp add: out nth_append)
    then have "rc_match_status (out ! k) = MS_NO_MATCH" using list_all2_member [OF syn] synthetic_Ok by blast
    then show ?thesis using that(2) by simp
  qed
  obtain a b where ab: "rc_best_app_transaction (out ! i) = Some a" "rc_best_app_transaction (out ! j) = Some b"
    using one assms by blast
  have "at_app_txn_id a \<noteq> at_app_txn_id b"
  proof (rule flagged_matched)
    show "i < length cs" "j < length cs" "i \<noteq> j" using one assms by blast+
    show "matched_app (flagged cs (cs ! i)) = Some (at_app_txn_id a)" "matched_app (flagged cs (cs ! j)) = Some (at_app_txn_id b)"
      using one [of i] one [of j] assms ab by (simp_all add: matched_app_def)
  qed
  then show ?thesis using ab by blast
qed

theorem match_batch_exclusive_witness:
  "\<exists>out a b. match_batch sample_lib default_context [sample_statement, cheaper_statement] sample_apps 3 3 (Float False (1 / 2)) = Ok out \<and>
     rc_match_status (out ! 0) = MS_MATCHED \<and> rc_match_status (out ! 1) = MS_MATCHED \<and>
     rc_best_app_transaction (out ! 0) = Some a \<and> rc_best_app_transaction (out ! 1) = Some b \<and> at_app_txn_id a \<noteq> at_app_txn_id b"
proof -
  obtain out where out: "match_batch sample_lib default_context [sample_statement, cheaper_statement] sample_apps 3 3 (Float False (1 / 2)) = Ok out"
    "rc_match_status (out ! 0) = MS_MATCHED" "rc_match_status (out ! 1) = MS_MATCHED" "1 < length out"
    by (rule sample_batch)
  have "0 < length out" using out(4) by linarith
  from match_batch_exclusive [OF out(1) this out(4) _ out(2,3)] out show ?thesis by simp
qed

text \<open>
  C32 A batch accounts for everything. With proper parameters, app transactions that are positive and
  have distinct non-blank ids, and amounts with a canonical text, every statement has a result of the
  matcher and the batch returns: first one candidate for each statement in their order, then one
  candidate for exactly each app transaction that is neither the best candidate nor one of the listed
  candidates in any of these results, in their order, reported as missing in the statement.
\<close>

theorem match_batch_accounts:
  assumes "wf_context ctx" and "proper_parameters (batch_parameters tolerance window threshold)"
    and "list_all proper_app apps" and "distinct (map at_app_txn_id apps)"
    and "\<forall>st\<in>set statements. \<forall>a. st_amount st = Some a \<longrightarrow> writable a"
  shows "\<exists>internal rs cs synthetic. app_to_internal apps = Ok internal \<and>
    list_all2 (\<lambda>st r. match_statement lib ctx (batch_parameters tolerance window threshold) st internal = Ok r) statements rs \<and>
    match_batch lib ctx statements apps tolerance window threshold = Ok (cs @ synthetic) \<and>
    map rc_statement cs = statements \<and>
    map rc_best_app_transaction synthetic = map Some (filter (\<lambda>a. \<forall>r\<in>set rs. \<not> considers r (at_app_txn_id a)) apps) \<and>
    list_all (\<lambda>c. rc_issue_type c = IT_MISSING_IN_STATEMENT \<and> rc_match_status c = MS_NO_MATCH) synthetic"
proof -
  obtain out where "match_batch lib ctx statements apps tolerance window threshold = Ok out"
    using assms by (rule match_batch_returns)
  then obtain internal cs synthetic where int: "app_to_internal apps = Ok internal"
    and cs: "list_all2 (\<lambda>p c. statement_candidate lib ctx (batch_parameters tolerance window threshold) apps internal p = Ok c)
      (enumerate 0 statements) cs"
    and syn: "list_all2 (\<lambda>a c. missing_in_statement a = Ok c) (filter (\<lambda>a. at_app_txn_id a \<notin> set (referenced_ids cs)) apps) synthetic"
    and out: "match_batch lib ctx statements apps tolerance window threshold = Ok (map (flagged cs) cs @ synthetic)"
    using match_batch_Ok by metis
  obtain rs where rs: "list_all2 (\<lambda>st r. match_statement lib ctx (batch_parameters tolerance window threshold) st internal = Ok r) statements rs"
    "list_all2 (\<lambda>r c. rc_best_app_transaction c = best_app_of apps r \<and> rc_all_app_transactions c = all_apps_of apps r) rs cs"
    "map rc_statement cs = statements" using cs by (rule batch_results)
  have f: "filter (\<lambda>a. at_app_txn_id a \<notin> set (referenced_ids cs)) apps =
      filter (\<lambda>a. \<forall>r\<in>set rs. \<not> considers r (at_app_txn_id a)) apps"
    using batch_considers [OF rs(2)] by (intro filter_cong) auto
  have "list_all2 (\<lambda>a c. rc_best_app_transaction c = Some a) (filter (\<lambda>a. \<forall>r\<in>set rs. \<not> considers r (at_app_txn_id a)) apps) synthetic"
    using syn unfolding f by (rule list_all2_mono) (simp add: synthetic_Ok)
  then have "map rc_best_app_transaction synthetic = map Some (filter (\<lambda>a. \<forall>r\<in>set rs. \<not> considers r (at_app_txn_id a)) apps)"
    by (induction rule: list_all2_induct) simp_all
  moreover have "list_all (\<lambda>c. rc_issue_type c = IT_MISSING_IN_STATEMENT \<and> rc_match_status c = MS_NO_MATCH) synthetic"
    unfolding list_all_iff using list_all2_member [OF syn] synthetic_Ok by blast
  moreover have "map rc_statement (map (flagged cs) cs) = statements" using rs(3) by (simp add: comp_def)
  ultimately show ?thesis using int rs(1) out by blast
qed

theorem match_batch_accounts_witness:
  "\<exists>cs synthetic. match_batch sample_lib default_context [sample_statement, posted_statement] sample_apps 3 3 (Float False (1 / 2)) = Ok (cs @ synthetic) \<and>
     map rc_statement cs = [sample_statement, posted_statement] \<and>
     map rc_best_app_transaction synthetic = [Some (sample_app ''a-2'' 90)]"
proof -
  have w: "\<forall>st\<in>set [sample_statement, posted_statement]. \<forall>a. st_amount st = Some a \<longrightarrow> writable a"
    using sample_writable by (simp add: sample_statement_def posted_statement_def)
  obtain internal rs cs synthetic where int: "app_to_internal sample_apps = Ok internal"
    and rs: "list_all2 (\<lambda>st r. match_statement sample_lib default_context default_parameters st internal = Ok r)
      [sample_statement, posted_statement] rs" and o:
    "match_batch sample_lib default_context [sample_statement, posted_statement] sample_apps 3 3 (Float False (1 / 2)) = Ok (cs @ synthetic)"
    "map rc_statement cs = [sample_statement, posted_statement]"
    "map rc_best_app_transaction synthetic = map Some (filter (\<lambda>a. \<forall>r\<in>set rs. \<not> considers r (at_app_txn_id a)) sample_apps)"
    using match_batch_accounts [OF default_wf default_proper [folded sample_batch_parameters] sample_app_proper w, of sample_lib]
    unfolding sample_batch_parameters by (elim exE conjE) (rule that)
  have pool: "internal = sample_pool" using int sample_internal by simp
  have "considers r i \<longleftrightarrow> i = ''a-1''" if "r \<in> set rs" for r i
    using list_all2_member [OF rs [unfolded pool] that] sample_considers by auto
  moreover have "rs \<noteq> []" using rs by auto
  ultimately have "filter (\<lambda>a. \<forall>r\<in>set rs. \<not> considers r (at_app_txn_id a)) sample_apps = [sample_app ''a-2'' 90]"
    by (auto simp: sample_app_def)
  then show ?thesis using o by (intro exI conjI) simp_all
qed

end
