(* ===== verification/Spec2Isabelle.thy ===== *)
theory Spec2Isabelle
  imports Split_Correctness Settlement Proposal_Lifecycle Snapshot_Use Recon_Order Recon_Batch
begin

text \<open>
  A verification development for finance-core, a Python library that keeps the books of a group of
  people: receipts come in as proposals, are split over participants, the debts are settled, every
  authoritative calculation is stored as a hashed snapshot with an entry in an append-only audit chain,
  and bank statements are reconciled against the recorded transactions. Paths below are relative to
  \<open>src/finance_core\<close>.

  \<^bold>\<open>The parts and their theories.\<close>

  \<^item> Python itself. Prelude has exceptions as values of a result type, dictionaries as association
    lists, and ASCII strings; Py_Decimal the \<open>decimal\<close> arithmetic with an explicit context; Py_Float
    binary64 numbers as rationals with \<open>repr\<close>; Py_Date dates; Json the writer and the reader of the
    \<open>json\<close> module; Digests hexadecimal digests and name-based UUIDs; Transactions connections with
    begin, commit and rollback.
  \<^item> Money: \<open>money.py\<close>. Currencies and their minor units, amounts, sign policies, exact addition and
    subtraction, canonical decimal text.
  \<^item> Receipt_Allocation, Receipt_Split and Split_Correctness:
    \<open>calculators/receipt_split_calculator.py\<close>. The minor-unit allocator with its two remainder
    policies, item shares and adjustments, the running sums over the receipts of a case, and the
    settlement of the balances. Greedy_Matching has the abstract matching of debtors and creditors
    that both settlement loops refine.
  \<^item> Settlement: \<open>settlement/runtime.py\<close>. Validated balances in, sorted obligations with identifiers out.
  \<^item> Proposal_Lifecycle: \<open>parser_proposals/lifecycle.py\<close>. The statuses of a proposal as a step relation,
    and the status of the raw intake that follows it.
  \<^item> Canonical_Json, Snapshot and Snapshot_Use: \<open>calculation/authoritative_snapshot.py\<close> and the table of
    migration 024. The canonical serializer and its reader, building, verifying, persisting and loading
    snapshots, and the checks that bind a finalization to one.
  \<^item> Audit_Chain and Audit_Trail: \<open>financial_audit/chain.py\<close> and the checks of migrations 025 and 035.
    Commands, events and rows, chain verification, append inside a caller's transaction or in one of
    its own.
  \<^item> Recon_Models, Recon_Decision, Recon_Matcher and Recon_Matching: the files of the same names under
    \<open>reconciliation\<close>. Statements and candidates, the gates a candidate has to pass, the match of one
    statement with its recorded decision, and batches. Recon_Correctness, Recon_Record, Recon_Order and
    Recon_Batch hold the proofs, Float_Text what they need about the texts of floats.

  \<^bold>\<open>How the model corresponds to the code.\<close> A dataclass is a record, an enumeration a datatype with a
  function for its values, a function of the source a definition of the same name without a leading
  underscore; a loop or a branch that is long in the source is a definition of its own. Code that may
  raise returns a result: \<open>Inl\<close> an exception with its class and the constant part of its message, or
  \<open>Ok\<close>. Code that writes to the database takes a connection and returns it in all cases, together with
  the result or the exception, so that what was written before an exception is still there until it is
  rolled back. The snapshot service appends its audit event through the same connection.

  \<^bold>\<open>What the lemmas show.\<close>

  \<^item> Money: canonical text reads back to the same value and determines it; an amount is accepted exactly
    when it lies on the grid of its currency and fits the context; sums and differences are exact.
  \<^item> Receipts: allocated shares are whole minor units that add up to the total; largest remainder gives
    the one apportionment with that name, and the payer policy gives the others their shares rounded
    half up and the payer what is left, or refuses; a split that returns has shares and payments that
    are exact sums, and obligations that clear every balance.
  \<^item> Settlement: the loop always ends, and for balances that sum to zero its obligations clear them.
  \<^item> Proposals: a proposal takes at most two transitions, the second into a terminal status, and the
    statuses without a further transition are exactly the terminal ones; the raw intake follows.
  \<^item> Canonical JSON: a text reads back, and only objects that differ in the order of keys share a text.
  \<^item> Audit chains: verification accepts exactly the numbered, linked and continuous chains; an append
    extends one by at most one event, a replay changes nothing, and the hash of the last event
    determines the whole chain or exhibits a collision of SHA-256.
  \<^item> Snapshots: built snapshots verify, are stored and read back, finalized ones are audited, the bound
    hash determines the content up to a collision, and persisting is all or nothing: the locale
    \<open>transaction_body\<close> derives this once for every service that owns its transaction, from the fact that
    its body changes nothing but tables, whether it returns or raises.
  \<^item> Reconciliation: a statement is matched exactly when one and only one candidate passes every gate,
    whatever the order of the candidates; the matcher returns exactly on proper inputs; its recorded
    decision verifies, and its hash commits to the decision; a batch matches no app transaction twice
    and accounts for every statement and every app transaction.

  Laws that several definitions share are locales, interpreted on those definitions:
  \<open>currency_rounding\<close> for the two roundings to a currency, \<open>matching_loop\<close> for a loop that refines the
  greedy matching, \<open>sealed_record\<close> for records with a hash of their own content, and
  \<open>transaction_body\<close>.

  \<^bold>\<open>Bounds and fuel.\<close> The JSON reader counts down from the length of the text, and every nested value
  takes at least one character, so that the counter never runs out on a text the writer produced;
  \<open>repr\<close> of a float tries 1 to 17 digits, the longest a binary64 number needs. The settlement loop is a
  partial function whose termination is a theorem; the receipt calculator's loop, which emits an
  obligation or drops an entry in every round, terminates by a measure. Decimal operations take their
  context as an argument; theorems assume that it is well formed and, where the source is only exact for
  values that fit the precision, that the values do.

  \<^bold>\<open>Parameters.\<close> SHA-256 and \<open>datetime.fromisoformat\<close> are arguments, gathered in the record \<open>stdlib\<close>. The
  only assumption on the digest is its length; statements about hashes are reductions, which exhibit
  two texts with the same digest, and texts are assumed to be ASCII there. The admission check of a
  connection and the outcomes of BEGIN and COMMIT are fields of the connection.

  \<^bold>\<open>Not modelled.\<close> Text outside ASCII; the variable part of error messages; concurrent connections and
  the SQL text itself, of which the keys, checks and triggers are modelled; of decision.py the
  comparison of a stored decision with its row, and of models.py the records of the review queue and of
  the apply runtime. The other packages are not modelled: the intake and parsing of receipts with its
  subprocesses and transports, the OpenClaw bridge and the command line tools, which are input and
  output around the services above; the posting, correction and finalization services, the human and
  AI drafting of proposals, and the persistence of reconciliation, which are sequences of SQL
  statements over tables whose constraints are spread over the migrations; the review queue and the
  apply runtime of reconciliation, which are outside the scope of the development; and profiles,
  snapshots of disks and archives, which act on the file system.
\<close>

end
